(* ===== verification/Prelude.thy ===== *)
theory Prelude
  imports Main "HOL-Library.AList" "HOL-Library.Word" "HOL-Library.Multiset" "HOL-Library.Sublist"
begin

text \<open>
  Shared material of the development: the collections of simplification facts, Go's maps as
  association lists with distinct keys, Go's fixed-width signed integers, and generic lemmas on
  lists, options and maps that several components use.
\<close>

named_theorems go_string \<open>characterisations of the string routines of the Go library\<close>
named_theorems go_map \<open>lookups and updates of Go maps\<close>
named_theorems effect \<open>effects of the store and queue operations on the state\<close>

section \<open>Go maps\<close>

text \<open>
  A Go \<open>map[string]V\<close> is an association list whose keys are distinct. The order of the list is
  the order in which one \<open>range\<close> over the map visits the keys, which the Go runtime chooses
  freely: a property that holds for every list holds for every iteration order.
\<close>

type_synonym 'v gomap = "(string \<times> 'v) list"

abbreviation gm_get :: "'v gomap \<Rightarrow> string \<Rightarrow> 'v option" where
  "gm_get m k \<equiv> map_of m k"

abbreviation gm_set :: "string \<Rightarrow> 'v \<Rightarrow> 'v gomap \<Rightarrow> 'v gomap" where
  "gm_set k v m \<equiv> AList.update k v m"

abbreviation gm_keys :: "'v gomap \<Rightarrow> string list" where
  "gm_keys m \<equiv> map fst m"

definition gm_ok :: "'v gomap \<Rightarrow> bool" where
  "gm_ok m \<longleftrightarrow> distinct (gm_keys m)"

lemma gm_ok_Nil [simp]: "gm_ok []"
  by (simp add: gm_ok_def)

lemma gm_ok_set [simp, intro]: "gm_ok m \<Longrightarrow> gm_ok (gm_set k v m)"
  by (simp add: gm_ok_def distinct_update)

lemma gm_get_set [simp, go_map]: "gm_get (gm_set k v m) = (gm_get m)(k \<mapsto> v)"
  by (rule update_conv')

lemma set_gm_keys_set [simp, go_map]: "set (gm_keys (gm_set k v m)) = insert k (set (gm_keys m))"
  by (auto simp: update_keys simp del: set_map)

lemma gm_get_None_iff [go_map]: "gm_get m k = None \<longleftrightarrow> k \<notin> set (gm_keys m)"
  by (simp add: map_of_eq_None_iff)

lemma gm_get_Some_iff [go_map]: "gm_ok m \<Longrightarrow> gm_get m k = Some v \<longleftrightarrow> (k, v) \<in> set m"
  by (simp add: gm_ok_def)

lemma gm_get_perm:
  assumes "gm_ok m" and "mset m = mset m'"
  shows "gm_get m = gm_get m'"
proof -
  from assms(2) have s: "set m = set m'" by (rule mset_eq_setD)
  from assms(2) have "mset (gm_keys m) = mset (gm_keys m')" by (simp only: mset_map)
  with assms(1) have "gm_ok m'" unfolding gm_ok_def by (metis mset_eq_imp_distinct_iff)
  with assms(1) s show ?thesis unfolding gm_ok_def by (metis map_of_inject_set)
qed

section \<open>Fixed-width signed integers\<close>

text \<open>
  Go's \<open>int64\<close> (and \<open>int\<close>, and \<open>time.Duration\<close>, on the 64-bit targets the services are built
  for) as an integer in its range; \<open>wrap64\<close> is the value that arithmetic leaves after overflow.
\<close>

definition max64 :: int where
  "max64 = 2 ^ 63 - 1"

definition min64 :: int where
  "min64 = - (2 ^ 63)"

definition wrap64 :: "int \<Rightarrow> int" where
  "wrap64 x = (x + 2 ^ 63) mod 2 ^ 64 - 2 ^ 63"

lemma wrap64_id [simp]: "min64 \<le> x \<Longrightarrow> x \<le> max64 \<Longrightarrow> wrap64 x = x"
  by (simp add: wrap64_def min64_def max64_def)

lemma wrap64_range: "min64 \<le> wrap64 x \<and> wrap64 x \<le> max64"
  by (auto simp: wrap64_def min64_def max64_def)

lemma wrap64_neg_min: "wrap64 (- min64) = min64"
  by (simp add: wrap64_def min64_def)

text \<open>Division truncates towards zero, as Go's \<open>/\<close> does.\<close>

definition quot :: "int \<Rightarrow> int \<Rightarrow> int" where
  "quot a b = (if (a < 0) = (b < 0) then \<bar>a\<bar> div \<bar>b\<bar> else - (\<bar>a\<bar> div \<bar>b\<bar>))"

lemma quot_nonneg [simp]: "0 \<le> a \<Longrightarrow> 0 < b \<Longrightarrow> quot a b = a div b"
  by (simp add: quot_def)

section \<open>Lists\<close>

lemma map_of_filter_fst:
  "map_of (filter (\<lambda>p. P (fst p)) m) k = (if P k then map_of m k else None)"
  by (induction m) auto

lemma disjoint_singleton: "A \<subseteq> {a} \<Longrightarrow> B \<subseteq> C \<Longrightarrow> a \<notin> C \<Longrightarrow> A \<inter> B = {}"
  by blast

lemma distinct_map_append:
  "distinct (map f xs) \<Longrightarrow> distinct (map f ys) \<Longrightarrow> f ` set xs \<inter> f ` set ys = {}
    \<Longrightarrow> distinct (map f (xs @ ys))"
  by simp

lemma find_map_row:
  assumes "key row = k"
  shows "find (\<lambda>x. key x = a) (map (\<lambda>x. if key x = k then row else x) xs) =
    (if a = k then (if k \<in> key ` set xs then Some row else None) else find (\<lambda>x. key x = a) xs)"
  using assms by (induction xs) auto

lemma find_append: "find P (xs @ ys) = (case find P xs of None \<Rightarrow> find P ys | Some x \<Rightarrow> Some x)"
  by (induction xs) auto

lemma find_None_notin: "a \<notin> key ` set xs \<Longrightarrow> find (\<lambda>x. key x = a) xs = None"
  by (induction xs) auto

lemma find_SomeD: "find P xs = Some x \<Longrightarrow> x \<in> set xs \<and> P x"
  by (induction xs) (auto split: if_splits)

text \<open>The first of each group of a list, as \<open>SELECT DISTINCT ON\<close> keeps it.\<close>

fun distinct_on :: "('a \<Rightarrow> 'b) \<Rightarrow> 'a list \<Rightarrow> 'a list" where
  "distinct_on k [] = []"
| "distinct_on k (x # xs) = x # distinct_on k (filter (\<lambda>y. k y \<noteq> k x) xs)"

lemma distinct_on_subset: "set (distinct_on k xs) \<subseteq> set xs"
proof (induction k xs rule: distinct_on.induct)
  case (2 k x xs)
  have "set (filter (\<lambda>y. k y \<noteq> k x) xs) \<subseteq> set xs" by (rule filter_is_subset)
  with 2 have "set (distinct_on k (filter (\<lambda>y. k y \<noteq> k x) xs)) \<subseteq> set xs" by (rule subset_trans)
  then show ?case by (auto simp only: distinct_on.simps list.set)
qed simp

lemma distinct_on_keys: "distinct (map k (distinct_on k xs))"
proof (induction k xs rule: distinct_on.induct)
  case (2 k x xs)
  have "k x \<notin> k ` set (filter (\<lambda>y. k y \<noteq> k x) xs)" by auto
  then have "k x \<notin> k ` set (distinct_on k (filter (\<lambda>y. k y \<noteq> k x) xs))"
    using image_mono [OF distinct_on_subset] by (rule contra_subsetD [rotated])
  with 2 show ?case by (simp only: distinct_on.simps list.map distinct.simps set_map simp_thms)
qed simp

lemma distinct_on_covers: "x \<in> set xs \<Longrightarrow> \<exists>y \<in> set (distinct_on k xs). k y = k x"
proof (induction k xs arbitrary: x rule: distinct_on.induct)
  case (2 k a xs)
  then show ?case by (cases "k x = k a") auto
qed simp

lemma distinct_on_first:
  "sorted_wrt (\<lambda>x y. k x = k y \<longrightarrow> R x y) xs \<Longrightarrow> y \<in> set (distinct_on k xs) \<Longrightarrow> x \<in> set xs
    \<Longrightarrow> k x = k y \<Longrightarrow> x = y \<or> R y x"
proof (induction k xs rule: distinct_on.induct)
  case (2 k a xs)
  show ?case
  proof (cases "y = a")
    case True
    with 2 show ?thesis by auto
  next
    case False
    with 2(3) have y: "y \<in> set (distinct_on k (filter (\<lambda>y. k y \<noteq> k a) xs))" by simp
    have ky: "k y \<noteq> k a" using subsetD [OF distinct_on_subset y] by simp
    have "sorted_wrt (\<lambda>x y. k x = k y \<longrightarrow> R x y) (filter (\<lambda>y. k y \<noteq> k a) xs)"
      using 2(2) by (simp add: sorted_wrt_filter)
    moreover have "x \<in> set (filter (\<lambda>y. k y \<noteq> k a) xs)" using 2(4,5) ky by auto
    ultimately show ?thesis using 2(1) y 2(5) by blast
  qed
qed simp

lemma sorted_wrt_groups:
  "(\<And>c. sorted_wrt P (filter (\<lambda>x. k x = c) xs)) \<Longrightarrow> sorted_wrt (\<lambda>x y. k x = k y \<longrightarrow> P x y) xs"
proof (induction xs)
  case (Cons a xs)
  have "sorted_wrt P (filter (\<lambda>x. k x = c) xs)" for c
    using Cons.prems [of c] by (simp split: if_splits)
  moreover have "\<forall>y \<in> set xs. k a = k y \<longrightarrow> P a y"
    using Cons.prems [of "k a"] by auto
  ultimately show ?case using Cons.IH by simp
qed simp

lemma find_None_iff_filter: "find P xs = None \<longleftrightarrow> filter P xs = []"
  by (induction xs) auto

end
