(* ===== verification/GoStrings.thy ===== *)
theory GoStrings
  imports Prelude
begin

text \<open>
  The routines of Go's \<open>strings\<close>, \<open>bytes\<close>, \<open>strconv\<close>, \<open>encoding/hex\<close> and \<open>net\<close> packages that the
  services call. A Go \<open>string\<close> and a Go \<open>[]byte\<close> are both sequences of bytes; HOL's \<open>string\<close> is a
  list of 8-bit characters, so both are modelled by it and the conversions between them are the
  identity.
\<close>

type_synonym bytes = string

section \<open>Searching\<close>

text \<open>\<open>strings.HasPrefix\<close>, \<open>bytes.HasPrefix\<close>.\<close>

definition has_prefix :: "string \<Rightarrow> string \<Rightarrow> bool" where
  "has_prefix s p = (take (length p) s = p)"

text \<open>\<open>strings.Index\<close>; the result \<open>-1\<close> is \<open>None\<close>.\<close>

fun index_of :: "string \<Rightarrow> string \<Rightarrow> nat option" where
  "index_of [] p = (if p = [] then Some 0 else None)"
| "index_of (c # s) p =
     (if has_prefix (c # s) p then Some 0 else map_option Suc (index_of s p))"

text \<open>\<open>strings.Contains\<close>, \<open>bytes.Contains\<close>.\<close>

definition contains :: "string \<Rightarrow> string \<Rightarrow> bool" where
  "contains s p = (index_of s p \<noteq> None)"

text \<open>\<open>strings.IndexByte\<close>.\<close>

fun index_byte :: "string \<Rightarrow> char \<Rightarrow> nat option" where
  "index_byte [] c = None"
| "index_byte (x # s) c = (if x = c then Some 0 else map_option Suc (index_byte s c))"

text \<open>\<open>strings.LastIndexByte\<close>.\<close>

fun last_index_byte :: "string \<Rightarrow> char \<Rightarrow> nat option" where
  "last_index_byte [] c = None"
| "last_index_byte (x # s) c =
     (case last_index_byte s c of
        Some i \<Rightarrow> Some (Suc i)
      | None \<Rightarrow> if x = c then Some 0 else None)"

text \<open>\<open>strings.Split(s, sep)\<close> for a separator of one byte: never the empty list.\<close>

fun split_byte :: "char \<Rightarrow> string \<Rightarrow> string list" where
  "split_byte c [] = [[]]"
| "split_byte c (x # s) =
     (if x = c then [] # split_byte c s
      else (case split_byte c s of [] \<Rightarrow> [[x]] | w # ws \<Rightarrow> (x # w) # ws))"

lemma has_prefix_iff [go_string]: "has_prefix s p \<longleftrightarrow> (\<exists>t. s = p @ t)"
  unfolding has_prefix_def by (metis append_eq_conv_conj append_take_drop_id)

lemma has_prefix_Nil [simp]: "has_prefix s []"
  by (simp add: has_prefix_def)

lemma has_prefix_length: "has_prefix s p \<Longrightarrow> length p \<le> length s"
  by (auto simp: has_prefix_iff)

lemma index_of_Some:
  "index_of s p = Some i \<Longrightarrow> i + length p \<le> length s \<and> take (length p) (drop i s) = p"
proof (induction s p arbitrary: i rule: index_of.induct)
  case (1 p)
  then show ?case by (auto split: if_splits)
next
  case (2 c s p)
  then show ?case
    using has_prefix_length [of "c # s" p] by (auto simp: has_prefix_def split: if_splits)
qed

lemma contains_iff [go_string]: "contains s p \<longleftrightarrow> (\<exists>u v. s = u @ p @ v)"
proof (induction s p rule: index_of.induct)
  case (1 p)
  then show ?case by (auto simp: contains_def)
next
  case (2 c s p)
  show ?case
  proof (cases "has_prefix (c # s) p")
    case True
    then show ?thesis by (auto simp: contains_def has_prefix_iff intro: exI [of _ "[]"])
  next
    case False
    then have "contains (c # s) p = contains s p" by (simp add: contains_def)
    also have "\<dots> \<longleftrightarrow> (\<exists>u v. s = u @ p @ v)" using False 2 by simp
    also have "\<dots> \<longleftrightarrow> (\<exists>u v. c # s = u @ p @ v)"
      using False by (auto simp: has_prefix_iff Cons_eq_append_conv)
    finally show ?thesis .
  qed
qed

lemma index_of_first:
  "index_of s p = Some i \<Longrightarrow> j < i \<Longrightarrow> \<not> has_prefix (drop j s) p"
proof (induction s p arbitrary: i j rule: index_of.induct)
  case (1 p)
  then show ?case by (auto split: if_splits)
next
  case (2 c s p)
  then show ?case by (cases j) (auto split: if_splits)
qed

lemma index_byte_Some [go_string]:
  "index_byte s c = Some i \<longleftrightarrow> i < length s \<and> s ! i = c \<and> (\<forall>j < i. s ! j \<noteq> c)"
proof (induction s c arbitrary: i rule: index_byte.induct)
  case (1 c)
  then show ?case by simp
next
  case (2 x s c)
  then show ?case by (cases i) (auto simp: nth_Cons less_Suc_eq_0_disj split: nat.splits)
qed

lemma index_byte_None [go_string]: "index_byte s c = None \<longleftrightarrow> c \<notin> set s"
  by (induction s c rule: index_byte.induct) auto

lemma index_byte_append: "c \<notin> set u \<Longrightarrow> index_byte (u @ c # v) c = Some (length u)"
  by (induction u) auto

lemma split_byte_not_Nil [simp]: "split_byte c s \<noteq> []"
  by (induction c s rule: split_byte.induct) (auto split: list.splits)

lemma split_byte_no_sep: "c \<notin> set s \<Longrightarrow> split_byte c s = [s]"
  by (induction s) auto

lemma split_byte_append: "c \<notin> set u \<Longrightarrow> split_byte c (u @ c # v) = u # split_byte c v"
  by (induction u) (auto split: list.splits)

lemma split_byte_pieces: "w \<in> set (split_byte c s) \<Longrightarrow> c \<notin> set w"
  by (induction c s arbitrary: w rule: split_byte.induct) (auto split: list.splits if_splits)

section \<open>Trimming and case\<close>

text \<open>
  The white space of \<open>unicode.IsSpace\<close>, each code point as its UTF-8 encoding. A leading (or
  trailing) rune of a string is one of these code points exactly when the string starts (ends)
  with its encoding, so trimming runes is stripping these byte sequences.
\<close>

definition space_runes :: "string list" where
  "space_runes =
    [[CHR 0x09], [CHR 0x0A], [CHR 0x0B], [CHR 0x0C], [CHR 0x0D], [CHR 0x20],
     [CHR 0xC2, CHR 0x85], [CHR 0xC2, CHR 0xA0], [CHR 0xE1, CHR 0x9A, CHR 0x80],
     [CHR 0xE2, CHR 0x80, CHR 0x80], [CHR 0xE2, CHR 0x80, CHR 0x81],
     [CHR 0xE2, CHR 0x80, CHR 0x82], [CHR 0xE2, CHR 0x80, CHR 0x83],
     [CHR 0xE2, CHR 0x80, CHR 0x84], [CHR 0xE2, CHR 0x80, CHR 0x85],
     [CHR 0xE2, CHR 0x80, CHR 0x86], [CHR 0xE2, CHR 0x80, CHR 0x87],
     [CHR 0xE2, CHR 0x80, CHR 0x88], [CHR 0xE2, CHR 0x80, CHR 0x89],
     [CHR 0xE2, CHR 0x80, CHR 0x8A], [CHR 0xE2, CHR 0x80, CHR 0xA8],
     [CHR 0xE2, CHR 0x80, CHR 0xA9], [CHR 0xE2, CHR 0x80, CHR 0xAF],
     [CHR 0xE2, CHR 0x81, CHR 0x9F], [CHR 0xE3, CHR 0x80, CHR 0x80]]"

fun strip_while :: "nat \<Rightarrow> string list \<Rightarrow> string \<Rightarrow> string" where
  "strip_while 0 ws s = s"
| "strip_while (Suc n) ws s =
     (case find (has_prefix s) ws of
        None \<Rightarrow> s
      | Some w \<Rightarrow> strip_while n ws (drop (length w) s))"

text \<open>
  \<open>strings.TrimSpace\<close>. Each round removes at least one byte, so as many rounds as the string has
  bytes remove every leading white-space rune.
\<close>

definition trim_left_space :: "string \<Rightarrow> string" where
  "trim_left_space s = strip_while (length s) space_runes s"

definition trim_right_space :: "string \<Rightarrow> string" where
  "trim_right_space s = rev (strip_while (length s) (map rev space_runes) (rev s))"

definition trim_space :: "string \<Rightarrow> string" where
  "trim_space s = trim_right_space (trim_left_space s)"

text \<open>\<open>strings.TrimRight(s, cutset)\<close> for a cutset of ASCII characters.\<close>

definition trim_right_set :: "char set \<Rightarrow> string \<Rightarrow> string" where
  "trim_right_set cs s = rev (dropWhile (\<lambda>c. c \<in> cs) (rev s))"

lemma strip_while_suffix: "suffix (strip_while n ws s) s"
proof (induction n ws s rule: strip_while.induct)
  case (2 n ws s)
  then show ?case
    by (auto split: option.splits) (metis suffix_drop suffix_order.trans)
qed simp

lemma trim_space_sublist: "\<exists>u v. s = u @ trim_space s @ v"
proof -
  obtain u where u: "s = u @ trim_left_space s"
    using strip_while_suffix [of "length s" space_runes s]
    by (auto simp: trim_left_space_def suffix_def)
  obtain v where "rev (trim_left_space s) = v @ rev (trim_space s)"
    using strip_while_suffix [of "length (trim_left_space s)" "map rev space_runes" "rev (trim_left_space s)"]
    by (auto simp: trim_space_def trim_right_space_def suffix_def)
  then have "trim_left_space s = trim_space s @ rev v"
    by (metis rev_append rev_rev_ident)
  with u show ?thesis by metis
qed

lemma strip_while_id: "find (has_prefix s) ws = None \<Longrightarrow> strip_while n ws s = s"
  by (cases n) simp_all

text \<open>A string whose first and last bytes are printable ASCII is left as it is.\<close>

definition graphic :: "char \<Rightarrow> bool" where
  "graphic c \<longleftrightarrow> (0x21 :: nat) \<le> of_char c \<and> of_char c \<le> (0x7E :: nat)"

lemma graphic_not_space:
  assumes "graphic c" "w \<in> set space_runes"
  shows "hd w \<noteq> c \<and> last w \<noteq> c \<and> w \<noteq> []"
proof -
  have "list_all (\<lambda>w. w \<noteq> [] \<and> \<not> graphic (hd w) \<and> \<not> graphic (last w)) space_runes"
    by (simp add: space_runes_def graphic_def)
  with assms show ?thesis by (auto simp: list_all_iff)
qed

lemma trim_left_space_graphic:
  assumes "graphic c"
  shows "trim_left_space (c # s) = c # s"
proof -
  have "\<not> has_prefix (c # s) w" if "w \<in> set space_runes" for w
    using graphic_not_space [OF assms that] by (cases w) (auto simp: has_prefix_def)
  then show ?thesis
    unfolding trim_left_space_def by (intro strip_while_id) (simp add: find_None_iff)
qed

lemma trim_right_space_graphic:
  assumes "graphic c"
  shows "trim_right_space (s @ [c]) = s @ [c]"
proof -
  have "\<not> has_prefix (c # rev s) (rev w)" if "w \<in> set space_runes" for w
    using graphic_not_space [OF assms that] by (cases w rule: rev_cases) (auto simp: has_prefix_def)
  then have "strip_while (length (s @ [c])) (map rev space_runes) (rev (s @ [c])) = rev (s @ [c])"
    by (intro strip_while_id) (auto simp: find_None_iff)
  then show ?thesis by (simp add: trim_right_space_def)
qed

lemma trim_space_graphic:
  assumes "s \<noteq> []" "graphic (hd s)" "graphic (last s)"
  shows "trim_space s = s"
proof -
  from assms(1,2) have l: "trim_left_space s = s"
    by (cases s) (auto simp: trim_left_space_graphic)
  have "trim_right_space s = s"
    using trim_right_space_graphic [of "last s" "butlast s"] assms(1,3) by simp
  with l show ?thesis by (simp add: trim_space_def)
qed

text \<open>
  \<open>strings.ToLower\<close> and \<open>strings.EqualFold\<close> on ASCII letters. The services compare the results
  with constants whose letters have no non-ASCII case variant, and header keys are ASCII tokens,
  so the ASCII part of the case mapping decides each comparison.
\<close>

definition lower_char :: "char \<Rightarrow> char" where
  "lower_char c =
    (let n = (of_char c :: nat) in if 65 \<le> n \<and> n \<le> 90 then char_of (n + 32) else c)"

definition to_lower :: "string \<Rightarrow> string" where
  "to_lower s = map lower_char s"

definition equal_fold :: "string \<Rightarrow> string \<Rightarrow> bool" where
  "equal_fold s t = (to_lower s = to_lower t)"

section \<open>Numbers\<close>

definition digit_val :: "char \<Rightarrow> nat option" where
  "digit_val c =
    (let n = (of_char c :: nat) in if 48 \<le> n \<and> n \<le> 57 then Some (n - 48) else None)"

fun digits_val :: "nat \<Rightarrow> string \<Rightarrow> nat option" where
  "digits_val acc [] = Some acc"
| "digits_val acc (c # s) =
     (case digit_val c of None \<Rightarrow> None | Some d \<Rightarrow> digits_val (10 * acc + d) s)"

text \<open>
  \<open>strconv.ParseInt(s, 10, 64)\<close> and \<open>strconv.Atoi\<close>: an optional sign, at least one digit, and
  a value in the range of \<open>int64\<close>; \<open>None\<close> is the error return.
\<close>

definition parse_int :: "string \<Rightarrow> int option" where
  "parse_int s =
    (let (neg, ds) =
       (case s of
          [] \<Rightarrow> (False, [])
        | c # cs \<Rightarrow>
            if c = CHR ''-'' then (True, cs) else if c = CHR ''+'' then (False, cs) else (False, s))
     in if ds = [] then None
        else (case digits_val 0 ds of
                None \<Rightarrow> None
              | Some n \<Rightarrow>
                  let v = (if neg then - int n else int n)
                  in if min64 \<le> v \<and> v \<le> max64 then Some v else None))"

definition digit_char :: "nat \<Rightarrow> char" where
  "digit_char d = char_of (48 + d)"

fun format_nat :: "nat \<Rightarrow> string" where
  "format_nat n =
    (if n < 10 then [digit_char n] else format_nat (n div 10) @ [digit_char (n mod 10)])"

declare format_nat.simps [simp del]

text \<open>\<open>strconv.FormatInt(n, 10)\<close>, \<open>strconv.Itoa\<close> and the verb \<open>%d\<close>.\<close>

definition format_int :: "int \<Rightarrow> string" where
  "format_int n = (if n < 0 then CHR ''-'' # format_nat (nat (- n)) else format_nat (nat n))"

lemma digit_val_char [simp]: "d < 10 \<Longrightarrow> digit_val (digit_char d) = Some d"
  by (simp add: digit_val_def digit_char_def take_bit_eq_mod)

lemma digit_val_Some: "digit_val c = Some d \<Longrightarrow> d < 10"
  by (auto simp: digit_val_def Let_def split: if_splits)

lemma digits_val_append:
  "digits_val acc (s @ t) = Option.bind (digits_val acc s) (\<lambda>n. digits_val n t)"
  by (induction acc s rule: digits_val.induct) (auto split: option.splits)

lemma digits_val_format_nat:
  "digits_val acc (format_nat n) = Some (acc * 10 ^ length (format_nat n) + n)"
proof (induction n arbitrary: acc rule: format_nat.induct)
  case (1 n)
  show ?case
  proof (cases "n < 10")
    case True
    then show ?thesis by (simp add: format_nat.simps)
  next
    case False
    then have "digits_val acc (format_nat (n div 10))
        = Some (acc * 10 ^ length (format_nat (n div 10)) + n div 10)"
      by (rule 1)
    moreover have "format_nat n = format_nat (n div 10) @ [digit_char (n mod 10)]"
      using False by (subst format_nat.simps) simp
    ultimately show ?thesis by (simp add: digits_val_append algebra_simps)
  qed
qed

lemma format_nat_not_Nil [simp]: "format_nat n \<noteq> []"
  by (subst format_nat.simps) simp

definition is_digit :: "char \<Rightarrow> bool" where
  "is_digit c \<longleftrightarrow> digit_val c \<noteq> None"

lemma format_nat_digits: "c \<in> set (format_nat n) \<Longrightarrow> is_digit c"
proof (induction n rule: format_nat.induct)
  case (1 n)
  show ?case
  proof (cases "n < 10")
    case True
    then have "format_nat n = [digit_char n]" by (subst format_nat.simps) simp
    with 1 True show ?thesis by (auto simp: is_digit_def)
  next
    case False
    then have "format_nat n = format_nat (n div 10) @ [digit_char (n mod 10)]"
      by (subst format_nat.simps) simp
    with 1 False show ?thesis by (auto simp: is_digit_def)
  qed
qed

lemma format_int_not_Nil [simp]: "format_int n \<noteq> []"
  by (simp add: format_int_def)

lemma format_int_chars: "c \<in> set (format_int n) \<Longrightarrow> is_digit c \<or> c = CHR ''-''"
  by (auto simp: format_int_def dest: format_nat_digits split: if_splits)

lemma parse_format_int:
  assumes "min64 \<le> n" "n \<le> max64"
  shows "parse_int (format_int n) = Some n"
proof (cases "n < 0")
  case True
  then show ?thesis
    using assms by (simp add: parse_int_def format_int_def digits_val_format_nat)
next
  case False
  obtain c cs where c: "format_nat (nat n) = c # cs" by (cases "format_nat (nat n)") auto
  then have "is_digit c" using format_nat_digits [of c "nat n"] by simp
  then have "c \<noteq> CHR ''-''" "c \<noteq> CHR ''+''" by (auto simp: is_digit_def digit_val_def)
  with False assms c show ?thesis
    using digits_val_format_nat [of 0 "nat n"] by (simp add: parse_int_def format_int_def)
qed

section \<open>Hexadecimal\<close>

definition hex_digit :: "nat \<Rightarrow> char" where
  "hex_digit d = (if d < 10 then char_of (48 + d) else char_of (87 + d))"

definition hex_val :: "char \<Rightarrow> nat option" where
  "hex_val c =
    (let n = (of_char c :: nat) in
       if 48 \<le> n \<and> n \<le> 57 then Some (n - 48)
       else if 97 \<le> n \<and> n \<le> 102 then Some (n - 87)
       else if 65 \<le> n \<and> n \<le> 70 then Some (n - 55)
       else None)"

text \<open>\<open>hex.EncodeToString\<close>, in lower case.\<close>

fun hex_encode :: "bytes \<Rightarrow> string" where
  "hex_encode [] = []"
| "hex_encode (b # bs) =
     hex_digit (of_char b div 16) # hex_digit (of_char b mod 16) # hex_encode bs"

text \<open>\<open>hex.DecodeString\<close>: either case; an odd length or another character is an error.\<close>

fun hex_decode :: "string \<Rightarrow> bytes option" where
  "hex_decode [] = Some []"
| "hex_decode [c] = None"
| "hex_decode (c # d # s) =
     (case (hex_val c, hex_val d, hex_decode s) of
        (Some h, Some l, Some bs) \<Rightarrow> Some (char_of (16 * h + l) # bs)
      | _ \<Rightarrow> None)"

lemma hex_val_digit [simp]: "d < 16 \<Longrightarrow> hex_val (hex_digit d) = Some d"
  by (simp add: hex_val_def hex_digit_def take_bit_eq_mod)

lemma of_char_lt [simp]: "(of_char c :: nat) < 256"
  by (rule nat_of_char_less_256)

lemma hex_decode_encode [simp]: "hex_decode (hex_encode bs) = Some bs"
proof (induction bs)
  case (Cons b bs)
  have "(of_char b :: nat) div 16 < 16"
    using of_char_lt [of b] by linarith
  then have "hex_val (hex_digit (of_char b div 16)) = Some (of_char b div 16)"
    by (rule hex_val_digit)
  moreover have "char_of (16 * (of_char b div 16) + of_char b mod 16 :: nat) = b"
    by simp
  ultimately show ?case using Cons by simp
qed simp

lemma hex_encode_chars: "c \<in> set (hex_encode bs) \<Longrightarrow> hex_val c \<noteq> None"
proof (induction bs)
  case (Cons b bs)
  have "(of_char b :: nat) div 16 < 16"
    using of_char_lt [of b] by linarith
  then have "hex_val (hex_digit (of_char b div 16)) \<noteq> None"
    by simp
  with Cons show ?case by auto
qed simp

lemma hex_encode_Nil_iff [simp]: "hex_encode bs = [] \<longleftrightarrow> bs = []"
  by (cases bs) simp_all

section \<open>Network addresses\<close>

text \<open>The host part of \<open>net.SplitHostPort\<close>; \<open>None\<close> is the error return.\<close>

definition split_host :: "string \<Rightarrow> string option" where
  "split_host s =
    (case last_index_byte s (CHR '':'') of
       None \<Rightarrow> None
     | Some i \<Rightarrow>
         if hd s = CHR ''['' then
           (case index_byte s (CHR '']'') of
              None \<Rightarrow> None
            | Some e \<Rightarrow>
                if e + 1 = i then
                  if index_byte (drop 1 s) (CHR ''['') \<noteq> None
                     \<or> index_byte (drop (e + 1) s) (CHR '']'') \<noteq> None then None
                  else Some (drop 1 (take e s))
                else None)
         else
           let host = take i s in
             if index_byte host (CHR '':'') \<noteq> None \<or> index_byte s (CHR ''['') \<noteq> None
                \<or> index_byte s (CHR '']'') \<noteq> None then None
             else Some host)"

end
