(* ===== verification/Sha256.thy ===== *)
theory Sha256
  imports GoStrings
begin

unbundle bit_operations_syntax

text \<open>
  SHA-256 (FIPS 180-4) and HMAC (RFC 2104) as \<open>crypto/sha256\<close> and \<open>crypto/hmac\<close> of the Go library
  compute them: 32-bit words that wrap around, messages padded to blocks of 64 bytes.
\<close>

type_synonym u32 = "32 word"

definition rotr :: "nat \<Rightarrow> u32 \<Rightarrow> u32" where
  "rotr n x = drop_bit n x OR push_bit (32 - n) x"

text \<open>
  The constants are bits of irrational roots of the first primes: the standard takes the first 32 bits
  of the fractional part of the cube roots of 64 primes for the rounds and of the square roots of eight
  primes for the start. \<open>root_bits k m x r\<close> finds the largest number below \<open>r + 2 ^ m\<close> whose
  \<open>k\<close>-th power is at most \<open>x\<close>, bit by bit.
\<close>

fun root_bits :: "nat \<Rightarrow> nat \<Rightarrow> int \<Rightarrow> int \<Rightarrow> int" where
  "root_bits k 0 x r = r"
| "root_bits k (Suc m) x r = root_bits k m x (if (r + 2 ^ m) ^ k \<le> x then r + 2 ^ m else r)"

definition first_primes :: "nat \<Rightarrow> int list" where
  "first_primes n = take n (filter (\<lambda>p. list_all (\<lambda>d. p mod d \<noteq> 0) [2..p - 1]) [2..311])"

definition root_fraction :: "nat \<Rightarrow> int \<Rightarrow> u32" where
  "root_fraction k p = word_of_int (root_bits k 37 (p * 2 ^ (32 * k)) 0)"

definition sha_k :: "u32 list" where
  "sha_k = map (root_fraction 3) (first_primes 64)"

type_synonym sha_state = "u32 \<times> u32 \<times> u32 \<times> u32 \<times> u32 \<times> u32 \<times> u32 \<times> u32"

definition sha_init :: sha_state where
  "sha_init =
    (case map (root_fraction 2) (first_primes 8) of
       [a, b, c, d, e, f, g, h] \<Rightarrow> (a, b, c, d, e, f, g, h))"

definition sigma0 :: "u32 \<Rightarrow> u32" where
  "sigma0 x = rotr 7 x XOR rotr 18 x XOR drop_bit 3 x"

definition sigma1 :: "u32 \<Rightarrow> u32" where
  "sigma1 x = rotr 17 x XOR rotr 19 x XOR drop_bit 10 x"

definition big_sigma0 :: "u32 \<Rightarrow> u32" where
  "big_sigma0 x = rotr 2 x XOR rotr 13 x XOR rotr 22 x"

definition big_sigma1 :: "u32 \<Rightarrow> u32" where
  "big_sigma1 x = rotr 6 x XOR rotr 11 x XOR rotr 25 x"

text \<open>
  The message schedule, kept as the window of the last sixteen words: each round consumes the
  head of the window and appends the next word.
\<close>

fun sha_rounds :: "u32 list \<Rightarrow> u32 list \<Rightarrow> sha_state \<Rightarrow> sha_state" where
  "sha_rounds [] w st = st"
| "sha_rounds (k # ks) w (a, b, c, d, e, f, g, h) =
    (let wt = hd w;
         t1 = h + big_sigma1 e + ((e AND f) XOR (NOT e AND g)) + k + wt;
         t2 = big_sigma0 a + ((a AND b) XOR (a AND c) XOR (b AND c));
         next = sigma1 (w ! 14) + w ! 9 + sigma0 (w ! 1) + wt
     in sha_rounds ks (tl w @ [next]) (t1 + t2, a, b, c, d + t1, e, f, g))"

fun be_words :: "bytes \<Rightarrow> u32 list" where
  "be_words (a # b # c # d # bs) =
     (push_bit 24 (of_char a) OR push_bit 16 (of_char b) OR push_bit 8 (of_char c) OR of_char d)
     # be_words bs"
| "be_words _ = []"

definition word_bytes :: "u32 \<Rightarrow> bytes" where
  "word_bytes w = map (\<lambda>n. char_of (unat (drop_bit n w))) [24, 16, 8, 0]"

definition sha_block :: "sha_state \<Rightarrow> bytes \<Rightarrow> sha_state" where
  "sha_block st blk =
    (case st of (a, b, c, d, e, f, g, h) \<Rightarrow>
     case sha_rounds sha_k (be_words blk) st of (a', b', c', d', e', f', g', h') \<Rightarrow>
       (a + a', b + b', c + c', d + d', e + e', f + f', g + g', h + h'))"

text \<open>A message is followed by the byte 80, zeros, and its bit length as eight bytes.\<close>

definition sha_pad :: "bytes \<Rightarrow> bytes" where
  "sha_pad m =
    (let n = length m; z = (119 - n mod 64) mod 64 in
       m @ [CHR 0x80] @ replicate z (CHR 0x00)
         @ map (\<lambda>i. char_of ((8 * n) div 256 ^ i)) [7, 6, 5, 4, 3, 2, 1, 0])"

function sha_blocks :: "sha_state \<Rightarrow> bytes \<Rightarrow> sha_state" where
  "sha_blocks st bs = (if bs = [] then st else sha_blocks (sha_block st (take 64 bs)) (drop 64 bs))"
  by pat_completeness auto
termination
  by (relation "measure (\<lambda>(st, bs). length bs)") auto

declare sha_blocks.simps [simp del]

definition sha256 :: "bytes \<Rightarrow> bytes" where
  "sha256 m =
    (case sha_blocks sha_init (sha_pad m) of (a, b, c, d, e, f, g, h) \<Rightarrow>
       concat (map word_bytes [a, b, c, d, e, f, g, h]))"

text \<open>HMAC with blocks of 64 bytes: a longer key is hashed first, a shorter one filled with zeros.\<close>

definition hmac_key :: "bytes \<Rightarrow> bytes" where
  "hmac_key k =
    (let k' = (if length k > 64 then sha256 k else k) in k' @ replicate (64 - length k') (CHR 0x00))"

definition xor_byte :: "nat \<Rightarrow> char \<Rightarrow> char" where
  "xor_byte n c = char_of ((of_char c :: nat) XOR n)"

definition hmac_sha256 :: "bytes \<Rightarrow> bytes \<Rightarrow> bytes" where
  "hmac_sha256 key msg =
    sha256 (map (xor_byte 0x5c) (hmac_key key)
            @ sha256 (map (xor_byte 0x36) (hmac_key key) @ msg))"

lemma length_word_bytes [simp]: "length (word_bytes w) = 4"
  by (simp add: word_bytes_def)

lemma length_sha256 [simp]: "length (sha256 m) = 32"
  by (simp add: sha256_def split: prod.splits)

lemma pad_to_block: "64 dvd n + 9 + (119 - n mod 64) mod (64 :: nat)"
proof -
  define q r where "q = n div 64" and "r = n mod 64"
  have n: "n = 64 * q + r" and r: "r < 64" by (simp_all add: q_def r_def)
  have "(119 - r) mod 64 = (if r \<le> 55 then 55 - r else 119 - r)"
    using r mod_less [of "119 - r" 64] mod_less [of "55 - r" 64] mod_add_self1 [of 64 "55 - r"]
    by (auto simp del: mod_add_self1)
  then have "n + 9 + (119 - r) mod 64 = 64 * (if r \<le> 55 then q + 1 else q + 2)"
    using n r by auto
  then show ?thesis by (simp add: r_def)
qed

lemma length_sha_pad: "64 dvd length (sha_pad m)"
proof -
  have "length (sha_pad m) = length m + 9 + (119 - length m mod 64) mod 64"
    by (simp add: sha_pad_def Let_def)
  with pad_to_block [of "length m"] show ?thesis by simp
qed

lemma length_hmac [simp]: "length (hmac_sha256 k m) = 32"
  by (simp add: hmac_sha256_def)

lemma length_hmac_key: "length (hmac_key k) = 64"
  by (simp add: hmac_key_def Let_def)

end
