(* ===== verification/Signature.thy ===== *)
theory Signature
  imports Sha256
begin

text \<open>
  \<open>internal/ingestion/signature.go\<close>: the HMAC signature of a webhook. An instant is the number of
  nanoseconds since the Unix epoch; a duration is an \<open>int64\<close> of nanoseconds.
\<close>

datatype sig_error =
  ErrInvalidSecret | ErrMissingHeader | ErrMalformedHeader | ErrStaleTimestamp | ErrSignatureMismatch

definition second :: int where
  "second = 1000000000"

text \<open>
  \<open>time.Unix(sec, 0)\<close>. A \<open>time.Time\<close> counts seconds from year 1 in an \<open>int64\<close>, so the addition
  of the epoch's offset wraps around for the largest arguments.
\<close>

definition unix_time :: "int \<Rightarrow> int" where
  "unix_time sec = (wrap64 (sec + 62135596800) - 62135596800) * second"

text \<open>\<open>t.Sub(u)\<close> saturates at the ends of the range of a duration.\<close>

definition time_sub :: "int \<Rightarrow> int \<Rightarrow> int" where
  "time_sub t u = max min64 (min max64 (t - u))"

text \<open>\<open>abs\<close>: negating the smallest duration overflows to itself.\<close>

definition abs_duration :: "int \<Rightarrow> int" where
  "abs_duration d = (if d < 0 then wrap64 (- d) else d)"

section \<open>The header\<close>

text \<open>One round of the loop of \<open>parseSignatureHeader\<close>.\<close>

definition header_part :: "string \<times> string \<Rightarrow> string \<Rightarrow> string \<times> string" where
  "header_part acc p =
    (let part = trim_space p in
     case index_byte part (CHR ''='') of
       None \<Rightarrow> acc
     | Some eq \<Rightarrow>
         if eq = 0 then acc
         else
           let key = take eq part; value = drop (eq + 1) part in
             if key = ''t'' then (value, snd acc)
             else if key = ''v1'' then (fst acc, value)
             else acc)"

definition parseSignatureHeader :: "string \<Rightarrow> sig_error + string \<times> string" where
  "parseSignatureHeader h =
    (let (ts, sig) = foldl header_part ([], []) (split_byte (CHR '','') h) in
       if ts = [] \<or> sig = [] then Inl ErrMalformedHeader else Inr (ts, sig))"

section \<open>Signing and verifying\<close>

definition computeSignature :: "string \<Rightarrow> string \<Rightarrow> bytes \<Rightarrow> bytes" where
  "computeSignature secret ts body = hmac_sha256 secret (ts @ ''.'' @ body)"

text \<open>\<open>Verify\<close>; \<open>None\<close> is the \<open>nil\<close> error.\<close>

definition Verify :: "string \<Rightarrow> string \<Rightarrow> bytes \<Rightarrow> int \<Rightarrow> int \<Rightarrow> sig_error option" where
  "Verify secret header body now maxAge =
    (if secret = [] then Some ErrInvalidSecret
     else if header = [] then Some ErrMissingHeader
     else case parseSignatureHeader header of
       Inl e \<Rightarrow> Some e
     | Inr (tsStr, sigHex) \<Rightarrow>
         (case parse_int tsStr of
            None \<Rightarrow> Some ErrMalformedHeader
          | Some tsUnix \<Rightarrow>
              let signedAt = unix_time tsUnix in
                if abs_duration (time_sub now signedAt) > maxAge then Some ErrStaleTimestamp
                else
                  let expected = computeSignature secret tsStr body in
                    case hex_decode sigHex of
                      None \<Rightarrow> Some ErrMalformedHeader
                    | Some provided \<Rightarrow>
                        if expected \<noteq> provided then Some ErrSignatureMismatch else None))"

definition SignForTest :: "string \<Rightarrow> bytes \<Rightarrow> int \<Rightarrow> string" where
  "SignForTest secret body ts =
    (let tsStr = format_int (ts div second); mac = computeSignature secret tsStr body in
       ''t='' @ tsStr @ '',v1='' @ hex_encode mac)"

section \<open>Lemmas\<close>

text \<open>A header written as a list of \<open>key=value\<close> pairs separated by commas.\<close>

definition render_pair :: "string \<times> string \<Rightarrow> string" where
  "render_pair kv = fst kv @ ''='' @ snd kv"

fun render_header :: "(string \<times> string) list \<Rightarrow> string" where
  "render_header [] = []"
| "render_header [kv] = render_pair kv"
| "render_header (kv # kvs) = render_pair kv @ '','' @ render_header kvs"

text \<open>
  A pair survives the printing and the parsing when its parts hold no separator and no white
  space at their ends.
\<close>

definition plain_pair :: "string \<times> string \<Rightarrow> bool" where
  "plain_pair kv \<longleftrightarrow>
    fst kv \<noteq> [] \<and> CHR ''='' \<notin> set (fst kv) \<and> CHR '','' \<notin> set (fst kv) \<and> CHR '','' \<notin> set (snd kv)
    \<and> graphic (hd (fst kv)) \<and> (snd kv \<noteq> [] \<longrightarrow> graphic (last (snd kv)))"

lemma trim_render_pair:
  assumes "plain_pair kv"
  shows "trim_space (render_pair kv) = render_pair kv"
proof (rule trim_space_graphic)
  show "render_pair kv \<noteq> []" by (simp add: render_pair_def)
  show "graphic (hd (render_pair kv))"
    using assms by (simp add: plain_pair_def render_pair_def)
  show "graphic (last (render_pair kv))"
    using assms by (cases "snd kv = []") (simp_all add: plain_pair_def render_pair_def graphic_def)
qed

lemma header_part_pair:
  assumes "plain_pair kv"
  shows "header_part acc (render_pair kv) =
    (if fst kv = ''t'' then (snd kv, snd acc)
     else if fst kv = ''v1'' then (fst acc, snd kv) else acc)"
proof -
  have "index_byte (render_pair kv) (CHR ''='') = Some (length (fst kv))"
    using assms index_byte_append [of "CHR ''=''" "fst kv" "snd kv"]
    by (simp add: plain_pair_def render_pair_def)
  moreover have "take (length (fst kv)) (render_pair kv) = fst kv"
    and "drop (length (fst kv) + 1) (render_pair kv) = snd kv"
    by (simp_all add: render_pair_def)
  moreover have "fst kv \<noteq> []" using assms by (simp add: plain_pair_def)
  ultimately show ?thesis
    by (simp add: header_part_def trim_render_pair [OF assms])
qed

lemma split_render_header:
  assumes "kvs \<noteq> []" and "\<forall>kv \<in> set kvs. plain_pair kv"
  shows "split_byte (CHR '','') (render_header kvs) = map render_pair kvs"
  using assms
proof (induction kvs rule: render_header.induct)
  case (2 kv)
  then show ?case
    by (auto intro!: split_byte_no_sep simp: plain_pair_def render_pair_def)
next
  case (3 kv kv' kvs)
  then have "CHR '','' \<notin> set (render_pair kv)"
    by (auto simp: plain_pair_def render_pair_def)
  with 3 show ?case by (simp add: split_byte_append)
qed simp

definition last_value :: "string \<Rightarrow> (string \<times> string) list \<Rightarrow> string \<Rightarrow> string" where
  "last_value k kvs d = (case map_of (rev kvs) k of None \<Rightarrow> d | Some v \<Rightarrow> v)"

lemma foldl_header_part:
  assumes "\<forall>kv \<in> set kvs. plain_pair kv"
  shows "foldl header_part acc (map render_pair kvs)
    = (last_value ''t'' kvs (fst acc), last_value ''v1'' kvs (snd acc))"
  using assms
proof (induction kvs rule: rev_induct)
  case Nil
  then show ?case by (simp add: last_value_def)
next
  case (snoc kv kvs)
  then show ?case by (cases kv) (auto simp: header_part_pair last_value_def)
qed

lemma parse_render:
  assumes "kvs \<noteq> []" and "\<forall>kv \<in> set kvs. plain_pair kv"
  shows "parseSignatureHeader (render_header kvs) =
    (let ts = last_value ''t'' kvs []; sig = last_value ''v1'' kvs [] in
       if ts = [] \<or> sig = [] then Inl ErrMalformedHeader else Inr (ts, sig))"
  using assms by (simp add: parseSignatureHeader_def split_render_header foldl_header_part)

text \<open>What the age check lets through.\<close>

lemma age_check:
  assumes "0 \<le> maxAge" "maxAge < max64"
  shows "abs_duration (time_sub now signedAt) \<le> maxAge
    \<longleftrightarrow> \<bar>now - signedAt\<bar> \<le> maxAge \<or> signedAt - now \<ge> 2 ^ 63"
proof (cases "signedAt - now \<ge> 2 ^ 63")
  case True
  then have "time_sub now signedAt = min64"
    by (simp add: time_sub_def min64_def max64_def)
  then have "abs_duration (time_sub now signedAt) = min64"
    using wrap64_neg_min by (simp add: abs_duration_def min64_def)
  with True assms show ?thesis by (simp add: min64_def)
next
  case low: False
  show ?thesis
  proof (cases "now - signedAt > max64")
    case True
    then have "time_sub now signedAt = max64"
      by (simp add: time_sub_def min64_def max64_def)
    with True assms show ?thesis by (auto simp: abs_duration_def max64_def)
  next
    case False
    with low have "time_sub now signedAt = now - signedAt"
      by (simp add: time_sub_def min64_def max64_def)
    with False low assms show ?thesis
      by (auto simp: abs_duration_def wrap64_id min64_def max64_def)
  qed
qed

lemma unix_time_id:
  "min64 + 62135596800 \<le> sec + 62135596800 \<Longrightarrow> sec + 62135596800 \<le> max64 \<Longrightarrow> unix_time sec = sec * second"
  unfolding unix_time_def by (subst wrap64_id) (auto simp: min64_def)

lemma plain_digits: "plain_pair (''t'', format_int n)"
proof -
  have "is_digit c \<or> c = CHR ''-'' \<Longrightarrow> c \<noteq> CHR '','' \<and> graphic c" for c
    by (auto simp: is_digit_def digit_val_def graphic_def Let_def split: if_splits)
  then show ?thesis
    using format_int_chars [of _ n] last_in_set [OF format_int_not_Nil, of n]
    by (auto simp: plain_pair_def graphic_def)
qed

lemma plain_hex: "plain_pair (''v1'', hex_encode bs)"
proof -
  have *: "hex_val c \<noteq> None \<Longrightarrow> c \<noteq> CHR '','' \<and> graphic c" for c
    by (auto simp: hex_val_def graphic_def Let_def split: if_splits)
  have c: "c \<noteq> CHR '','' \<and> graphic c" if "c \<in> set (hex_encode bs)" for c
    by (rule * [OF hex_encode_chars [OF that]])
  show ?thesis
    using c last_in_set [of "hex_encode bs"] by (auto simp: plain_pair_def graphic_def)
qed

lemma computeSignature_not_Nil [simp]: "computeSignature secret ts body \<noteq> []"
proof -
  have "length (computeSignature secret ts body) = 32" by (simp add: computeSignature_def)
  then show ?thesis by (metis list.size(3) zero_neq_numeral)
qed

lemma parse_SignForTest:
  "parseSignatureHeader (SignForTest secret body ts)
   = Inr (format_int (ts div second), hex_encode (computeSignature secret (format_int (ts div second)) body))"
proof -
  let ?t = "format_int (ts div second)"
  let ?h = "hex_encode (computeSignature secret ?t body)"
  have "SignForTest secret body ts = render_header [(''t'', ?t), (''v1'', ?h)]"
    by (simp add: SignForTest_def render_pair_def Let_def)
  then show ?thesis
    using parse_render [of "[(''t'', ?t), (''v1'', ?h)]"]
    by (simp add: plain_digits plain_hex last_value_def Let_def)
qed

lemma Verify_SignForTest:
  assumes "secret \<noteq> []" and "min64 \<le> ts div second" "ts div second \<le> max64"
  shows "Verify secret (SignForTest secret body ts) body now maxAge =
    (if abs_duration (time_sub now (unix_time (ts div second))) > maxAge
     then Some ErrStaleTimestamp else None)"
proof -
  have "SignForTest secret body ts \<noteq> []" by (simp add: SignForTest_def Let_def)
  with assms show ?thesis
    by (simp add: Verify_def parse_SignForTest parse_format_int)
qed

section \<open>Properties\<close>

lemma Verify_None_iff:
  "Verify secret header body now maxAge = None \<longleftrightarrow>
    secret \<noteq> [] \<and> header \<noteq> [] \<and>
    (\<exists>ts sig n. parseSignatureHeader header = Inr (ts, sig) \<and> parse_int ts = Some n
      \<and> abs_duration (time_sub now (unix_time n)) \<le> maxAge
      \<and> hex_decode sig = Some (hmac_sha256 secret (ts @ ''.'' @ body)))"
  by (auto simp: Verify_def computeSignature_def not_less split: sum.splits option.splits if_splits)

subsection \<open>What a header says\<close>

text \<open>Pieces with commas between them; the value of a key is that of the last piece \<open>key=value\<close>.\<close>

fun comma_list :: "string list \<Rightarrow> string" where
  "comma_list [] = []"
| "comma_list [p] = p"
| "comma_list (p # ps) = p @ CHR '','' # comma_list ps"

definition header_value :: "string \<Rightarrow> string \<Rightarrow> string \<Rightarrow> bool" where
  "header_value k header v \<longleftrightarrow>
    (\<exists>before p after. header = comma_list (before @ p # after) \<and> CHR '','' \<notin> \<Union> (set ` set (before @ p # after))
      \<and> trim_space p = k @ ''='' @ v \<and> (\<forall>q \<in> set after. \<forall>w. trim_space q \<noteq> k @ ''='' @ w))"

lemma split_comma_list:
  "ps \<noteq> [] \<Longrightarrow> CHR '','' \<notin> \<Union> (set ` set ps) \<Longrightarrow> split_byte (CHR '','') (comma_list ps) = ps"
  by (induction ps rule: comma_list.induct) (simp_all add: split_byte_no_sep split_byte_append)

lemma comma_list_Cons: "ps \<noteq> [] \<Longrightarrow> comma_list ((x # w) # ps) = x # comma_list (w # ps)"
  by (cases ps) simp_all

lemma comma_list_split: "comma_list (split_byte (CHR '','') h) = h"
proof (induction h)
  case (Cons x h)
  obtain w ws where s: "split_byte (CHR '','') h = w # ws" by (meson neq_Nil_conv split_byte_not_Nil)
  with Cons show ?case by (cases ws) auto
qed simp

lemma header_value_split:
  "header_value k h v \<longleftrightarrow> (\<exists>before p after. split_byte (CHR '','') h = before @ p # after
    \<and> trim_space p = k @ ''='' @ v \<and> (\<forall>q \<in> set after. \<forall>w. trim_space q \<noteq> k @ ''='' @ w))"
proof -
  have "h = comma_list ps \<and> CHR '','' \<notin> \<Union> (set ` set ps) \<longleftrightarrow> split_byte (CHR '','') h = ps" if "ps \<noteq> []" for ps
    using split_comma_list [OF that] comma_list_split [of h] split_byte_pieces [of _ "CHR '',''" h] by auto
  then have "h = comma_list (u @ q # w) \<and> CHR '','' \<notin> \<Union> (set ` set (u @ q # w)) \<longleftrightarrow> split_byte (CHR '','') h = u @ q # w" for u q w
    by blast
  then show ?thesis unfolding header_value_def by (simp only: conj_assoc [symmetric])
qed

text \<open>A piece sets the value of its key and no other.\<close>

lemma keyed_piece:
  assumes "index_byte q (CHR ''='') = Some i" "CHR ''='' \<notin> set k"
  shows "(\<exists>w. q = k @ CHR ''='' # w) \<longleftrightarrow> take i q = k" "take i q = k \<Longrightarrow> i = length k"
proof -
  have i: "i < length q" "q ! i = CHR ''=''" using assms(1) by (auto simp: index_byte_Some)
  then show "take i q = k \<Longrightarrow> i = length k" by auto
  have "q = take i q @ CHR ''='' # drop (Suc i) q" using id_take_nth_drop [OF i(1)] i(2) by simp
  moreover have "i = length k" if "q = k @ CHR ''='' # w" for w
    using assms(1) index_byte_append [OF assms(2), of w] that by simp
  ultimately show "(\<exists>w. q = k @ CHR ''='' # w) \<longleftrightarrow> take i q = k" by (metis append_eq_conv_conj)
qed

lemma header_part_values:
  "fst (header_part acc p) = (if \<exists>w. trim_space p = ''t'' @ CHR ''='' # w then drop 2 (trim_space p) else fst acc)"
  "snd (header_part acc p) = (if \<exists>w. trim_space p = ''v1'' @ CHR ''='' # w then drop 3 (trim_space p) else snd acc)"
proof -
  let ?q = "trim_space p"
  have "fst (header_part acc p) = (if \<exists>w. ?q = ''t'' @ CHR ''='' # w then drop 2 ?q else fst acc)
    \<and> snd (header_part acc p) = (if \<exists>w. ?q = ''v1'' @ CHR ''='' # w then drop 3 ?q else snd acc)"
  proof (cases "index_byte ?q (CHR ''='')")
    case None
    then have no: "\<not> (\<exists>w. ?q = k @ CHR ''='' # w)" for k by (auto simp: index_byte_None)
    from None show ?thesis unfolding if_not_P [OF no] by (simp add: header_part_def Let_def)
  next
    case (Some i)
    have noeq: "CHR ''='' \<notin> set ''t''" "CHR ''='' \<notin> set ''v1''" by simp_all
    have "i \<noteq> 0" "drop (i + 1) ?q = drop 2 ?q" if "take i ?q = ''t''"
      using keyed_piece(2) [OF Some noeq(1) that] by (simp_all add: numeral_2_eq_2)
    moreover have "i \<noteq> 0" "drop (i + 1) ?q = drop 3 ?q" if "take i ?q = ''v1''"
      using keyed_piece(2) [OF Some noeq(2) that] by (simp_all add: numeral_3_eq_3)
    moreover have "take i ?q = [] \<longleftrightarrow> i = 0" using Some by (auto simp: index_byte_Some)
    ultimately show ?thesis
      unfolding keyed_piece(1) [OF Some noeq(1)] keyed_piece(1) [OF Some noeq(2)]
      using Some by (cases "take i ?q = ''t''"; cases "take i ?q = ''v1''") (simp_all add: header_part_def Let_def)
  qed
  then show "fst (header_part acc p) = (if \<exists>w. ?q = ''t'' @ CHR ''='' # w then drop 2 ?q else fst acc)"
    "snd (header_part acc p) = (if \<exists>w. ?q = ''v1'' @ CHR ''='' # w then drop 3 ?q else snd acc)" by blast+
qed

lemma last_piece:
  assumes step: "\<And>acc p. get (step acc p) = (if \<exists>w. trim_space p = k @ w then drop (length k) (trim_space p) else get acc)"
    and init: "get acc = []" and v: "v \<noteq> []"
  shows "get (foldl step acc ps) = v \<longleftrightarrow> (\<exists>before p after. ps = before @ p # after
    \<and> trim_space p = k @ v \<and> (\<forall>q \<in> set after. \<forall>w. trim_space q \<noteq> k @ w))"
proof (induction ps rule: rev_induct)
  case Nil
  with init v show ?case by auto
next
  case (snoc q ps)
  show ?case
  proof (cases "\<exists>w. trim_space q = k @ w")
    case True
    then obtain w where w: "trim_space q = k @ w" ..
    then have "get (foldl step acc (ps @ [q])) = w" by (simp add: step)
    moreover have "(\<exists>before p after. ps @ [q] = before @ p # after \<and> trim_space p = k @ v
        \<and> (\<forall>q \<in> set after. \<forall>w. trim_space q \<noteq> k @ w)) \<longleftrightarrow> trim_space q = k @ v"
    proof
      assume "\<exists>before p after. ps @ [q] = before @ p # after \<and> trim_space p = k @ v
        \<and> (\<forall>q \<in> set after. \<forall>w. trim_space q \<noteq> k @ w)"
      then obtain before p after where e: "ps @ [q] = before @ p # after" "trim_space p = k @ v"
        "\<forall>q \<in> set after. \<forall>w. trim_space q \<noteq> k @ w" by blast
      with w show "trim_space q = k @ v" by (cases after rule: rev_cases) auto
    qed fastforce
    ultimately show ?thesis using w by auto
  next
    case False
    then have "get (foldl step acc (ps @ [q])) = get (foldl step acc ps)" by (simp add: step)
    moreover have "(\<exists>before p after. ps @ [q] = before @ p # after \<and> trim_space p = k @ v
        \<and> (\<forall>q \<in> set after. \<forall>w. trim_space q \<noteq> k @ w))
      \<longleftrightarrow> (\<exists>before p after. ps = before @ p # after \<and> trim_space p = k @ v
        \<and> (\<forall>q \<in> set after. \<forall>w. trim_space q \<noteq> k @ w))" (is "?l \<longleftrightarrow> ?r")
    proof
      assume ?l
      then obtain before p after where e: "ps @ [q] = before @ p # after" "trim_space p = k @ v"
        "\<forall>q \<in> set after. \<forall>w. trim_space q \<noteq> k @ w" by blast
      with False show ?r by (cases after rule: rev_cases) auto
    next
      assume ?r
      then obtain before p after where e: "ps = before @ p # after" "trim_space p = k @ v"
        "\<forall>q \<in> set after. \<forall>w. trim_space q \<noteq> k @ w" by blast
      with False show ?l by (intro exI [of _ before] exI [of _ p] exI [of _ "after @ [q]"]) auto
    qed
    ultimately show ?thesis using snoc.IH by simp
  qed
qed

lemma parse_header_values:
  "parseSignatureHeader h = Inr (ts, sig) \<longleftrightarrow>
    ts \<noteq> [] \<and> sig \<noteq> [] \<and> header_value ''t'' h ts \<and> header_value ''v1'' h sig"
proof -
  let ?ps = "split_byte (CHR '','') h" and ?acc = "([], []) :: string \<times> string"
  have "ts \<noteq> [] \<Longrightarrow> fst (foldl header_part ?acc ?ps) = ts \<longleftrightarrow> header_value ''t'' h ts"
    unfolding header_value_split
    using last_piece [of fst header_part "''t=''" ?acc ts ?ps] header_part_values(1) by (simp add: numeral_2_eq_2)
  moreover have "sig \<noteq> [] \<Longrightarrow> snd (foldl header_part ?acc ?ps) = sig \<longleftrightarrow> header_value ''v1'' h sig"
    unfolding header_value_split
    using last_piece [of snd header_part "''v1=''" ?acc sig ?ps] header_part_values(2) by (simp add: numeral_3_eq_3)
  ultimately show ?thesis
    by (auto simp: parseSignatureHeader_def Let_def split: prod.splits)
qed

text \<open>Hexadecimal in either case.\<close>

lemma hex_val_lower: "h < 16 \<Longrightarrow> hex_val c = Some h \<longleftrightarrow> lower_char c = hex_digit h"
proof -
  assume h: "h < 16"
  have code: "lower_char c = hex_digit h \<longleftrightarrow> (of_char (lower_char c) :: nat) = of_char (hex_digit h)" by simp
  have "(of_char (lower_char c) :: nat) = (let n = of_char c in if 65 \<le> n \<and> n \<le> 90 then n + 32 else n)"
    by (simp add: lower_char_def Let_def take_bit_eq_mod)
  moreover have "(of_char (hex_digit h) :: nat) = (if h < 10 then 48 + h else 87 + h)"
    using h by (simp add: hex_digit_def take_bit_eq_mod)
  ultimately show ?thesis unfolding code using h by (auto simp: hex_val_def Let_def)
qed

lemma hex_val_range: "hex_val c = Some h \<Longrightarrow> h < 16"
  by (auto simp: hex_val_def Let_def split: if_splits)

lemma hex_decode_lower: "hex_decode s = Some b \<longleftrightarrow> to_lower s = hex_encode b"
proof (induction s arbitrary: b rule: hex_decode.induct)
  case 1
  have "hex_encode b = [] \<longleftrightarrow> b = []" by simp
  then show ?case by (auto simp: to_lower_def eq_commute [of "[]"])
next
  case (2 c)
  then show ?case by (cases b) (auto simp: to_lower_def)
next
  case (3 c d s)
  show ?case
  proof (cases b)
    case Nil
    then show ?thesis by (simp add: to_lower_def split: option.splits)
  next
    case (Cons x b')
    let ?h = "(of_char x :: nat) div 16" and ?l = "(of_char x :: nat) mod 16"
    have r: "?h < 16" "?l < 16" using of_char_lt [of x] by linarith+
    have "char_of (16 * i + j) = x \<longleftrightarrow> i = ?h \<and> j = ?l" if "i < 16" "j < 16" for i j :: nat
    proof -
      have "char_of (16 * i + j) = x \<longleftrightarrow> 16 * i + j = of_char x"
        using that by (auto simp: char_of_eq_iff take_bit_eq_mod)
      also have "\<dots> \<longleftrightarrow> i = ?h \<and> j = ?l" using that by (auto dest!: sym [of _ "of_char x"])
      finally show ?thesis .
    qed
    then have "hex_decode (c # d # s) = Some b \<longleftrightarrow> hex_val c = Some ?h \<and> hex_val d = Some ?l \<and> hex_decode s = Some b'"
      using hex_val_range by (fastforce simp: Cons split: option.splits)
    with 3 r show ?thesis by (simp add: Cons to_lower_def hex_val_lower)
  qed
qed

text \<open>The seconds of a timestamp: the largest ones wrap around to a time far in the past.\<close>

lemma accepted_age:
  assumes "0 \<le> maxAge" "maxAge < max64" "min64 \<le> now" "now \<le> max64" "min64 \<le> n" "n \<le> max64"
  shows "abs_duration (time_sub now (unix_time n)) \<le> maxAge \<longleftrightarrow>
    \<bar>now - n * second\<bar> \<le> maxAge \<or> 2 ^ 63 \<le> n * second - now \<and> n + 62135596800 \<le> max64"
proof (cases "n + 62135596800 \<le> max64")
  case True
  with assms have "unix_time n = n * second" by (intro unix_time_id) auto
  with True age_check [OF assms(1,2)] show ?thesis by simp
next
  case False
  have "wrap64 (n + 62135596800) = n + 62135596800 - 2 ^ 64"
  proof -
    let ?y = "n + 62135596800 + 2 ^ 63"
    have "?y mod 2 ^ 64 = (?y - 2 ^ 64) mod 2 ^ 64" by (rule minus_mod_self2 [symmetric])
    also have "\<dots> = ?y - 2 ^ 64"
      using False assms(6) unfolding max64_def by (intro mod_pos_pos_trivial) simp_all
    finally show ?thesis by (simp add: wrap64_def)
  qed
  then have u: "unix_time n = (n - 2 ^ 64) * second" by (simp add: unix_time_def)
  have past: "now - unix_time n > maxAge"
    using assms unfolding u second_def min64_def max64_def by (simp add: algebra_simps)
  moreover have "\<not> \<bar>now - n * second\<bar> \<le> maxAge"
    using False assms unfolding second_def min64_def max64_def by (simp add: abs_le_iff)
  ultimately show ?thesis using age_check [OF assms(1,2), of now "unix_time n"] False assms(1) by auto
qed

lemma parse_int_range: "parse_int s = Some n \<Longrightarrow> s \<noteq> [] \<and> min64 \<le> n \<and> n \<le> max64"
  by (auto simp: parse_int_def Let_def split: if_splits option.splits list.splits)

text \<open>
  C3: what \<open>Verify\<close> accepts. With a secret, exactly the headers in which the last piece t=... holds a decimal
  integer of 64 bits and the last piece v1=... (pieces are separated by commas, white space around
  them does not count) is, in either case, the hexadecimal form of the HMAC-SHA256 of the text of the
  timestamp, a dot and the body, and whose timestamp, taken as seconds, is not further than the allowed age
  from the time of the check on either side, or 2^63 nanoseconds (292 years) or more after it: there the
  difference saturates and its absolute value overflows. Without a secret nothing is accepted.
\<close>

theorem Verify_accepts_iff:
  assumes "0 \<le> maxAge" "maxAge < max64" "min64 \<le> now" "now \<le> max64"
  shows "Verify secret header body now maxAge = None \<longleftrightarrow>
    secret \<noteq> [] \<and> (\<exists>ts sig n. header_value ''t'' header ts \<and> header_value ''v1'' header sig \<and> parse_int ts = Some n
      \<and> (\<bar>now - n * second\<bar> \<le> maxAge \<or> 2 ^ 63 \<le> n * second - now \<and> n + 62135596800 \<le> max64)
      \<and> to_lower sig = hex_encode (hmac_sha256 secret (ts @ ''.'' @ body)))"
proof -
  have age: "parse_int ts = Some n \<and> abs_duration (time_sub now (unix_time n)) \<le> maxAge
      \<longleftrightarrow> parse_int ts = Some n \<and> (\<bar>now - n * second\<bar> \<le> maxAge \<or> 2 ^ 63 \<le> n * second - now \<and> n + 62135596800 \<le> max64)" for ts n
    using accepted_age [OF assms] parse_int_range by blast
  have mac: "hmac_sha256 secret (ts @ ''.'' @ body) \<noteq> []" for ts
    using computeSignature_not_Nil [of secret ts body] by (simp add: computeSignature_def)
  have sig: "to_lower sig = hex_encode (hmac_sha256 secret (ts @ ''.'' @ body)) \<Longrightarrow> sig \<noteq> []" for sig ts
    using mac [of ts] hex_encode_Nil_iff by (metis list.simps(8) to_lower_def)
  have "header_value ''t'' [] ts \<Longrightarrow> False" for ts
    unfolding header_value_split by (auto simp: Cons_eq_append_conv trim_space_def trim_left_space_def trim_right_space_def)
  then have header: "header_value ''t'' header ts \<Longrightarrow> header \<noteq> []" for ts by auto
  have one: "(ts \<noteq> [] \<and> sig \<noteq> [] \<and> header_value ''t'' header ts \<and> header_value ''v1'' header sig)
      \<and> parse_int ts = Some n \<and> abs_duration (time_sub now (unix_time n)) \<le> maxAge
      \<and> to_lower sig = hex_encode (hmac_sha256 secret (ts @ ''.'' @ body))
    \<longleftrightarrow> header_value ''t'' header ts \<and> header_value ''v1'' header sig \<and> parse_int ts = Some n
      \<and> (\<bar>now - n * second\<bar> \<le> maxAge \<or> 2 ^ 63 \<le> n * second - now \<and> n + 62135596800 \<le> max64)
      \<and> to_lower sig = hex_encode (hmac_sha256 secret (ts @ ''.'' @ body))" for ts sig n
    using age [of ts n] sig [of sig ts] parse_int_range [of ts n] by blast
  show ?thesis
    unfolding Verify_None_iff parse_header_values hex_decode_lower one using header by blast
qed

text \<open>A header in another order and with an unknown piece.\<close>

theorem Verify_accepts_iff_witness:
  "Verify ''whsec'' (''v1='' @ hex_encode (hmac_sha256 ''whsec'' ''1700000000.{}'') @ '',v0=zz,t=1700000000'') ''{}''
     1700000200000000000 300000000000 = None"
proof -
  define body :: bytes where "body = ''{}''"
  define ts :: string where "ts = ''1700000000''"
  define mac where "mac = hex_encode (hmac_sha256 ''whsec'' (ts @ ''.'' @ body))"
  define h where "h = ''v1='' @ mac @ '',v0=zz,t='' @ ts"
  have pair: "plain_pair (''v1'', mac)" unfolding mac_def by (rule plain_hex)
  have t: "trim_space (''v1='' @ mac) = ''v1='' @ mac" "trim_space ''v0=zz'' = ''v0=zz''"
    "trim_space (''t='' @ ts) = ''t='' @ ts"
    using trim_render_pair [OF pair] trim_space_graphic [of "''v0=zz''"] trim_space_graphic [of "''t='' @ ts"]
    by (simp_all add: render_pair_def graphic_def ts_def)
  have h: "h = comma_list [''v1='' @ mac, ''v0=zz'', ''t='' @ ts]"
    "CHR '','' \<notin> \<Union> (set ` set [''v1='' @ mac, ''v0=zz'', ''t='' @ ts])"
    using pair by (auto simp: plain_pair_def h_def ts_def)
  have ht: "header_value ''t'' h ts"
    unfolding header_value_def using h t
    by (intro exI [of _ "[''v1='' @ mac, ''v0=zz'']"] exI [of _ "''t='' @ ts"] exI [of _ "[]"]) simp
  have hv: "header_value ''v1'' h mac"
    unfolding header_value_def using h t
    by (intro exI [of _ "[]"] exI [of _ "''v1='' @ mac"] exI [of _ "[''v0=zz'', ''t='' @ ts]"]) simp
  have n: "parse_int ts = Some 1700000000"
    by (simp add: ts_def parse_int_def digit_val_def min64_def max64_def)
  have age: "\<bar>1700000200000000000 - 1700000000 * second\<bar> \<le> 300000000000" by (simp add: second_def)
  have hex: "to_lower mac = hex_encode (hmac_sha256 ''whsec'' (ts @ ''.'' @ body))"
    unfolding mac_def using hex_decode_lower hex_decode_encode by blast
  have "Verify ''whsec'' h body 1700000200000000000 300000000000 = None"
  proof (rule Verify_accepts_iff [THEN iffD2])
    show "''whsec'' \<noteq> [] \<and> (\<exists>ts sig n. header_value ''t'' h ts \<and> header_value ''v1'' h sig \<and> parse_int ts = Some n
      \<and> (\<bar>1700000200000000000 - n * second\<bar> \<le> 300000000000
          \<or> 2 ^ 63 \<le> n * second - 1700000200000000000 \<and> n + 62135596800 \<le> max64)
      \<and> to_lower sig = hex_encode (hmac_sha256 ''whsec'' (ts @ ''.'' @ body)))"
      using ht hv n age hex by blast
  qed (simp_all add: min64_def max64_def)
  then show ?thesis by (simp add: h_def mac_def ts_def body_def)
qed

text \<open>A header made by \<open>SignForTest\<close> with the same secret and body is accepted as long as the
  whole second it was signed at lies within the allowed age of the time of the check.\<close>

theorem Verify_sign_roundtrip:
  assumes "secret \<noteq> []" and "0 \<le> ts" "ts div second + 62135596800 \<le> max64"
    and "\<bar>now - (ts div second) * second\<bar> \<le> maxAge" "maxAge < max64"
  shows "Verify secret (SignForTest secret body ts) body now maxAge = None"
proof -
  have "0 \<le> ts div second" using assms(2) by (simp add: second_def)
  then have "min64 \<le> ts div second" "ts div second \<le> max64"
    and u: "unix_time (ts div second) = (ts div second) * second"
    using assms(3) by (auto intro!: unix_time_id simp: min64_def)
  with assms show ?thesis
    using age_check [of maxAge now "unix_time (ts div second)"]
    by (simp add: Verify_SignForTest not_less)
qed

theorem Verify_sign_roundtrip_witness:
  "Verify ''whsec'' (SignForTest ''whsec'' ''{}'' 1700000000500000000) ''{}'' 1700000200000000000 300000000000
   = None"
  by (rule Verify_sign_roundtrip) (simp_all add: second_def max64_def)

text \<open>An accepted request was signed at most \<open>maxAge\<close> away from the time of the check, or at
  least \<open>2 ^ 63\<close> nanoseconds (292 years) after it: the subtraction saturates at the smallest
  duration, whose negation overflows, so the age check does not reject such timestamps.\<close>

theorem Verify_window:
  assumes "Verify secret header body now maxAge = None" "0 \<le> maxAge" "maxAge < max64"
  shows "\<exists>ts sig n. parseSignatureHeader header = Inr (ts, sig) \<and> parse_int ts = Some n
    \<and> (\<bar>now - unix_time n\<bar> \<le> maxAge \<or> unix_time n - now \<ge> 2 ^ 63)"
  using assms age_check [OF assms(2,3)] by (auto simp: Verify_None_iff)

text \<open>A signature made for an instant 292 years or more after the time of the check is accepted,
  whatever the allowed age: the age check is bypassed by a timestamp far in the future.\<close>

theorem Verify_far_future_accepted:
  assumes "secret \<noteq> []" and "0 \<le> ts" "ts div second + 62135596800 \<le> max64"
    and "(ts div second) * second - now \<ge> 2 ^ 63" "0 \<le> maxAge" "maxAge < max64"
  shows "Verify secret (SignForTest secret body ts) body now maxAge = None"
proof -
  have "0 \<le> ts div second" using assms(2) by (simp add: second_def)
  then have "min64 \<le> ts div second" "ts div second \<le> max64"
    and u: "unix_time (ts div second) = (ts div second) * second"
    using assms(3) by (auto intro!: unix_time_id simp: min64_def)
  with assms show ?thesis
    using age_check [of maxAge now "unix_time (ts div second)"]
    by (simp add: Verify_SignForTest not_less)
qed

theorem Verify_far_future_accepted_witness:
  "Verify ''whsec'' (SignForTest ''whsec'' ''{}'' 99999999999000000000) ''{}'' 1700000000000000000 300000000000
   = None"
  by (rule Verify_far_future_accepted) (simp_all add: second_def max64_def)

text \<open>The pairs of the header may come in any order and unknown keys are ignored: parsing a header
  printed from \<open>key=value\<close> pairs finds the last \<open>t\<close> and the last \<open>v1\<close> among them, and reports a
  malformed header exactly when one of the two is absent or empty.\<close>

theorem parse_header_pairs:
  assumes "kvs \<noteq> []" and "\<forall>kv \<in> set kvs. plain_pair kv"
  shows "parseSignatureHeader (render_header kvs) =
    (case (map_of (rev kvs) ''t'', map_of (rev kvs) ''v1'') of
       (Some ts, Some sig) \<Rightarrow> if ts = [] \<or> sig = [] then Inl ErrMalformedHeader else Inr (ts, sig)
     | _ \<Rightarrow> Inl ErrMalformedHeader)"
  by (auto simp: parse_render [OF assms] last_value_def Let_def split: option.splits)

theorem parse_header_pairs_witness:
  "parseSignatureHeader ''v1=ab,v0=zz,t=12'' = Inr (''12'', ''ab'')"
  using parse_header_pairs [of "[(''v1'', ''ab''), (''v0'', ''zz''), (''t'', ''12'')]"]
  by (simp add: plain_pair_def graphic_def render_pair_def)

text \<open>The witness of the window: an accepted request, signed by the scheme.\<close>

theorem Verify_window_witness:
  "\<exists>ts sig n. parseSignatureHeader (SignForTest ''whsec'' ''{}'' 1700000000000000000) = Inr (ts, sig)
    \<and> parse_int ts = Some n
    \<and> (\<bar>1700000100000000000 - unix_time n\<bar> \<le> 300000000000 \<or> unix_time n - 1700000100000000000 \<ge> 2 ^ 63)"
proof -
  have "Verify ''whsec'' (SignForTest ''whsec'' ''{}'' 1700000000000000000) ''{}'' 1700000100000000000 300000000000
     = None"
    by (subst Verify_SignForTest)
       (simp_all add: second_def min64_def max64_def unix_time_def wrap64_def time_sub_def abs_duration_def)
  then show ?thesis by (rule Verify_window) (simp_all add: max64_def)
qed

end
