(* ===== verification/Json.thy ===== *)
theory Json
  imports GoStrings "HOL-Library.Char_ord" "HOL-Library.List_Lexorder"
begin

text \<open>
  Decoded JSON: the values that \<open>encoding/json\<close> leaves in a variable of type \<open>any\<close>. The text syntax
  of JSON is a parameter of the components that use it: \<open>parse\<close> stands for \<open>json.Unmarshal\<close> into
  \<open>any\<close> (\<open>None\<close> is a syntax error) and \<open>print\<close> for \<open>json.Marshal\<close>. The decimal form of a number
  is a parameter too: \<open>fmt_float\<close> is the verb \<open>%v\<close> on a \<open>float64\<close> and \<open>parse_float\<close> is
  \<open>strconv.ParseFloat\<close>.
\<close>

section \<open>Values\<close>

text \<open>A \<open>float64\<close> is its IEEE 754 bit pattern.\<close>

type_synonym float64 = "64 word"

datatype json =
    JNull
  | JBool bool
  | JNum float64
  | JStr string
  | JArr "json list"
  | JObj "(string \<times> json) list"

text \<open>The maps inside a decoded value have distinct keys.\<close>

fun wf_json :: "json \<Rightarrow> bool" where
  "wf_json (JArr xs) = list_all wf_json xs"
| "wf_json (JObj m) = (distinct (map fst m) \<and> list_all (\<lambda>p. wf_json (snd p)) m)"
| "wf_json _ = True"

text \<open>
  \<open>json.Unmarshal\<close> into a \<open>map[string]any\<close>: \<open>None\<close> is an error (bad syntax, or a value that is no
  object), \<open>Some None\<close> is the \<open>nil\<close> map that the literal \<open>null\<close> leaves.
\<close>

definition unmarshal_map :: "(bytes \<Rightarrow> json option) \<Rightarrow> bytes \<Rightarrow> json gomap option option" where
  "unmarshal_map parse body =
    (case parse body of
       Some (JObj m) \<Rightarrow> Some (Some m)
     | Some JNull \<Rightarrow> Some None
     | _ \<Rightarrow> None)"

text \<open>Reading a \<open>nil\<close> map finds no key.\<close>

definition map_entries :: "json gomap option \<Rightarrow> json gomap" where
  "map_entries m = (case m of None \<Rightarrow> [] | Some m' \<Rightarrow> m')"

section \<open>Floating-point comparison\<close>

definition f_nan :: "float64 \<Rightarrow> bool" where
  "f_nan x \<longleftrightarrow> unat x mod 2 ^ 63 > 0x7FF0000000000000"

text \<open>The position of a number in the order; both zeros are at 0.\<close>

definition f_key :: "float64 \<Rightarrow> int" where
  "f_key x = (let m = int (unat x mod 2 ^ 63) in if unat x \<ge> 2 ^ 63 then - m else m)"

definition f_lt :: "float64 \<Rightarrow> float64 \<Rightarrow> bool" where
  "f_lt x y \<longleftrightarrow> \<not> f_nan x \<and> \<not> f_nan y \<and> f_key x < f_key y"

definition f_le :: "float64 \<Rightarrow> float64 \<Rightarrow> bool" where
  "f_le x y \<longleftrightarrow> \<not> f_nan x \<and> \<not> f_nan y \<and> f_key x \<le> f_key y"

section \<open>Formatting\<close>

fun join_with :: "string \<Rightarrow> string list \<Rightarrow> string" where
  "join_with sep [] = []"
| "join_with sep [s] = s"
| "join_with sep (s # ss) = s @ sep @ join_with sep ss"

text \<open>\<open>fmt.Sprintf("%v", v)\<close>: maps are printed in the order of their keys.\<close>

fun fmt_v :: "(float64 \<Rightarrow> string) \<Rightarrow> json \<Rightarrow> string" where
  "fmt_v ff JNull = ''<nil>''"
| "fmt_v ff (JBool b) = (if b then ''true'' else ''false'')"
| "fmt_v ff (JNum x) = ff x"
| "fmt_v ff (JStr s) = s"
| "fmt_v ff (JArr xs) = ''['' @ join_with '' '' (map (fmt_v ff) xs) @ '']''"
| "fmt_v ff (JObj m) =
     ''map['' @ join_with '' ''
       (map snd (sort_key fst (map (\<lambda>p. (fst p, fst p @ '':'' @ fmt_v ff (snd p))) m))) @ '']''"

lemma f_lt_imp_le: "f_lt x y \<Longrightarrow> f_le x y"
  by (simp add: f_lt_def f_le_def)

lemma f_le_lt_asym: "f_le x y \<Longrightarrow> \<not> f_lt y x"
  by (simp add: f_lt_def f_le_def)

lemma f_total: "\<not> f_nan x \<Longrightarrow> \<not> f_nan y \<Longrightarrow> f_lt x y \<or> f_le y x"
  by (auto simp: f_lt_def f_le_def)

lemma unmarshal_map_Some:
  "unmarshal_map parse body = Some m \<longleftrightarrow>
    (\<exists>l. parse body = Some (JObj l) \<and> m = Some l) \<or> (parse body = Some JNull \<and> m = None)"
  by (auto simp: unmarshal_map_def split: option.splits json.splits)

end
