(* ===== verification/Flatten.thy ===== *)
theory Flatten
  imports Json
begin

text \<open>
  \<open>internal/schema/flatten.go\<close>: nested objects flattened into dotted keys. A Go map is ranged over in
  an order the runtime chooses, so besides the function, which visits the entries in the order of the
  list, there is the relation of all runs.
\<close>

definition full_key :: "string \<Rightarrow> string \<Rightarrow> string" where
  "full_key pre key = (if pre \<noteq> [] then pre @ ''.'' @ key else key)"

definition item_key :: "string \<Rightarrow> nat \<Rightarrow> string" where
  "item_key fullKey i = fullKey @ ''['' @ format_nat i @ '']''"

lemma size_list_le_Suc: "size_list f xs \<le> size_list (\<lambda>x. Suc (f x)) xs"
  by (induction xs) auto

function (sequential) flattenRecursive ::
    "string \<Rightarrow> json gomap \<Rightarrow> json gomap \<Rightarrow> json gomap"
  and flatten_items :: "string \<Rightarrow> nat \<Rightarrow> json list \<Rightarrow> json gomap \<Rightarrow> json gomap" where
  "flattenRecursive pre [] result = result"
| "flattenRecursive pre ((key, value) # data) result =
    (let fullKey = full_key pre key in
     flattenRecursive pre data
       (case value of
          JObj v \<Rightarrow> flattenRecursive fullKey v result
        | JArr v \<Rightarrow> flatten_items fullKey 0 v (gm_set fullKey (JArr v) result)
        | v \<Rightarrow> gm_set fullKey v result))"
| "flatten_items fullKey i [] result = result"
| "flatten_items fullKey i (item # items) result =
    (let itemKey = item_key fullKey i in
     flatten_items fullKey (Suc i) items
       (case item of
          JObj nested \<Rightarrow> flattenRecursive itemKey nested result
        | v \<Rightarrow> gm_set itemKey v result))"
  by pat_completeness auto
termination
  by (relation "measure (case_sum (\<lambda>(p, d, r). 2 * size_list (\<lambda>kv. size (snd kv)) d)
        (\<lambda>(k, i, v, r). 2 * size_list size v + 1))")
     (auto simp: size_prod_simp
       intro: le_less_trans [OF mult_le_mono2 [OF size_list_le_Suc]])

definition FlattenJSON :: "json gomap \<Rightarrow> json gomap" where
  "FlattenJSON data = flattenRecursive [] data []"

text \<open>\<open>DetectType\<close> on the values JSON decodes to.\<close>

fun DetectType :: "json \<Rightarrow> string" where
  "DetectType JNull = ''null''"
| "DetectType (JStr _) = ''string''"
| "DetectType (JNum _) = ''number''"
| "DetectType (JBool _) = ''boolean''"
| "DetectType (JObj _) = ''object''"
| "DetectType (JArr _) = ''array''"

section \<open>The assignments of a run\<close>

text \<open>The pairs that flattening assigns to the result, in the order of the assignments.\<close>

function (sequential) obj_paths :: "string \<Rightarrow> json gomap \<Rightarrow> (string \<times> json) list"
  and item_paths :: "string \<Rightarrow> nat \<Rightarrow> json list \<Rightarrow> (string \<times> json) list" where
  "obj_paths pre [] = []"
| "obj_paths pre ((key, value) # data) =
    (case value of
       JObj v \<Rightarrow> obj_paths (full_key pre key) v
     | JArr v \<Rightarrow> (full_key pre key, JArr v) # item_paths (full_key pre key) 0 v
     | v \<Rightarrow> [(full_key pre key, v)]) @ obj_paths pre data"
| "item_paths k i [] = []"
| "item_paths k i (item # items) =
    (case item of
       JObj nested \<Rightarrow> obj_paths (item_key k i) nested
     | v \<Rightarrow> [(item_key k i, v)]) @ item_paths k (Suc i) items"
  by pat_completeness auto
termination
  by (relation "measure (case_sum (\<lambda>(p, d). 2 * size_list (\<lambda>kv. size (snd kv)) d)
        (\<lambda>(k, i, v). 2 * size_list size v + 1))")
     (auto simp: size_prod_simp
       intro: le_less_trans [OF mult_le_mono2 [OF size_list_le_Suc]])

definition assign_all :: "(string \<times> json) list \<Rightarrow> json gomap \<Rightarrow> json gomap" where
  "assign_all ps r = fold (\<lambda>p. gm_set (fst p) (snd p)) ps r"

lemma assign_all_simps [simp]:
  "assign_all [] r = r"
  "assign_all (p # ps) r = assign_all ps (gm_set (fst p) (snd p) r)"
  "assign_all (ps @ qs) r = assign_all qs (assign_all ps r)"
  by (simp_all add: assign_all_def)

lemma flatten_assigns:
  "flattenRecursive pre d r = assign_all (obj_paths pre d) r"
  "flatten_items k i v r = assign_all (item_paths k i v) r"
  by (induction pre d r and k i v r rule: flattenRecursive_flatten_items.induct)
     (simp_all add: Let_def split: json.splits)

lemma gm_get_assign_all: "gm_get (assign_all ps r) = gm_get r ++ map_of (rev ps)"
  by (induction ps arbitrary: r) (auto simp: fun_eq_iff map_add_def split: option.splits)

lemma gm_ok_assign_all: "gm_ok r \<Longrightarrow> gm_ok (assign_all ps r)"
  by (induction ps arbitrary: r) auto

lemma gm_get_assign_distinct:
  assumes "distinct (map fst ps)"
  shows "gm_get (assign_all ps []) = map_of ps"
proof -
  have "map_of (rev ps) = map_of ps"
    using assms gm_get_perm [of ps "rev ps"] by (simp add: gm_ok_def)
  then show ?thesis by (simp add: gm_get_assign_all)
qed

text \<open>The assignments of an object are those of its entries, so reordering it reorders them.\<close>

definition entry_paths :: "string \<Rightarrow> string \<times> json \<Rightarrow> (string \<times> json) list" where
  "entry_paths pre kv = obj_paths pre [kv]"

lemma obj_paths_concat: "obj_paths pre d = concat (map (entry_paths pre) d)"
  by (induction d) (auto simp: entry_paths_def)

lemma mset_obj_paths: "mset d = mset d' \<Longrightarrow> mset (obj_paths pre d) = mset (obj_paths pre d')"
proof -
  assume "mset d = mset d'"
  then have "image_mset (\<lambda>p. mset (entry_paths pre p)) (mset d)
    = image_mset (\<lambda>p. mset (entry_paths pre p)) (mset d')" by simp
  then show ?thesis by (simp add: obj_paths_concat mset_concat o_def sum_mset_sum_list flip: mset_map)
      (metis (no_types, lifting) mset_map sum_mset_sum_list)
qed

section \<open>Every run of the traversal\<close>

text \<open>
  \<open>flat_map\<close> ranges over an object in any order; \<open>flat_entries\<close> and \<open>flat_items\<close> process entries and
  array items in the order given.
\<close>

inductive flat_map :: "string \<Rightarrow> json gomap \<Rightarrow> json gomap \<Rightarrow> json gomap \<Rightarrow> bool"
  and flat_entries :: "string \<Rightarrow> json gomap \<Rightarrow> json gomap \<Rightarrow> json gomap \<Rightarrow> bool"
  and flat_items :: "string \<Rightarrow> nat \<Rightarrow> json list \<Rightarrow> json gomap \<Rightarrow> json gomap \<Rightarrow> bool" where
  range_any: "mset d' = mset d \<Longrightarrow> flat_entries pre d' r r' \<Longrightarrow> flat_map pre d r r'"
| entries_Nil: "flat_entries pre [] r r"
| entries_obj: "flat_map (full_key pre k) m r r1 \<Longrightarrow> flat_entries pre d r1 r2
    \<Longrightarrow> flat_entries pre ((k, JObj m) # d) r r2"
| entries_arr: "flat_items (full_key pre k) 0 xs (gm_set (full_key pre k) (JArr xs) r) r1
    \<Longrightarrow> flat_entries pre d r1 r2 \<Longrightarrow> flat_entries pre ((k, JArr xs) # d) r r2"
| entries_leaf: "DetectType v \<notin> {''object'', ''array''} \<Longrightarrow> flat_entries pre d (gm_set (full_key pre k) v r) r2
    \<Longrightarrow> flat_entries pre ((k, v) # d) r r2"
| items_Nil: "flat_items k i [] r r"
| items_obj: "flat_map (item_key k i) m r r1 \<Longrightarrow> flat_items k (Suc i) xs r1 r2
    \<Longrightarrow> flat_items k i (JObj m # xs) r r2"
| items_leaf: "DetectType v \<noteq> ''object'' \<Longrightarrow> flat_items k (Suc i) xs (gm_set (item_key k i) v r) r2
    \<Longrightarrow> flat_items k i (v # xs) r r2"

text \<open>The run that visits every object in list order is \<open>flattenRecursive\<close>.\<close>

lemma flat_map_list_order: "flat_entries pre d r r' \<Longrightarrow> flat_map pre d r r'"
  by (rule range_any [OF refl])

lemma flatten_is_run:
  "flat_entries pre d r (flattenRecursive pre d r)"
  "flat_items k i v r (flatten_items k i v r)"
proof (induction pre d r and k i v r rule: flattenRecursive_flatten_items.induct)
  case (2 pre key val data res)
  then show ?case
    by (cases val) (auto simp: Let_def intro: entries_leaf entries_arr entries_obj flat_map_list_order)
next
  case (4 fullKey i item items res)
  then show ?case
    by (cases item) (auto simp: Let_def intro: items_leaf items_obj flat_map_list_order)
qed (auto intro: entries_Nil items_Nil)

text \<open>Every run performs the same assignments, in some order.\<close>

lemma run_assigns:
  "flat_map pre d r r' \<Longrightarrow> \<exists>ps. mset ps = mset (obj_paths pre d) \<and> r' = assign_all ps r"
  "flat_entries pre d r r' \<Longrightarrow> \<exists>ps. mset ps = mset (obj_paths pre d) \<and> r' = assign_all ps r"
  "flat_items k i xs r r' \<Longrightarrow> \<exists>ps. mset ps = mset (item_paths k i xs) \<and> r' = assign_all ps r"
proof (induction rule: flat_map_flat_entries_flat_items.inducts)
  case (range_any d' d pre r r')
  then show ?case by (metis mset_obj_paths)
next
  case (entries_obj pre k m r r1 d r2)
  then obtain ps qs where "mset ps = mset (obj_paths (full_key pre k) m)" "r1 = assign_all ps r"
    "mset qs = mset (obj_paths pre d)" "r2 = assign_all qs r1" by blast
  then show ?case by (intro exI [of _ "ps @ qs"]) simp
next
  case (entries_arr pre k xs r r1 d r2)
  then obtain ps qs where "mset ps = mset (item_paths (full_key pre k) 0 xs)"
    "r1 = assign_all ps (gm_set (full_key pre k) (JArr xs) r)"
    "mset qs = mset (obj_paths pre d)" "r2 = assign_all qs r1" by blast
  then show ?case by (intro exI [of _ "(full_key pre k, JArr xs) # ps @ qs"]) simp
next
  case (entries_leaf v pre d k r r2)
  then obtain qs where "mset qs = mset (obj_paths pre d)"
    "r2 = assign_all qs (gm_set (full_key pre k) v r)" by blast
  with entries_leaf.hyps show ?case
    by (intro exI [of _ "(full_key pre k, v) # qs"]) (cases v; simp)
next
  case (items_obj k i m r r1 xs r2)
  then obtain ps qs where "mset ps = mset (obj_paths (item_key k i) m)" "r1 = assign_all ps r"
    "mset qs = mset (item_paths k (Suc i) xs)" "r2 = assign_all qs r1" by blast
  then show ?case by (intro exI [of _ "ps @ qs"]) simp
next
  case (items_leaf v k i xs r r2)
  then obtain qs where "mset qs = mset (item_paths k (Suc i) xs)"
    "r2 = assign_all qs (gm_set (item_key k i) v r)" by blast
  with items_leaf.hyps show ?case
    by (intro exI [of _ "(item_key k i, v) # qs"]) (cases v; simp)
qed (auto intro: exI [of _ "[]"])

lemma run_deterministic:
  assumes "flat_map pre d [] r'" "distinct (map fst (obj_paths pre d))"
  shows "gm_get r' = map_of (obj_paths pre d)"
proof -
  obtain ps where ps: "mset ps = mset (obj_paths pre d)" and r': "r' = assign_all ps []"
    using run_assigns(1) [OF assms(1)] by blast
  from ps have "mset (map fst ps) = mset (map fst (obj_paths pre d))" by (simp only: mset_map)
  with assms(2) have d: "distinct (map fst ps)" by (metis mset_eq_imp_distinct_iff)
  with ps have "map_of ps = map_of (obj_paths pre d)" by (intro gm_get_perm) (simp_all add: gm_ok_def)
  with d r' show ?thesis by (simp add: gm_get_assign_distinct)
qed

section \<open>When the paths are distinct\<close>

text \<open>
  Keys that are not empty and hold neither a dot nor an opening bracket cannot produce the same
  path from two places of the value.
\<close>

definition path_sep :: "char \<Rightarrow> bool" where
  "path_sep c \<longleftrightarrow> c = CHR ''.'' \<or> c = CHR ''[''"

definition plain_key :: "string \<Rightarrow> bool" where
  "plain_key k \<longleftrightarrow> k \<noteq> [] \<and> list_all (\<lambda>c. \<not> path_sep c) k"

fun plain_json :: "json \<Rightarrow> bool" where
  "plain_json (JArr xs) = list_all plain_json xs"
| "plain_json (JObj m) =
    (distinct (map fst m) \<and> list_all (\<lambda>p. plain_key (fst p) \<and> plain_json (snd p)) m)"
| "plain_json _ = True"

text \<open>\<open>s\<close> is the path \<open>b\<close> or a path below it.\<close>

definition under :: "string \<Rightarrow> string \<Rightarrow> bool" where
  "under b s \<longleftrightarrow> (\<exists>t. s = b @ t \<and> (t = [] \<or> path_sep (hd t)))"

lemma under_refl [simp]: "under b b"
  by (simp add: under_def)

lemma under_trans: "under b s \<Longrightarrow> under s t \<Longrightarrow> under b t"
  unfolding under_def by (metis append.assoc append_Nil2 hd_append2)

lemma under_full_key: "pre \<noteq> [] \<Longrightarrow> under pre (full_key pre k)"
  by (auto simp: under_def full_key_def path_sep_def)

lemma under_item_key: "under k (item_key k i)"
  by (auto simp: under_def item_key_def path_sep_def)

lemma full_key_not_Nil: "plain_key k \<Longrightarrow> full_key pre k \<noteq> []"
  by (auto simp: full_key_def plain_key_def)

lemma takeWhile_stop:
  "list_all P u \<Longrightarrow> t = [] \<or> \<not> P (hd t) \<Longrightarrow> takeWhile P (u @ t) = u"
  by (induction u) (auto simp: takeWhile_eq_Nil_iff)

lemma under_full_key_inj:
  assumes "under (full_key pre k) s" "under (full_key pre k') s" "plain_key k" "plain_key k'"
  shows "k = k'"
proof -
  obtain t t' where "s = full_key pre k @ t" "s = full_key pre k' @ t'"
    and t: "t = [] \<or> path_sep (hd t)" "t' = [] \<or> path_sep (hd t')"
    using assms(1,2) unfolding under_def by blast
  then have "full_key pre k @ t = full_key pre k' @ t'" by metis
  then have eq: "k @ t = k' @ t'" by (cases "pre = []") (simp_all add: full_key_def)
  have "takeWhile (\<lambda>c. \<not> path_sep c) (k @ t) = k"
    using assms(3) t(1) by (intro takeWhile_stop) (auto simp: plain_key_def)
  moreover have "takeWhile (\<lambda>c. \<not> path_sep c) (k' @ t') = k'"
    using assms(4) t(2) by (intro takeWhile_stop) (auto simp: plain_key_def)
  ultimately show ?thesis unfolding eq by simp
qed

lemma format_nat_inj: "format_nat m = format_nat n \<Longrightarrow> m = n"
proof -
  assume "format_nat m = format_nat n"
  then have "digits_val 0 (format_nat m) = digits_val 0 (format_nat n)" by (rule arg_cong)
  then show "m = n" unfolding digits_val_format_nat by simp
qed

lemma under_item_key_inj:
  assumes "under (item_key k i) s" "under (item_key k j) s"
  shows "i = j"
proof -
  obtain t t' where "s = item_key k i @ t" "s = item_key k j @ t'"
    using assms unfolding under_def by blast
  then have e: "format_nat i @ '']'' @ t = format_nat j @ '']'' @ t'" by (simp add: item_key_def)
  have "\<not> is_digit (CHR '']'')" by (simp add: is_digit_def digit_val_def)
  then have d: "list_all (\<lambda>c. c \<noteq> CHR '']'') (format_nat n)" for n
    using format_nat_digits [of _ n] by (auto simp: list_all_iff)
  from takeWhile_stop [OF d, of "'']'' @ t" i] takeWhile_stop [OF d, of "'']'' @ t'" j] e
  have "format_nat i = format_nat j" by simp
  then show ?thesis by (rule format_nat_inj)
qed

lemma item_key_not_under: "\<not> under (item_key k i) k"
  by (auto simp: under_def item_key_def)

lemma paths_under:
  "plain_json (JObj d) \<Longrightarrow> s \<in> fst ` set (obj_paths pre d)
     \<Longrightarrow> \<exists>k \<in> fst ` set d. under (full_key pre k) s"
  "list_all plain_json v \<Longrightarrow> s \<in> fst ` set (item_paths k i v)
     \<Longrightarrow> \<exists>j \<ge> i. under (item_key k j) s"
proof (induction pre d and k i v rule: obj_paths_item_paths.induct)
  case (2 pre key val data)
  show ?case
  proof (cases "s \<in> fst ` set (obj_paths pre data)")
    case True
    with 2 show ?thesis by auto
  next
    case False
    have ne: "full_key pre key \<noteq> []" using 2(4) by (simp add: full_key_not_Nil)
    have "under (full_key pre key) s"
      using 2 False ne by (cases val) (auto dest: under_trans [OF under_full_key [OF ne]]
          under_trans [OF under_item_key])
    then show ?thesis by auto
  qed
next
  case (4 k i item items)
  show ?case
  proof (cases "s \<in> fst ` set (item_paths k (Suc i) items)")
    case True
    with 4 have "\<exists>j \<ge> Suc i. under (item_key k j) s" by simp
    then show ?thesis by (auto intro: Suc_leD)
  next
    case False
    have ne: "item_key k i \<noteq> []" by (simp add: item_key_def)
    have "under (item_key k i) s"
      using 4 False by (cases item) (auto dest: under_trans [OF under_full_key [OF ne]])
    then show ?thesis by auto
  qed
qed auto

lemma distinct_paths:
  "plain_json (JObj d) \<Longrightarrow> distinct (map fst (obj_paths pre d))"
  "list_all plain_json v \<Longrightarrow> distinct (map fst (item_paths k i v))"
proof (induction pre d and k i v rule: obj_paths_item_paths.induct)
  case (2 pre key val data)
  have ne: "full_key pre key \<noteq> []" using 2(4) by (simp add: full_key_not_Nil)
  let ?hd = "case val of JObj v \<Rightarrow> obj_paths (full_key pre key) v
     | JArr v \<Rightarrow> (full_key pre key, JArr v) # item_paths (full_key pre key) 0 v
     | v \<Rightarrow> [(full_key pre key, v)]"
  have u: "under (full_key pre key) s" if "s \<in> fst ` set ?hd" for s
    using that paths_under(1) [of _ s "full_key pre key"] paths_under(2) [of _ s "full_key pre key" 0] 2(4)
    by (cases val) (auto dest: under_trans [OF under_full_key [OF ne]] under_trans [OF under_item_key])
  have dis: "fst ` set ?hd \<inter> fst ` set (obj_paths pre data) = {}"
  proof (rule ccontr)
    assume "fst ` set ?hd \<inter> fst ` set (obj_paths pre data) \<noteq> {}"
    then obtain s where s: "s \<in> fst ` set ?hd" "s \<in> fst ` set (obj_paths pre data)" by blast
    have "plain_json (JObj data)" using 2(4) by simp
    from paths_under(1) [OF this s(2)] obtain k where k: "k \<in> fst ` set data" "under (full_key pre k) s"
      by blast
    moreover have "plain_key k" "plain_key key" using k(1) 2(4) by (auto simp: list_all_iff)
    ultimately have "key = k" using under_full_key_inj [OF u [OF s(1)] k(2)] by simp
    with k(1) 2(4) show False by auto
  qed
  have "distinct (map fst ?hd)"
    using 2 item_key_not_under paths_under(2) [of _ "full_key pre key" "full_key pre key" 0]
    by (cases val) auto
  with dis 2 show ?case by auto
next
  case (4 k i item items)
  have ne: "item_key k i \<noteq> []" by (simp add: item_key_def)
  let ?hd = "case item of JObj nested \<Rightarrow> obj_paths (item_key k i) nested | v \<Rightarrow> [(item_key k i, v)]"
  have u: "under (item_key k i) s" if "s \<in> fst ` set ?hd" for s
    using that paths_under(1) [of _ s "item_key k i"] 4(3)
    by (cases item) (auto dest: under_trans [OF under_full_key [OF ne]])
  have dis: "fst ` set ?hd \<inter> fst ` set (item_paths k (Suc i) items) = {}"
  proof (rule ccontr)
    assume "fst ` set ?hd \<inter> fst ` set (item_paths k (Suc i) items) \<noteq> {}"
    then obtain s where s: "s \<in> fst ` set ?hd" "s \<in> fst ` set (item_paths k (Suc i) items)" by blast
    have "list_all plain_json items" using 4(3) by simp
    from paths_under(2) [OF this s(2)] obtain j where "j \<ge> Suc i" "under (item_key k j) s" by blast
    with under_item_key_inj [OF u [OF s(1)]] show False by fastforce
  qed
  have "distinct (map fst ?hd)" using 4 by (cases item) auto
  with dis 4 show ?case by auto
qed auto

section \<open>Properties\<close>

text \<open>C34: flattening does not depend on the order in which the runtime ranges over the maps: for a
  value whose keys are non-empty and hold no dot and no opening bracket, every run of the traversal
  produces the same map, the one \<open>FlattenJSON\<close> computes.\<close>

theorem FlattenJSON_deterministic:
  assumes "plain_json (JObj d)" "flat_map [] d [] r"
  shows "gm_get r = gm_get (FlattenJSON d)"
proof -
  have dis: "distinct (map fst (obj_paths [] d))" by (rule distinct_paths(1) [OF assms(1)])
  have "flat_map [] d [] (FlattenJSON d)"
    unfolding FlattenJSON_def by (rule flat_map_list_order [OF flatten_is_run(1)])
  from run_deterministic [OF assms(2) dis] run_deterministic [OF this dis] show ?thesis by simp
qed

theorem FlattenJSON_deterministic_witness:
  "gm_get (FlattenJSON [(''b'', JObj [(''c'', JNull)]), (''a'', JArr [JBool True])])
   = gm_get (FlattenJSON [(''a'', JArr [JBool True]), (''b'', JObj [(''c'', JNull)])])"
proof (rule FlattenJSON_deterministic)
  show "plain_json (JObj [(''a'', JArr [JBool True]), (''b'', JObj [(''c'', JNull)])])"
    by (simp add: plain_key_def path_sep_def)
  show "flat_map [] [(''a'', JArr [JBool True]), (''b'', JObj [(''c'', JNull)])] []
      (FlattenJSON [(''b'', JObj [(''c'', JNull)]), (''a'', JArr [JBool True])])"
    unfolding FlattenJSON_def by (rule range_any [OF _ flatten_is_run(1)]) simp
qed

text \<open>Keys that hold dots can collide with nested paths, and then the flattened map depends on the
  order of the traversal: two runs over the same object disagree on the value at one path.\<close>

theorem FlattenJSON_collision:
  "\<exists>d r1 r2. wf_json (JObj d) \<and> flat_map [] d [] r1 \<and> flat_map [] d [] r2
    \<and> r1 = FlattenJSON d \<and> gm_get r1 ''a.b'' \<noteq> gm_get r2 ''a.b''"
proof -
  let ?d = "[(''a.b'', JBool True), (''a'', JObj [(''b'', JBool False)])]"
  have 1: "flat_map [] ?d [] (FlattenJSON ?d)"
    unfolding FlattenJSON_def by (rule flat_map_list_order [OF flatten_is_run(1)])
  have 2: "flat_map [] ?d [] (flattenRecursive [] (rev ?d) [])"
    by (rule range_any [OF _ flatten_is_run(1)]) simp
  have "gm_get (FlattenJSON ?d) ''a.b'' \<noteq> gm_get (flattenRecursive [] (rev ?d) []) ''a.b''"
    by (simp add: FlattenJSON_def full_key_def Let_def)
  with 1 2 show ?thesis by (intro exI [of _ ?d] exI) auto
qed

lemma gm_ok_FlattenJSON [simp]: "gm_ok (FlattenJSON d)"
  by (simp add: FlattenJSON_def flatten_assigns gm_ok_assign_all)

end
