(* ===== verification/Schema.thy ===== *)
theory Schema
  imports Flatten
begin

text \<open>
  \<open>internal/schema\<close>: schema inference and drift detection. The store behind it is an interface
  (\<open>SchemaStore\<close>, \<open>DriftStore\<close> in the code); its operations are arguments of the definitions and
  its contract is the locale \<open>schema_store\<close>.
\<close>

section \<open>Types\<close>

record FieldSchema =
  fs_Name :: string
  fs_Type :: string
  fs_Nullable :: bool
  fs_Examples :: "json list"

record PayloadSchema =
  ps_SourceID :: string
  ps_Fields :: "FieldSchema gomap"
  ps_SampleCount :: int
  ps_InferredAt :: int
  ps_Version :: int
  ps_IsLocked :: bool

record DriftEvent =
  dr_EventID :: string
  dr_SourceID :: string
  dr_DriftType :: string
  dr_FieldName :: string
  dr_ExpectedType :: string
  dr_ActualType :: string
  dr_DetectedAt :: int

section \<open>Inference\<close>

definition truncateExample :: "json \<Rightarrow> json" where
  "truncateExample v =
    (case v of
       JStr s \<Rightarrow> if length s > 100 then JStr (take 100 s @ ''...'') else v
     | JArr _ \<Rightarrow> JStr ''[array]''
     | JObj _ \<Rightarrow> JStr ''[object]''
     | _ \<Rightarrow> v)"

definition new_schema :: "string \<Rightarrow> PayloadSchema" where
  "new_schema sourceID =
    \<lparr>ps_SourceID = sourceID, ps_Fields = [], ps_SampleCount = 0, ps_InferredAt = 0, ps_Version = 1,
     ps_IsLocked = False\<rparr>"

text \<open>The first loop of \<open>UpdateSchema\<close>: fields absent from the payload become nullable.\<close>

definition mark_absent :: "json gomap \<Rightarrow> FieldSchema gomap \<Rightarrow> FieldSchema gomap" where
  "mark_absent flat flds =
    map (\<lambda>(name, field).
      (name, if gm_get flat name = None then field\<lparr>fs_Nullable := True\<rparr> else field)) flds"

text \<open>The body of the second loop: one field of the payload.\<close>

definition process_field :: "int \<Rightarrow> string \<times> json \<Rightarrow> FieldSchema gomap \<Rightarrow> FieldSchema gomap" where
  "process_field cnt nv flds =
    (let name = fst nv; val = snd nv; fieldType = DetectType val in
     case gm_get flds name of
       Some field \<Rightarrow>
         let field1 = (if fs_Type field \<noteq> fieldType \<and> fieldType \<noteq> ''null''
                       then field\<lparr>fs_Type := fieldType\<rparr> else field);
             field2 = (if length (fs_Examples field1) < 3
                       then field1\<lparr>fs_Examples := fs_Examples field1 @ [truncateExample val]\<rparr>
                       else field1)
         in gm_set name field2 flds
     | None \<Rightarrow>
         gm_set name \<lparr>fs_Name = name, fs_Type = fieldType, fs_Nullable = cnt > 1,
                      fs_Examples = [truncateExample val]\<rparr> flds)"

definition observe :: "PayloadSchema \<Rightarrow> json gomap \<Rightarrow> int \<Rightarrow> int \<Rightarrow> PayloadSchema" where
  "observe existing flat minSamples now =
    (let cnt = ps_SampleCount existing + 1;
         flds = fold (process_field cnt) flat (mark_absent flat (ps_Fields existing));
         updated = existing\<lparr>ps_SampleCount := cnt, ps_Fields := flds\<rparr>
     in if cnt \<ge> minSamples \<and> \<not> ps_IsLocked updated
        then updated\<lparr>ps_IsLocked := True, ps_InferredAt := now\<rparr> else updated)"

definition UpdateSchema ::
    "(string \<Rightarrow> 's \<Rightarrow> ('e + PayloadSchema) \<times> 's) \<Rightarrow> (PayloadSchema \<Rightarrow> 's \<Rightarrow> 'r \<times> 's)
     \<Rightarrow> string \<Rightarrow> json gomap \<Rightarrow> int \<Rightarrow> int \<Rightarrow> 's \<Rightarrow> 's" where
  "UpdateSchema get upsert sourceID payload minSamples now s =
    (let flat = FlattenJSON payload;
         (res, s1) = get sourceID s;
         existing = (case res of Inl _ \<Rightarrow> new_schema sourceID | Inr ps \<Rightarrow> ps)
     in if ps_IsLocked existing then s1
        else snd (upsert (observe existing flat minSamples now) s1))"

section \<open>Drift\<close>

definition missing_drifts ::
    "string \<Rightarrow> string \<Rightarrow> int \<Rightarrow> json gomap \<Rightarrow> FieldSchema gomap \<Rightarrow> DriftEvent list" where
  "missing_drifts sourceID eventID now flat flds =
    map (\<lambda>(name, field).
        \<lparr>dr_EventID = eventID, dr_SourceID = sourceID, dr_DriftType = ''FIELD_MISSING'',
         dr_FieldName = name, dr_ExpectedType = fs_Type field, dr_ActualType = [],
         dr_DetectedAt = now\<rparr>)
      (filter (\<lambda>(name, field). \<not> fs_Nullable field \<and> gm_get flat name = None) flds)"

definition value_drift ::
    "string \<Rightarrow> string \<Rightarrow> int \<Rightarrow> FieldSchema gomap \<Rightarrow> string \<times> json \<Rightarrow> DriftEvent list" where
  "value_drift sourceID eventID now flds nv =
    (let name = fst nv; actualType = DetectType (snd nv) in
     case gm_get flds name of
       Some field \<Rightarrow>
         if fs_Type field \<noteq> actualType \<and> actualType \<noteq> ''null'' then
           [\<lparr>dr_EventID = eventID, dr_SourceID = sourceID, dr_DriftType = ''TYPE_CHANGED'',
             dr_FieldName = name, dr_ExpectedType = fs_Type field, dr_ActualType = actualType,
             dr_DetectedAt = now\<rparr>]
         else []
     | None \<Rightarrow>
         [\<lparr>dr_EventID = eventID, dr_SourceID = sourceID, dr_DriftType = ''NEW_FIELD'',
           dr_FieldName = name, dr_ExpectedType = [], dr_ActualType = actualType,
           dr_DetectedAt = now\<rparr>])"

definition find_drifts ::
    "string \<Rightarrow> string \<Rightarrow> int \<Rightarrow> json gomap \<Rightarrow> FieldSchema gomap \<Rightarrow> DriftEvent list" where
  "find_drifts sourceID eventID now flat flds =
    missing_drifts sourceID eventID now flat flds
    @ concat (map (value_drift sourceID eventID now flds) flat)"

definition CheckDrift ::
    "(string \<Rightarrow> 's \<Rightarrow> ('e + PayloadSchema) \<times> 's) \<Rightarrow> (DriftEvent \<Rightarrow> 's \<Rightarrow> 'r \<times> 's)
     \<Rightarrow> string \<Rightarrow> string \<Rightarrow> json gomap \<Rightarrow> int \<Rightarrow> 's \<Rightarrow> DriftEvent list \<times> 's" where
  "CheckDrift get insert_drift sourceID eventID payload now s =
    (case get sourceID s of
       (Inl _, s1) \<Rightarrow> ([], s1)
     | (Inr schema, s1) \<Rightarrow>
         if \<not> ps_IsLocked schema then ([], s1)
         else
           let drifts = find_drifts sourceID eventID now (FlattenJSON payload) (ps_Fields schema)
           in (drifts, fold (\<lambda>d st. snd (insert_drift d st)) drifts s1))"

section \<open>What inference computes\<close>

text \<open>
  The abstract specification: the schema of a list of flattened payloads, field by field. A field is
  nullable when some payload lacks it, its type is the last one seen that is not \<open>null\<close>, and its
  examples are the first three values, as the store keeps them (\<open>kept\<close>: the JSON text of a string that
  was cut inside a rune differs from it).
\<close>

definition seen :: "json gomap list \<Rightarrow> string \<Rightarrow> json list" where
  "seen flats name =
    concat (map (\<lambda>f. case gm_get f name of None \<Rightarrow> [] | Some v \<Rightarrow> [v]) flats)"

definition last_type :: "string list \<Rightarrow> string" where
  "last_type ts = foldl (\<lambda>acc t. if t \<noteq> ''null'' then t else acc) ''null'' ts"

definition schema_of :: "(json \<Rightarrow> json) \<Rightarrow> json gomap list \<Rightarrow> string \<Rightarrow> FieldSchema option" where
  "schema_of kept flats name =
    (if seen flats name = [] then None
     else Some
       \<lparr>fs_Name = name, fs_Type = last_type (map DetectType (seen flats name)),
        fs_Nullable = (\<exists>f \<in> set flats. gm_get f name = None),
        fs_Examples = take 3 (map (\<lambda>v. kept (truncateExample v)) (seen flats name))\<rparr>)"

lemma seen_append [simp]:
  "seen (fs @ [f]) name = seen fs name @ (case gm_get f name of None \<Rightarrow> [] | Some v \<Rightarrow> [v])"
  by (simp add: seen_def)

lemma seen_Nil [simp]: "seen [] name = []"
  by (simp add: seen_def)

lemma seen_Nil_iff: "seen fs name = [] \<longleftrightarrow> (\<forall>f \<in> set fs. gm_get f name = None)"
  by (induction fs rule: rev_induct) (auto split: option.splits)

lemma last_type_snoc [simp]:
  "last_type (ts @ [t]) = (if t \<noteq> ''null'' then t else last_type ts)"
  by (simp add: last_type_def)

lemma last_type_single: "last_type [t] = t"
  by (simp add: last_type_def)

lemma gm_keys_mark_absent [simp]: "gm_keys (mark_absent flat flds) = gm_keys flds"
  by (induction flds) (auto simp: mark_absent_def)

lemma gm_get_mark_absent:
  "gm_get (mark_absent flat flds) name =
    map_option (\<lambda>f. if gm_get flat name = None then f\<lparr>fs_Nullable := True\<rparr> else f) (gm_get flds name)"
  by (induction flds) (auto simp: mark_absent_def)

text \<open>What \<open>process_field\<close> leaves in the field it is about.\<close>

definition field_after :: "int \<Rightarrow> string \<Rightarrow> json \<Rightarrow> FieldSchema option \<Rightarrow> FieldSchema" where
  "field_after cnt name v old =
    (case old of
       None \<Rightarrow> \<lparr>fs_Name = name, fs_Type = DetectType v, fs_Nullable = cnt > 1,
                fs_Examples = [truncateExample v]\<rparr>
     | Some f \<Rightarrow>
         f\<lparr>fs_Type := (if DetectType v \<noteq> ''null'' then DetectType v else fs_Type f),
           fs_Examples := (if length (fs_Examples f) < 3 then fs_Examples f @ [truncateExample v]
                           else fs_Examples f)\<rparr>)"

lemma process_field_set:
  "process_field cnt nv flds
   = gm_set (fst nv) (field_after cnt (fst nv) (snd nv) (gm_get flds (fst nv))) flds"
proof (cases "gm_get flds (fst nv)")
  case None
  then show ?thesis by (simp add: process_field_def field_after_def Let_def)
next
  case (Some f)
  then show ?thesis
    by (cases f) (auto simp: process_field_def field_after_def Let_def)
qed

lemma gm_ok_process: "gm_ok flds \<Longrightarrow> gm_ok (fold (process_field cnt) flat flds)"
  by (induction flat arbitrary: flds) (auto simp: process_field_set)

lemma gm_get_process_fold:
  "gm_ok flat \<Longrightarrow> gm_get (fold (process_field cnt) flat flds) name =
    (case gm_get flat name of
       None \<Rightarrow> gm_get flds name
     | Some v \<Rightarrow> Some (field_after cnt name v (gm_get flds name)))"
proof (induction flat arbitrary: flds)
  case (Cons p flat)
  obtain a b where p: "p = (a, b)" by (cases p)
  with Cons.prems have "gm_ok flat" and n: "gm_get flat a = None"
    by (auto simp: gm_ok_def gm_get_None_iff)
  let ?f = "process_field cnt (a, b) flds"
  have g: "gm_get ?f = (gm_get flds)(a \<mapsto> field_after cnt a b (gm_get flds a))"
    by (simp add: process_field_set fun_eq_iff)
  have "gm_get (fold (process_field cnt) flat ?f) name =
      (case gm_get flat name of
         None \<Rightarrow> gm_get ?f name | Some v \<Rightarrow> Some (field_after cnt name v (gm_get ?f name)))"
    by (rule Cons.IH [OF \<open>gm_ok flat\<close>])
  with n show ?case
    by (cases "name = a") (simp_all add: p g split: option.split)
qed simp

lemma gm_get_observe:
  assumes "gm_ok flat"
  shows "gm_get (ps_Fields (observe ps flat m now)) name =
    (case (gm_get (ps_Fields ps) name, gm_get flat name) of
       (None, None) \<Rightarrow> None
     | (Some f, None) \<Rightarrow> Some (f\<lparr>fs_Nullable := True\<rparr>)
     | (old, Some v) \<Rightarrow> Some (field_after (ps_SampleCount ps + 1) name v old))"
  using gm_get_process_fold [OF assms, of "ps_SampleCount ps + 1" "mark_absent flat (ps_Fields ps)" name]
  by (auto simp: observe_def Let_def gm_get_mark_absent split: option.splits)

lemma observe_simps [simp]:
  "ps_SampleCount (observe ps flat m now) = ps_SampleCount ps + 1"
  "ps_SourceID (observe ps flat m now) = ps_SourceID ps"
  "ps_Version (observe ps flat m now) = ps_Version ps"
  "ps_IsLocked (observe ps flat m now) \<longleftrightarrow> ps_IsLocked ps \<or> ps_SampleCount ps + 1 \<ge> m"
  by (auto simp: observe_def Let_def)

lemma gm_ok_observe: "gm_ok (ps_Fields ps) \<Longrightarrow> gm_ok (ps_Fields (observe ps flat m now))"
  using gm_ok_process by (simp add: observe_def Let_def gm_ok_def)

text \<open>What the store keeps of a schema: its examples pass through \<open>kept\<close>, \<open>t\<close> is the time of the write.\<close>

definition kept_field :: "(json \<Rightarrow> json) \<Rightarrow> FieldSchema \<Rightarrow> FieldSchema" where
  "kept_field kept f = f\<lparr>fs_Examples := map kept (fs_Examples f)\<rparr>"

definition kept_schema :: "(json \<Rightarrow> json) \<Rightarrow> int \<Rightarrow> PayloadSchema \<Rightarrow> PayloadSchema" where
  "kept_schema kept t ps =
    ps\<lparr>ps_InferredAt := t, ps_Fields := map (\<lambda>(k, f). (k, kept_field kept f)) (ps_Fields ps)\<rparr>"

lemma kept_schema_simps [simp]:
  "ps_SampleCount (kept_schema kept t ps) = ps_SampleCount ps"
  "ps_SourceID (kept_schema kept t ps) = ps_SourceID ps"
  "ps_IsLocked (kept_schema kept t ps) = ps_IsLocked ps"
  "ps_Version (kept_schema kept t ps) = ps_Version ps"
  "gm_ok (ps_Fields (kept_schema kept t ps)) = gm_ok (ps_Fields ps)"
  by (simp_all add: kept_schema_def gm_ok_def case_prod_unfold comp_def)

lemma gm_get_kept: "gm_get (ps_Fields (kept_schema kept t ps)) name
    = map_option (kept_field kept) (gm_get (ps_Fields ps) name)"
proof -
  have "gm_get (map (\<lambda>(k, f). (k, kept_field kept f)) flds) name
      = map_option (kept_field kept) (gm_get flds name)" for flds
    by (induction flds) auto
  then show ?thesis by (simp add: kept_schema_def)
qed

text \<open>A schema agrees with the payloads it has been shown.\<close>

definition learned :: "(json \<Rightarrow> json) \<Rightarrow> json gomap list \<Rightarrow> PayloadSchema \<Rightarrow> bool" where
  "learned kept flats ps \<longleftrightarrow>
    ps_SampleCount ps = int (length flats) \<and> gm_ok (ps_Fields ps)
    \<and> (\<forall>name. gm_get (ps_Fields ps) name = schema_of kept flats name)"

lemma learned_new: "learned kept [] (new_schema src)"
  by (simp add: learned_def new_schema_def schema_of_def)

lemma kept_schema_of:
  assumes idem: "\<And>v. kept (kept v) = kept v"
  shows "schema_of kept fs name = Some g \<Longrightarrow> kept_field kept g = g"
  by (auto simp: schema_of_def kept_field_def idem take_map comp_def split: if_splits)

lemma schema_of_snoc:
  assumes idem: "\<And>v. kept (kept v) = kept v"
  shows "schema_of kept (fs @ [f]) name =
    map_option (kept_field kept)
     (case (schema_of kept fs name, gm_get f name) of
        (None, None) \<Rightarrow> None
      | (Some g, None) \<Rightarrow> Some (g\<lparr>fs_Nullable := True\<rparr>)
      | (old, Some v) \<Rightarrow> Some (field_after (int (length fs) + 1) name v old))"
proof (cases "gm_get f name")
  case None
  then show ?thesis
    by (auto simp: schema_of_def kept_field_def idem take_map comp_def)
next
  case (Some v)
  show ?thesis
  proof (cases "seen fs name = []")
    case True
    have "(\<exists>g \<in> set fs. gm_get g name = None) \<longleftrightarrow> fs \<noteq> []"
      using True by (cases fs) (auto simp: seen_Nil_iff)
    with True Some show ?thesis
      by (simp add: schema_of_def field_after_def last_type_single kept_field_def)
  next
    case False
    with Some show ?thesis
      by (auto simp: schema_of_def field_after_def kept_field_def idem take_map comp_def)
  qed
qed

lemma learned_observe:
  assumes idem: "\<And>v. kept (kept v) = kept v" and "learned kept fs ps" "gm_ok f"
  shows "learned kept (fs @ [f]) (kept_schema kept t (observe ps f m now))"
proof -
  have c: "ps_SampleCount ps = int (length fs)" and ok: "gm_ok (ps_Fields ps)"
    and l: "\<And>name. gm_get (ps_Fields ps) name = schema_of kept fs name"
    using assms(2) by (auto simp: learned_def)
  have "gm_get (ps_Fields (kept_schema kept t (observe ps f m now))) name = schema_of kept (fs @ [f]) name"
    for name
    unfolding gm_get_kept gm_get_observe [OF assms(3)] schema_of_snoc [OF idem] l c ..
  then show ?thesis by (simp add: learned_def gm_ok_observe [OF ok] c)
qed

section \<open>What drift detection reports\<close>

text \<open>A flattened payload fits a schema.\<close>

definition conforms :: "json gomap \<Rightarrow> FieldSchema gomap \<Rightarrow> bool" where
  "conforms flat flds \<longleftrightarrow>
    (\<forall>name f. gm_get flds name = Some f \<longrightarrow> \<not> fs_Nullable f \<longrightarrow> gm_get flat name \<noteq> None)
    \<and> (\<forall>name v. gm_get flat name = Some v \<longrightarrow>
         (\<exists>f. gm_get flds name = Some f \<and> (fs_Type f = DetectType v \<or> DetectType v = ''null'')))"

lemma value_drift_cases:
  "d \<in> set (value_drift src ev now flds nv) \<Longrightarrow>
    dr_FieldName d = fst nv \<and>
    (dr_DriftType d = ''TYPE_CHANGED'' \<and> gm_get flds (fst nv) \<noteq> None
     \<or> dr_DriftType d = ''NEW_FIELD'' \<and> gm_get flds (fst nv) = None)"
  by (auto simp: value_drift_def Let_def split: option.splits if_splits)

lemma missing_drifts_cases:
  "d \<in> set (missing_drifts src ev now flat flds) \<Longrightarrow>
    dr_DriftType d = ''FIELD_MISSING'' \<and> gm_get flat (dr_FieldName d) = None
    \<and> (\<exists>f. (dr_FieldName d, f) \<in> set flds \<and> \<not> fs_Nullable f)"
  by (auto simp: missing_drifts_def)

lemma missing_drifts_Nil:
  "gm_ok flds \<Longrightarrow> missing_drifts src ev now flat flds = [] \<longleftrightarrow>
    (\<forall>name f. gm_get flds name = Some f \<longrightarrow> \<not> fs_Nullable f \<longrightarrow> gm_get flat name \<noteq> None)"
  by (fastforce simp: missing_drifts_def filter_empty_conv gm_get_Some_iff)

lemma value_drift_Nil:
  "value_drift src ev now flds (name, v) = [] \<longleftrightarrow>
    (\<exists>f. gm_get flds name = Some f \<and> (fs_Type f = DetectType v \<or> DetectType v = ''null''))"
  by (auto simp: value_drift_def Let_def split: option.splits)

lemma find_drifts_Nil:
  assumes "gm_ok flds" "gm_ok flat"
  shows "find_drifts src ev now flat flds = [] \<longleftrightarrow> conforms flat flds"
  using missing_drifts_Nil [OF assms(1), of src ev now flat]
  by (fastforce simp: find_drifts_def conforms_def value_drift_Nil gm_get_Some_iff [OF assms(2)])

lemma distinct_missing: "gm_ok flds \<Longrightarrow> distinct (map dr_FieldName (missing_drifts src ev now flat flds))"
proof -
  have "map dr_FieldName (missing_drifts src ev now flat flds)
    = map fst (filter (\<lambda>(name, f). \<not> fs_Nullable f \<and> gm_get flat name = None) flds)"
    by (induction flds) (auto simp: missing_drifts_def)
  then show "gm_ok flds \<Longrightarrow> ?thesis" by (simp add: gm_ok_def distinct_map_filter)
qed

lemma distinct_values:
  "gm_ok flat \<Longrightarrow> distinct (map dr_FieldName (concat (map (value_drift src ev now flds) flat)))
    \<and> (\<forall>d \<in> set (concat (map (value_drift src ev now flds) flat)). dr_FieldName d \<in> set (gm_keys flat))"
proof (induction flat)
  case (Cons p flat)
  have one: "distinct (map dr_FieldName (value_drift src ev now flds p))"
    by (auto simp: value_drift_def Let_def split: option.splits)
  have names: "dr_FieldName d = fst p" if "d \<in> set (value_drift src ev now flds p)" for d
    using value_drift_cases [OF that] by simp
  from Cons.prems have ok: "gm_ok flat" and new: "fst p \<notin> set (gm_keys flat)"
    by (auto simp: gm_ok_def)
  let ?rest = "concat (map (value_drift src ev now flds) flat)"
  have rest: "distinct (map dr_FieldName ?rest)"
    "\<forall>d \<in> set ?rest. dr_FieldName d \<in> set (gm_keys flat)"
    using Cons.IH [OF ok] by blast+
  have "dr_FieldName ` set (value_drift src ev now flds p) \<subseteq> {fst p}" using names by auto
  moreover have "dr_FieldName ` set ?rest \<subseteq> set (gm_keys flat)" using rest(2) by blast
  ultimately have "dr_FieldName ` set (value_drift src ev now flds p) \<inter> dr_FieldName ` set ?rest = {}"
    using new by (rule disjoint_singleton)
  then have "distinct (map dr_FieldName (value_drift src ev now flds p @ ?rest))"
    by (rule distinct_map_append [OF one rest(1)])
  moreover have "\<forall>d \<in> set (value_drift src ev now flds p @ ?rest). dr_FieldName d \<in> set (gm_keys (p # flat))"
  proof
    fix d assume "d \<in> set (value_drift src ev now flds p @ ?rest)"
    then consider "d \<in> set (value_drift src ev now flds p)" | "d \<in> set ?rest"
      unfolding set_append by blast
    then show "dr_FieldName d \<in> set (gm_keys (p # flat))"
      by cases (use names rest(2) in force)+
  qed
  ultimately show ?case by simp
qed simp

lemma distinct_drift_fields:
  assumes "gm_ok flds" "gm_ok flat"
  shows "distinct (map dr_FieldName (find_drifts src ev now flat flds))"
proof -
  have "dr_FieldName d \<noteq> dr_FieldName e"
    if "d \<in> set (missing_drifts src ev now flat flds)"
      "e \<in> set (concat (map (value_drift src ev now flds) flat))" for d e
    using missing_drifts_cases [OF that(1)] distinct_values [OF assms(2), of src ev now flds] that(2)
    by (metis gm_get_None_iff)
  with distinct_missing [OF assms(1)] distinct_values [OF assms(2)] show ?thesis
    by (fastforce simp: find_drifts_def)
qed

text \<open>How a field departs from a schema: the type of the drift, the type expected and the type found.\<close>

definition departure :: "json gomap \<Rightarrow> FieldSchema gomap \<Rightarrow> string \<Rightarrow> (string \<times> string \<times> string) option" where
  "departure flat flds name =
    (case (gm_get flds name, gm_get flat name) of
       (None, None) \<Rightarrow> None
     | (None, Some v) \<Rightarrow> Some (''NEW_FIELD'', [], DetectType v)
     | (Some f, None) \<Rightarrow> if fs_Nullable f then None else Some (''FIELD_MISSING'', fs_Type f, [])
     | (Some f, Some v) \<Rightarrow>
         if fs_Type f = DetectType v \<or> DetectType v = ''null'' then None
         else Some (''TYPE_CHANGED'', fs_Type f, DetectType v))"

definition drift_for :: "string \<Rightarrow> string \<Rightarrow> int \<Rightarrow> string \<Rightarrow> string \<times> string \<times> string \<Rightarrow> DriftEvent" where
  "drift_for src ev now name k =
    \<lparr>dr_EventID = ev, dr_SourceID = src, dr_DriftType = fst k, dr_FieldName = name,
     dr_ExpectedType = fst (snd k), dr_ActualType = snd (snd k), dr_DetectedAt = now\<rparr>"

lemma drift_for_eq:
  "d = drift_for src ev now name k \<longleftrightarrow> dr_FieldName d = name \<and> k = (dr_DriftType d, dr_ExpectedType d, dr_ActualType d)
    \<and> dr_EventID d = ev \<and> dr_SourceID d = src \<and> dr_DetectedAt d = now"
  by (cases d; cases k) (auto simp: drift_for_def)

lemma missing_drifts_iff:
  "gm_ok flds \<Longrightarrow> d \<in> set (missing_drifts src ev now flat flds) \<longleftrightarrow>
    (\<exists>name k. gm_get flat name = None \<and> departure flat flds name = Some k \<and> d = drift_for src ev now name k)"
proof -
  assume ok: "gm_ok flds"
  have none: "gm_get flat name = None \<and> departure flat flds name = Some k \<longleftrightarrow>
      gm_get flat name = None \<and> (\<exists>f. gm_get flds name = Some f \<and> \<not> fs_Nullable f \<and> k = (''FIELD_MISSING'', fs_Type f, []))" for name k
    by (cases "gm_get flds name") (auto simp: departure_def)
  have "d \<in> set (missing_drifts src ev now flat flds) \<longleftrightarrow>
    (\<exists>name f. gm_get flds name = Some f \<and> \<not> fs_Nullable f \<and> gm_get flat name = None
      \<and> d = drift_for src ev now name (''FIELD_MISSING'', fs_Type f, []))"
    unfolding missing_drifts_def drift_for_def gm_get_Some_iff [OF ok] by force
  also have "\<dots> \<longleftrightarrow> (\<exists>name k. gm_get flat name = None \<and> departure flat flds name = Some k \<and> d = drift_for src ev now name k)"
    unfolding conj_assoc [symmetric] none by auto
  finally show ?thesis .
qed

lemma value_drift_iff:
  "gm_get flat name = Some v \<Longrightarrow> d \<in> set (value_drift src ev now flds (name, v)) \<longleftrightarrow>
    (\<exists>k. departure flat flds name = Some k \<and> d = drift_for src ev now name k)"
  by (cases "gm_get flds name") (simp_all add: departure_def value_drift_def drift_for_def Let_def)

lemma find_drifts_iff:
  assumes "gm_ok flds" "gm_ok flat"
  shows "d \<in> set (find_drifts src ev now flat flds) \<longleftrightarrow>
    departure flat flds (dr_FieldName d) = Some (dr_DriftType d, dr_ExpectedType d, dr_ActualType d)
    \<and> dr_EventID d = ev \<and> dr_SourceID d = src \<and> dr_DetectedAt d = now"
proof -
  have "d \<in> set (concat (map (value_drift src ev now flds) flat)) \<longleftrightarrow>
      (\<exists>name v. gm_get flat name = Some v \<and> d \<in> set (value_drift src ev now flds (name, v)))"
    by (auto simp: gm_get_Some_iff [OF assms(2)])
  also have "\<dots> \<longleftrightarrow> (\<exists>name k. gm_get flat name \<noteq> None \<and> departure flat flds name = Some k \<and> d = drift_for src ev now name k)"
    using value_drift_iff by fastforce
  finally have "d \<in> set (find_drifts src ev now flat flds) \<longleftrightarrow>
      (\<exists>name k. departure flat flds name = Some k \<and> d = drift_for src ev now name k)"
    unfolding find_drifts_def set_append Un_iff missing_drifts_iff [OF assms(1)] by blast
  then show ?thesis by (auto simp: drift_for_eq)
qed

text \<open>A payload the schema has learned from can only show a changed type.\<close>

lemma learned_drifts:
  assumes "learned kept flats ps" "f \<in> set flats" "d \<in> set (find_drifts src ev now f (ps_Fields ps))"
  shows "dr_DriftType d = ''TYPE_CHANGED''"
proof -
  have get: "gm_get (ps_Fields ps) name = schema_of kept flats name" for name
    using assms(1) by (simp add: learned_def)
  have ok: "gm_ok (ps_Fields ps)" using assms(1) by (simp add: learned_def)
  have "d \<notin> set (missing_drifts src ev now f (ps_Fields ps))"
  proof
    assume d: "d \<in> set (missing_drifts src ev now f (ps_Fields ps))"
    then obtain g where "gm_get f (dr_FieldName d) = None" "\<not> fs_Nullable g"
      "gm_get (ps_Fields ps) (dr_FieldName d) = Some g"
      using missing_drifts_cases [OF d] by (auto simp: gm_get_Some_iff [OF ok])
    moreover from this(1) assms(2) have "\<exists>f \<in> set flats. gm_get f (dr_FieldName d) = None" by blast
    ultimately show False by (auto simp: get schema_of_def split: if_splits)
  qed
  with assms(3) obtain nv where nv: "nv \<in> set f" "d \<in> set (value_drift src ev now (ps_Fields ps) nv)"
    by (auto simp: find_drifts_def)
  then have "gm_get f (fst nv) \<noteq> None" by (auto simp: gm_get_None_iff)
  with assms(2) have "gm_get (ps_Fields ps) (fst nv) \<noteq> None"
    by (auto simp: get schema_of_def seen_Nil_iff)
  with value_drift_cases [OF nv(2)] show ?thesis by auto
qed

section \<open>The store behind the schema engine\<close>

text \<open>
  The contract of \<open>SchemaStore\<close>. \<open>saved s\<close> is what the store holds for each source, \<open>ready s src\<close>
  says that the store answers and accepts rows of \<open>src\<close>. The store keeps its own time of the last
  write in the place of \<open>InferredAt\<close>.
\<close>

locale schema_store =
  fixes get :: "string \<Rightarrow> 's \<Rightarrow> ('e + PayloadSchema) \<times> 's"
    and upsert :: "PayloadSchema \<Rightarrow> 's \<Rightarrow> 'r \<times> 's"
    and saved :: "'s \<Rightarrow> string \<Rightarrow> PayloadSchema option"
    and ready :: "'s \<Rightarrow> string \<Rightarrow> bool"
    and kept :: "json \<Rightarrow> json"
  assumes kept_idem: "kept (kept v) = kept v"
    and get_absent: "ready s src \<Longrightarrow> saved s src = None \<Longrightarrow> isl (fst (get src s))"
    and get_present: "ready s src \<Longrightarrow> saved s src = Some ps \<Longrightarrow> fst (get src s) = Inr ps"
    and get_saved: "saved (snd (get x s)) = saved s"
    and get_ready: "ready s src \<Longrightarrow> ready (snd (get x s)) src"
    and upsert_saved: "ready s (ps_SourceID ps) \<Longrightarrow>
      \<exists>t. saved (snd (upsert ps s)) = (saved s)(ps_SourceID ps \<mapsto> kept_schema kept t ps)"
    and upsert_ready: "ready s src \<Longrightarrow> ready (snd (upsert ps s)) src"
    and saved_source: "saved s src = Some ps \<Longrightarrow> ps_SourceID ps = src"

definition train ::
    "(string \<Rightarrow> 's \<Rightarrow> ('e + PayloadSchema) \<times> 's) \<Rightarrow> (PayloadSchema \<Rightarrow> 's \<Rightarrow> 'r \<times> 's)
     \<Rightarrow> string \<Rightarrow> int \<Rightarrow> (json gomap \<times> int) list \<Rightarrow> 's \<Rightarrow> 's" where
  "train get upsert src m pts s = fold (\<lambda>(p, now). UpdateSchema get upsert src p m now) pts s"

context schema_store
begin

text \<open>The schema on which one update works, and what the update leaves.\<close>

lemma update_locked:
  assumes "ready s src" "saved s src = Some ps" "ps_IsLocked ps"
  shows "saved (UpdateSchema get upsert src p m now s) = saved s
    \<and> ready (UpdateSchema get upsert src p m now s) src"
  using assms get_present [OF assms(1,2)] get_ready [OF assms(1)]
  by (auto simp: UpdateSchema_def Let_def get_saved split: prod.splits)
     (metis get_saved snd_conv, metis snd_conv)

lemma update_open:
  assumes "ready s src" "case saved s src of None \<Rightarrow> True | Some ps \<Rightarrow> \<not> ps_IsLocked ps"
  defines "old \<equiv> (case saved s src of None \<Rightarrow> new_schema src | Some ps \<Rightarrow> ps)"
  shows "\<exists>t. saved (UpdateSchema get upsert src p m now s)
      = (saved s)(src \<mapsto> kept_schema kept t (observe old (FlattenJSON p) m now))"
    and "ready (UpdateSchema get upsert src p m now s) src"
proof -
  obtain r s1 where g: "get src s = (r, s1)" by (cases "get src s")
  have old: "(case r of Inl _ \<Rightarrow> new_schema src | Inr ps \<Rightarrow> ps) = old"
    using get_absent [OF assms(1)] get_present [OF assms(1)] g
    by (auto simp: old_def split: option.splits sum.splits)
  have open': "\<not> ps_IsLocked old" using assms(2) by (auto simp: old_def new_schema_def split: option.splits)
  have src: "ps_SourceID old = src"
    using saved_source by (auto simp: old_def new_schema_def split: option.splits)
  have u: "UpdateSchema get upsert src p m now s
      = snd (upsert (observe old (FlattenJSON p) m now) s1)"
    using open' by (simp add: UpdateSchema_def g old Let_def)
  have s1: "saved s1 = saved s" "ready s1 src"
    using get_saved [of src s] get_ready [OF assms(1), of src] g by auto
  show "\<exists>t. saved (UpdateSchema get upsert src p m now s)
      = (saved s)(src \<mapsto> kept_schema kept t (observe old (FlattenJSON p) m now))"
    using upsert_saved [of s1 "observe old (FlattenJSON p) m now"] s1 by (simp add: u src)
  show "ready (UpdateSchema get upsert src p m now s) src"
    using upsert_ready [OF s1(2)] by (simp add: u)
qed

text \<open>Training a fresh source: the stored schema is the one specified by the payloads up to the lock.\<close>

lemma train_learns:
  assumes "ready s src" "saved s src = None" "pts \<noteq> []"
  shows "ready (train get upsert src m pts s) src \<and>
    (\<exists>ps. saved (train get upsert src m pts s) src = Some ps
      \<and> learned kept (map (\<lambda>q. FlattenJSON (fst q)) (take (max 1 (nat m)) pts)) ps
      \<and> ps_IsLocked ps = (m \<le> int (length pts)))"
  using assms(3)
proof (induction pts rule: rev_nonempty_induct)
  case (single q)
  let ?p = "fst q" and ?n = "snd q"
  obtain t where "saved (train get upsert src m [q] s)
      = (saved s)(src \<mapsto> kept_schema kept t (observe (new_schema src) (FlattenJSON ?p) m ?n))"
    using update_open(1) [OF assms(1), of ?p m ?n] assms(2)
    by (auto simp: train_def case_prod_unfold)
  moreover have "learned kept ([] @ [FlattenJSON ?p]) (kept_schema kept t (observe (new_schema src) (FlattenJSON ?p) m ?n))"
    by (rule learned_observe [OF kept_idem learned_new]) simp
  moreover have "ready (train get upsert src m [q] s) src"
    using update_open(2) [OF assms(1), of ?p m ?n] assms(2)
    by (simp add: train_def case_prod_unfold)
  ultimately show ?case by (simp add: new_schema_def)
next
  case (snoc q pts)
  let ?s = "train get upsert src m pts s" and ?p = "fst q" and ?n = "snd q"
  let ?fl = "\<lambda>qs. map (\<lambda>q. FlattenJSON (fst q)) qs"
  obtain ps where r: "ready ?s src" and sv: "saved ?s src = Some ps"
    and l: "learned kept (?fl (take (max 1 (nat m)) pts)) ps"
    and k: "ps_IsLocked ps = (m \<le> int (length pts))"
    using snoc.IH by blast
  have t: "train get upsert src m (pts @ [q]) s = UpdateSchema get upsert src ?p m ?n ?s"
    by (simp add: train_def case_prod_unfold)
  show ?case
  proof (cases "ps_IsLocked ps")
    case True
    then have len: "max 1 (nat m) \<le> length pts" using k snoc.hyps by (cases pts) auto
    with update_locked [OF r sv True, of ?p m ?n] l k True sv show ?thesis
      by (simp add: t)
  next
    case False
    then have len: "length pts < max 1 (nat m)" using k by auto
    obtain t' where "saved (UpdateSchema get upsert src ?p m ?n ?s)
        = (saved ?s)(src \<mapsto> kept_schema kept t' (observe ps (FlattenJSON ?p) m ?n))"
      and "ready (UpdateSchema get upsert src ?p m ?n ?s) src"
      using update_open [OF r, of ?p m ?n] sv False by auto
    moreover have "learned kept (?fl pts @ [FlattenJSON ?p]) (kept_schema kept t' (observe ps (FlattenJSON ?p) m ?n))"
      using l len by (intro learned_observe kept_idem) simp_all
    moreover have "ps_SampleCount ps = int (length pts)" using l len by (simp add: learned_def)
    ultimately show ?thesis using len False by (simp add: t add.commute)
  qed
qed

end

text \<open>The contract of \<open>DriftStore\<close>: a schema store that also records drift events.\<close>

definition drift_key :: "DriftEvent \<Rightarrow> string \<times> string \<times> string \<times> string \<times> string \<times> string" where
  "drift_key d = (dr_EventID d, dr_SourceID d, dr_DriftType d, dr_FieldName d, dr_ExpectedType d,
     dr_ActualType d)"

locale drift_store = schema_store get upsert saved ready kept
  for get :: "string \<Rightarrow> 's \<Rightarrow> ('e + PayloadSchema) \<times> 's"
    and upsert :: "PayloadSchema \<Rightarrow> 's \<Rightarrow> 'r \<times> 's"
    and saved :: "'s \<Rightarrow> string \<Rightarrow> PayloadSchema option"
    and ready :: "'s \<Rightarrow> string \<Rightarrow> bool"
    and kept :: "json \<Rightarrow> json" +
  fixes insert_drift :: "DriftEvent \<Rightarrow> 's \<Rightarrow> 'q \<times> 's"
    and recorded :: "'s \<Rightarrow> (string \<times> string \<times> string \<times> string \<times> string \<times> string) list"
  assumes insert_saved: "saved (snd (insert_drift d s)) = saved s"
    and insert_ready: "ready s src \<Longrightarrow> ready (snd (insert_drift d s)) src"
    and insert_recorded: "ready s (dr_SourceID d) \<Longrightarrow>
      recorded (snd (insert_drift d s)) = recorded s @ [drift_key d]"
    and get_recorded: "recorded (snd (get x s)) = recorded s"
begin

lemma record_all:
  assumes "ready s src" "\<forall>d \<in> set ds. dr_SourceID d = src"
  shows "recorded (fold (\<lambda>d st. snd (insert_drift d st)) ds s) = recorded s @ map drift_key ds
    \<and> saved (fold (\<lambda>d st. snd (insert_drift d st)) ds s) = saved s"
  using assms
  by (induction ds arbitrary: s) (auto simp: insert_recorded insert_saved insert_ready)

lemma drifts_source: "d \<in> set (find_drifts src ev now flat flds) \<Longrightarrow> dr_SourceID d = src"
  by (auto simp: find_drifts_def missing_drifts_def value_drift_def Let_def
      split: option.splits if_splits)

text \<open>Every drift reported on a locked schema is recorded, and the schema is left alone.\<close>

lemma check_locked:
  assumes "ready s src" "saved s src = Some ps" "ps_IsLocked ps"
    and ds: "ds = find_drifts src ev now (FlattenJSON p) (ps_Fields ps)"
  shows "fst (CheckDrift get insert_drift src ev p now s) = ds
    \<and> recorded (snd (CheckDrift get insert_drift src ev p now s)) = recorded s @ map drift_key ds
    \<and> saved (snd (CheckDrift get insert_drift src ev p now s)) = saved s"
proof -
  obtain s1 where g: "get src s = (Inr ps, s1)"
    using get_present [OF assms(1,2)] by (cases "get src s") auto
  then have s1: "saved s1 = saved s" "recorded s1 = recorded s" "ready s1 src"
    using get_saved [of src s] get_recorded [of src s] get_ready [OF assms(1), of src] by auto
  have "\<forall>d \<in> set ds. dr_SourceID d = src" by (auto simp: ds dest: drifts_source)
  from record_all [OF s1(3) this] show ?thesis
    using assms(3) by (simp add: CheckDrift_def g ds Let_def s1)
qed

text \<open>After training, a payload of the training set shows no missing and no new field.\<close>

lemma trained_drifts:
  assumes "ready s src" "saved s src = None" "pts \<noteq> []" "m \<le> int (length pts)"
    and "p \<in> fst ` set (take (max 1 (nat m)) pts)"
    and "d \<in> set (fst (CheckDrift get insert_drift src ev p now (train get upsert src m pts s)))"
  shows "dr_DriftType d = ''TYPE_CHANGED''"
proof -
  obtain ps where "ready (train get upsert src m pts s) src"
    "saved (train get upsert src m pts s) src = Some ps" "ps_IsLocked ps"
    and l: "learned kept (map (\<lambda>q. FlattenJSON (fst q)) (take (max 1 (nat m)) pts)) ps"
    using train_learns [OF assms(1-3)] assms(4) by auto
  with check_locked [OF _ _ _ refl] assms(6)
  have d: "d \<in> set (find_drifts src ev now (FlattenJSON p) (ps_Fields ps))"
    by metis
  show ?thesis by (rule learned_drifts [OF l _ d]) (use assms(5) in auto)
qed

end

end
