(* ===== verification/Models.thy ===== *)
theory Models
  imports Json
begin

text \<open>
  \<open>internal/models\<close>: the records that travel through the pipeline, and what the JSON text of an
  event preserves. Instants are nanoseconds since the Unix epoch.
\<close>

section \<open>Records\<close>

record WebhookEvent =
  ev_ID :: string
  ev_SourceID :: string
  ev_ReceivedAt :: int
  ev_RawBody :: bytes
  ev_Headers :: "string gomap"
  ev_FileURL :: string
  ev_FileStorePath :: string
  ev_ExtractedData :: "json gomap option"
  ev_ExtractionMs :: int
  ev_APIKeyOverride :: string
  ev_ProviderOverride :: string
  ev_ModelOverride :: string

record DeliveryAttempt =
  da_EventID :: string
  da_SourceID :: string
  da_DestinationID :: string
  da_AttemptNumber :: int
  da_AttemptedAt :: int
  da_StatusCode :: int
  da_Success :: bool
  da_ErrorMessage :: string
  da_DurationMs :: int

record Destination =
  dest_ID :: string
  dest_SourceID :: string
  dest_Name :: string
  dest_URL :: string
  dest_TimeoutSeconds :: int
  dest_IsActive :: bool
  dest_CreatedAt :: int

record DeadLetterEntry =
  dl_EventID :: string
  dl_SourceID :: string
  dl_DestinationID :: string
  dl_RawBody :: bytes
  dl_Headers :: "string gomap"
  dl_FailedAt :: int
  dl_FailureReason :: string
  dl_Resolved :: bool
  dl_ResolvedAt :: "int option"

record ExtractionRecord =
  er_EventID :: string
  er_SourceID :: string
  er_FileURL :: string
  er_MinIOPath :: string
  er_FileType :: string
  er_TemplateID :: string
  er_CacheHit :: bool
  er_ExtractedData :: "json gomap option"
  er_DurationMs :: int
  er_Success :: bool
  er_ErrorMessage :: string

record Template =
  tm_TemplateID :: string
  tm_SourceID :: string
  tm_FileType :: string
  tm_FieldPositionMap :: "json gomap option"
  tm_SampleEventID :: string
  tm_UseCount :: int

section \<open>Strings in JSON text\<close>

text \<open>
  \<open>json.Marshal\<close> replaces every byte that is not part of a valid UTF-8 encoding by the replacement
  character. \<open>rune_len\<close> is the length of the valid rune at the start of a string.
\<close>

definition byte_in :: "nat \<Rightarrow> nat \<Rightarrow> char \<Rightarrow> bool" where
  "byte_in lo hi c \<longleftrightarrow> lo \<le> of_char c \<and> of_char c \<le> hi"

fun rune_len :: "string \<Rightarrow> nat option" where
  "rune_len [] = None"
| "rune_len (b0 # s) =
    (let n = (of_char b0 :: nat) in
     if n < 0x80 then Some 1
     else if 0xC2 \<le> n \<and> n \<le> 0xDF then
       (case s of b1 # _ \<Rightarrow> if byte_in 0x80 0xBF b1 then Some 2 else None | _ \<Rightarrow> None)
     else if 0xE0 \<le> n \<and> n \<le> 0xEF then
       (case s of
          b1 # b2 # _ \<Rightarrow>
            if byte_in (if n = 0xE0 then 0xA0 else 0x80) (if n = 0xED then 0x9F else 0xBF) b1
               \<and> byte_in 0x80 0xBF b2 then Some 3 else None
        | _ \<Rightarrow> None)
     else if 0xF0 \<le> n \<and> n \<le> 0xF4 then
       (case s of
          b1 # b2 # b3 # _ \<Rightarrow>
            if byte_in (if n = 0xF0 then 0x90 else 0x80) (if n = 0xF4 then 0x8F else 0xBF) b1
               \<and> byte_in 0x80 0xBF b2 \<and> byte_in 0x80 0xBF b3 then Some 4 else None
        | _ \<Rightarrow> None)
     else None)"

definition replacement :: string where
  "replacement = [CHR 0xEF, CHR 0xBF, CHR 0xBD]"

fun valid_utf8_fuel :: "nat \<Rightarrow> string \<Rightarrow> string" where
  "valid_utf8_fuel 0 s = []"
| "valid_utf8_fuel (Suc n) s =
    (case s of
       [] \<Rightarrow> []
     | c # cs \<Rightarrow>
         (case rune_len s of
            Some k \<Rightarrow> take k s @ valid_utf8_fuel n (drop k s)
          | None \<Rightarrow> replacement @ valid_utf8_fuel n cs))"

text \<open>Every round consumes at least one byte, so as many rounds as there are bytes suffice.\<close>

definition to_valid :: "string \<Rightarrow> string" where
  "to_valid s = valid_utf8_fuel (length s) s"

definition ascii :: "string \<Rightarrow> bool" where
  "ascii s \<longleftrightarrow> list_all (\<lambda>c. (of_char c :: nat) < 0x80) s"

lemma to_valid_fuel_ascii: "ascii s \<Longrightarrow> length s \<le> n \<Longrightarrow> valid_utf8_fuel n s = s"
  by (induction n arbitrary: s) (auto simp: ascii_def split: list.splits)

lemma to_valid_ascii [simp]: "ascii s \<Longrightarrow> to_valid s = s"
  by (simp add: to_valid_def to_valid_fuel_ascii)

lemma rune_len_take:
  "rune_len s = Some k \<Longrightarrow> 0 < k \<and> k \<le> length s \<and> rune_len (take k s @ r) = Some k"
  by (cases s; cases "tl s"; cases "tl (tl s)"; cases "tl (tl (tl s))")
     (auto simp: Let_def byte_in_def split: if_splits)

lemma rune_len_replacement: "rune_len (replacement @ r) = Some 3"
  by (simp add: replacement_def byte_in_def)

lemma valid_fuel_Nil [simp]: "valid_utf8_fuel n [] = []"
  by (cases n) simp_all

lemma valid_fuel_idem:
  "length s \<le> n \<Longrightarrow> length (valid_utf8_fuel n s) \<le> m
    \<Longrightarrow> valid_utf8_fuel m (valid_utf8_fuel n s) = valid_utf8_fuel n s"
proof (induction n arbitrary: s m)
  case (Suc n)
  have step: "valid_utf8_fuel m (u @ valid_utf8_fuel n d) = u @ valid_utf8_fuel n d"
    if r: "rune_len (u @ valid_utf8_fuel n d) = Some (length u)" and u: "u \<noteq> []"
      and d: "length d \<le> n" and m: "length (u @ valid_utf8_fuel n d) \<le> m" for u d
  proof -
    obtain m' where m': "m = Suc m'" using u m by (cases m) auto
    have "valid_utf8_fuel m' (valid_utf8_fuel n d) = valid_utf8_fuel n d"
      using d m u by (intro Suc.IH) (auto simp: m' neq_Nil_conv)
    moreover obtain c cs where u': "u @ valid_utf8_fuel n d = c # cs" using u by (cases u) auto
    from u' have "valid_utf8_fuel m (u @ valid_utf8_fuel n d) = take (length u) (u @ valid_utf8_fuel n d)
        @ valid_utf8_fuel m' (drop (length u) (u @ valid_utf8_fuel n d))"
      using r by (simp add: m' del: rune_len.simps)
    ultimately show ?thesis by simp
  qed
  show ?case
  proof (cases s)
    case (Cons c cs)
    show ?thesis
    proof (cases "rune_len s")
      case None
      then have "valid_utf8_fuel (Suc n) s = replacement @ valid_utf8_fuel n cs" by (simp add: Cons)
      with Suc.prems show ?thesis
        using step [of replacement cs] rune_len_replacement
        by (simp add: Cons replacement_def del: valid_utf8_fuel.simps)
    next
      case (Some k)
      then have e: "valid_utf8_fuel (Suc n) s = take k s @ valid_utf8_fuel n (drop k s)" by (simp add: Cons)
      have k: "0 < k" "k \<le> length s" using rune_len_take [OF Some] by auto
      then have "take k s \<noteq> []" "length (take k s) = k" "length (drop k s) \<le> n"
        using Suc.prems by auto
      with step [of "take k s" "drop k s"] rune_len_take [OF Some, of "valid_utf8_fuel n (drop k s)"] Suc.prems
      show ?thesis by (simp only: e simp_thms)
    qed
  qed simp
qed simp

lemma to_valid_idem [simp]: "to_valid (to_valid s) = to_valid s"
  unfolding to_valid_def by (rule valid_fuel_idem) simp_all

text \<open>
  What a map with string keys becomes: its keys are written in order, and reading them back the last
  of equal keys wins.
\<close>

definition wire_map :: "string gomap \<Rightarrow> string gomap" where
  "wire_map m = fold (\<lambda>p. gm_set (to_valid (fst p)) (to_valid (snd p))) (sort_key fst m) []"

fun wire_json :: "json \<Rightarrow> json" where
  "wire_json (JStr s) = JStr (to_valid s)"
| "wire_json (JArr xs) = JArr (map wire_json xs)"
| "wire_json (JObj m) =
    JObj (fold (\<lambda>p. gm_set (fst p) (snd p))
            (map snd (sort_key fst (map (\<lambda>p. (fst p, (to_valid (fst p), wire_json (snd p)))) m))) [])"
| "wire_json v = v"

text \<open>The event a consumer reads when a producer wrote \<open>e\<close>; an empty \<open>extracted_data\<close> is omitted.\<close>

definition wire :: "WebhookEvent \<Rightarrow> WebhookEvent" where
  "wire e =
    e\<lparr>ev_ID := to_valid (ev_ID e), ev_SourceID := to_valid (ev_SourceID e),
      ev_Headers := wire_map (ev_Headers e), ev_FileURL := to_valid (ev_FileURL e),
      ev_FileStorePath := to_valid (ev_FileStorePath e),
      ev_ExtractedData :=
        (case ev_ExtractedData e of
           None \<Rightarrow> None
         | Some [] \<Rightarrow> None
         | Some m \<Rightarrow> (case wire_json (JObj m) of JObj m' \<Rightarrow> Some m' | _ \<Rightarrow> None)),
      ev_APIKeyOverride := to_valid (ev_APIKeyOverride e),
      ev_ProviderOverride := to_valid (ev_ProviderOverride e),
      ev_ModelOverride := to_valid (ev_ModelOverride e)\<rparr>"

lemma wire_RawBody [simp]: "ev_RawBody (wire e) = ev_RawBody e"
  by (simp add: wire_def)

lemma wire_ReceivedAt [simp]: "ev_ReceivedAt (wire e) = ev_ReceivedAt e"
  by (simp add: wire_def)

lemma wire_ID: "ascii (ev_ID e) \<Longrightarrow> ev_ID (wire e) = ev_ID e"
  by (simp add: wire_def)

text \<open>An event of ASCII strings, with headers in the order of their keys, survives unchanged.\<close>

definition plain_event :: "WebhookEvent \<Rightarrow> bool" where
  "plain_event e \<longleftrightarrow>
    list_all ascii [ev_ID e, ev_SourceID e, ev_FileURL e, ev_FileStorePath e, ev_APIKeyOverride e,
      ev_ProviderOverride e, ev_ModelOverride e]
    \<and> sorted (gm_keys (ev_Headers e)) \<and> distinct (gm_keys (ev_Headers e))
    \<and> list_all (\<lambda>p. ascii (fst p) \<and> ascii (snd p)) (ev_Headers e)
    \<and> ev_ExtractedData e = None"

lemma fold_set_distinct:
  "distinct (map fst m) \<Longrightarrow> fst ` set m \<inter> fst ` set r = {}
    \<Longrightarrow> fold (\<lambda>p. gm_set (fst p) (snd p)) m r = r @ m"
proof (induction m arbitrary: r)
  case (Cons p m)
  have u: "gm_set k v xs = xs @ [(k, v)]" if "k \<notin> fst ` set xs" for k and v :: 'a and xs
    using that by (induction xs) auto
  from Cons.prems have "gm_set (fst p) (snd p) r = r @ [p]" using u [of "fst p" r "snd p"] by auto
  with Cons show ?case by auto
qed simp

lemma wire_plain:
  assumes "plain_event e"
  shows "wire e = e"
proof -
  let ?h = "ev_Headers e"
  have s: "sort_key fst ?h = ?h" using assms by (simp add: plain_event_def sort_key_id_if_sorted)
  have "fold (\<lambda>p. gm_set (to_valid (fst p)) (to_valid (snd p))) ?h []
      = fold (\<lambda>p. gm_set (fst p) (snd p)) ?h []"
    using assms by (intro fold_cong) (auto simp: plain_event_def list_all_iff)
  also have "\<dots> = ?h"
    using assms fold_set_distinct [of ?h "[]"] by (simp add: plain_event_def)
  finally have "wire_map ?h = ?h" by (simp add: wire_map_def s)
  with assms show ?thesis by (simp add: wire_def plain_event_def)
qed

end
