(* ===== verification/Store.thy ===== *)
theory Store
  imports Models Schema
begin

text \<open>
  \<open>internal/store\<close>: the tables of \<open>migrations/postgres\<close> and the queries of \<open>postgres.go\<close>, one
  definition per query, and the table \<open>webhook_events\<close> behind \<open>scylla.go\<close>. A query either fails, as
  the script \<open>pg_faults\<close> decides (a lost connection, a cancelled context, a value the column
  rejects), or has the effect that its SQL states. Rows are listed in an order that SQL leaves open,
  so a property of every table holds for every order. \<open>NOW()\<close> reads \<open>pg_now\<close>; generated ids are
  drawn from \<open>pg_fresh\<close>.
\<close>

section \<open>Tables\<close>

record SourceRow =
  so_ID :: string
  so_Secret :: "string option"

record RoutingRule =
  rr_ID :: string
  rr_SourceID :: string
  rr_DestinationID :: string
  rr_Name :: string
  rr_Priority :: int
  rr_LogicOperator :: string
  rr_Conditions :: bytes
  rr_IsActive :: bool

record WebhookDiff =
  wd_EventID :: string
  wd_SourceID :: string
  wd_PrevEventID :: string
  wd_DiffData :: bytes

record ReplaySession =
  rs_ID :: string
  rs_SourceID :: string
  rs_DestinationURL :: string
  rs_FromTimestamp :: int
  rs_ToTimestamp :: "int option"
  rs_Status :: string
  rs_EventsReplayed :: int
  rs_EventsTotal :: "int option"
  rs_StartedAt :: int
  rs_CompletedAt :: "int option"
  rs_InitiatedBy :: string

record pg =
  pg_sources :: "SourceRow list"
  pg_dests :: "(Destination \<times> bool) list"
  pg_attempts :: "DeliveryAttempt list"
  pg_dlq :: "DeadLetterEntry list"
  pg_extractions :: "ExtractionRecord list"
  pg_templates :: "Template list"
  pg_schemas :: "PayloadSchema list"
  pg_drifts :: "DriftEvent list"
  pg_diffs :: "WebhookDiff list"
  pg_rules :: "RoutingRule list"
  pg_sessions :: "ReplaySession list"
  pg_now :: int
  pg_fresh :: "string list"
  pg_faults :: "bool list"

datatype pg_error = QueryFailed | NoRows | ForeignKey | EmptyID

type_synonym 'a query = "(pg_error + 'a) \<times> pg"
type_synonym exec = "pg_error option \<times> pg"

text \<open>A statement uses up the head of the script, which says whether it fails.\<close>

definition pg_tick :: "pg \<Rightarrow> pg" where
  "pg_tick s = s\<lparr>pg_faults := tl (pg_faults s)\<rparr>"

definition pg_fails :: "pg \<Rightarrow> bool" where
  "pg_fails s \<longleftrightarrow> pg_faults s \<noteq> [] \<and> hd (pg_faults s)"

definition pg_query :: "(pg \<Rightarrow> pg_error + 'a) \<Rightarrow> pg \<Rightarrow> 'a query" where
  "pg_query q s = (if pg_fails s then Inl QueryFailed else q s, pg_tick s)"

definition pg_exec :: "(pg \<Rightarrow> exec) \<Rightarrow> pg \<Rightarrow> exec" where
  "pg_exec u s = (if pg_fails s then (Some QueryFailed, pg_tick s) else u (pg_tick s))"

definition source_known :: "pg \<Rightarrow> string \<Rightarrow> bool" where
  "source_known s src \<longleftrightarrow> src \<in> set (map so_ID (pg_sources s))"

definition dest_known :: "pg \<Rightarrow> string \<Rightarrow> bool" where
  "dest_known s d \<longleftrightarrow> d \<in> set (map (\<lambda>p. dest_ID (fst p)) (pg_dests s))"

section \<open>Sources and destinations\<close>

definition EnsureSource :: "string \<Rightarrow> pg \<Rightarrow> exec" where
  "EnsureSource sourceID s =
    (if sourceID = [] then (Some EmptyID, s)
     else pg_exec (\<lambda>s.
       (None, if source_known s sourceID then s
              else s\<lparr>pg_sources := pg_sources s @ [\<lparr>so_ID = sourceID, so_Secret = None\<rparr>]\<rparr>)) s)"

definition GetSourceSigningSecret :: "string \<Rightarrow> pg \<Rightarrow> string query" where
  "GetSourceSigningSecret sourceID =
    pg_query (\<lambda>s.
      Inr (case find (\<lambda>r. so_ID r = sourceID) (pg_sources s) of
             None \<Rightarrow> []
           | Some r \<Rightarrow> (case so_Secret r of None \<Rightarrow> [] | Some x \<Rightarrow> x)))"

definition GetDestinationsBySourceID :: "string \<Rightarrow> pg \<Rightarrow> Destination list query" where
  "GetDestinationsBySourceID sourceID =
    pg_query (\<lambda>s. Inr (filter (\<lambda>d. dest_SourceID d = sourceID \<and> dest_IsActive d) (map fst (pg_dests s))))"

definition GetDefaultDestinations :: "string \<Rightarrow> pg \<Rightarrow> Destination list query" where
  "GetDefaultDestinations sourceID =
    pg_query (\<lambda>s. Inr (map fst (filter (\<lambda>(d, is_default).
      dest_SourceID d = sourceID \<and> dest_IsActive d \<and> is_default) (pg_dests s))))"

section \<open>Routing rules\<close>

definition GetRoutingRules :: "string \<Rightarrow> pg \<Rightarrow> RoutingRule list query" where
  "GetRoutingRules sourceID =
    pg_query (\<lambda>s. Inr (sort_key rr_Priority
      (filter (\<lambda>r. rr_SourceID r = sourceID \<and> rr_IsActive r) (pg_rules s))))"

definition CreateRoutingRule :: "RoutingRule \<Rightarrow> pg \<Rightarrow> string query" where
  "CreateRoutingRule r s =
    (let s1 = pg_tick s in
     if pg_fails s then (Inl QueryFailed, s1)
     else if \<not> source_known s1 (rr_SourceID r) \<or> \<not> dest_known s1 (rr_DestinationID r)
     then (Inl ForeignKey, s1)
     else case pg_fresh s1 of
            [] \<Rightarrow> (Inl QueryFailed, s1)
          | i # is \<Rightarrow>
              (Inr i, s1\<lparr>pg_rules := pg_rules s1 @ [r\<lparr>rr_ID := i, rr_IsActive := True\<rparr>],
                         pg_fresh := is\<rparr>))"

definition UpdateRoutingRule :: "string \<Rightarrow> RoutingRule \<Rightarrow> pg \<Rightarrow> exec" where
  "UpdateRoutingRule ruleID r =
    pg_exec (\<lambda>s. (None, s\<lparr>pg_rules :=
      map (\<lambda>x. if rr_ID x = ruleID
               then x\<lparr>rr_Name := rr_Name r, rr_Priority := rr_Priority r,
                      rr_LogicOperator := rr_LogicOperator r, rr_Conditions := rr_Conditions r,
                      rr_IsActive := rr_IsActive r\<rparr>
               else x) (pg_rules s)\<rparr>))"

definition DeleteRoutingRule :: "string \<Rightarrow> pg \<Rightarrow> exec" where
  "DeleteRoutingRule ruleID =
    pg_exec (\<lambda>s. (None, s\<lparr>pg_rules := filter (\<lambda>x. rr_ID x \<noteq> ruleID) (pg_rules s)\<rparr>))"

section \<open>Delivery\<close>

definition InsertDeliveryAttempt :: "DeliveryAttempt \<Rightarrow> pg \<Rightarrow> exec" where
  "InsertDeliveryAttempt a =
    pg_exec (\<lambda>s.
      if \<not> dest_known s (da_DestinationID a) then (Some ForeignKey, s)
      else (None, s\<lparr>pg_attempts := pg_attempts s @ [a]\<rparr>))"

definition InsertDeadLetterEntry :: "DeadLetterEntry \<Rightarrow> pg \<Rightarrow> exec" where
  "InsertDeadLetterEntry e =
    pg_exec (\<lambda>s.
      if \<not> dest_known s (dl_DestinationID e) then (Some ForeignKey, s)
      else (None, s\<lparr>pg_dlq := pg_dlq s @ [e\<lparr>dl_Resolved := False, dl_ResolvedAt := None\<rparr>]\<rparr>))"

record IncompleteDelivery =
  id_EventID :: string
  id_SourceID :: string
  id_DestinationID :: string
  id_AttemptNumber :: int
  id_LastAttemptAt :: int

text \<open>The rows that the \<open>WHERE\<close> of the query keeps; the last number of attempts is the literal 4.\<close>

definition incomplete_row :: "pg \<Rightarrow> DeliveryAttempt \<Rightarrow> bool" where
  "incomplete_row s a \<longleftrightarrow>
    \<not> da_Success a \<and> da_AttemptNumber a < 4
    \<and> da_EventID a \<notin> set (map da_EventID (filter da_Success (pg_attempts s)))
    \<and> da_EventID a \<notin> set (map dl_EventID (pg_dlq s))"

definition incomplete_of :: "DeliveryAttempt \<Rightarrow> IncompleteDelivery" where
  "incomplete_of a =
    \<lparr>id_EventID = da_EventID a, id_SourceID = da_SourceID a, id_DestinationID = da_DestinationID a,
     id_AttemptNumber = da_AttemptNumber a, id_LastAttemptAt = da_AttemptedAt a\<rparr>"

definition GetIncompleteDeliveries :: "pg \<Rightarrow> IncompleteDelivery list query" where
  "GetIncompleteDeliveries =
    pg_query (\<lambda>s. Inr
      (map incomplete_of
        (distinct_on (\<lambda>a. (da_EventID a, da_DestinationID a))
          (sort_key da_EventID (sort_key da_DestinationID (sort_key (\<lambda>a. - da_AttemptNumber a)
            (filter (incomplete_row s) (pg_attempts s))))))))"

definition GetPreviousEventID :: "string \<Rightarrow> string \<Rightarrow> pg \<Rightarrow> string query" where
  "GetPreviousEventID sourceID currentEventID =
    pg_query (\<lambda>s.
      case sort_key (\<lambda>a. - da_AttemptedAt a)
             (filter (\<lambda>a. da_SourceID a = sourceID \<and> da_Success a \<and> da_EventID a \<noteq> currentEventID)
               (pg_attempts s)) of
        [] \<Rightarrow> Inl NoRows
      | a # _ \<Rightarrow> Inr (da_EventID a))"

definition InsertWebhookDiff :: "string \<Rightarrow> string \<Rightarrow> string \<Rightarrow> bytes \<Rightarrow> pg \<Rightarrow> exec" where
  "InsertWebhookDiff eventID sourceID prevEventID diffData =
    pg_exec (\<lambda>s. (None, s\<lparr>pg_diffs := pg_diffs s
      @ [\<lparr>wd_EventID = eventID, wd_SourceID = sourceID, wd_PrevEventID = prevEventID,
           wd_DiffData = diffData\<rparr>]\<rparr>))"

text \<open>\<open>LIMIT\<close> and \<open>OFFSET\<close>, which must not be negative.\<close>

definition pg_page :: "int \<Rightarrow> int \<Rightarrow> 'a list \<Rightarrow> pg_error + 'a list" where
  "pg_page limit offset rows =
    (if limit < 0 \<or> offset < 0 then Inl QueryFailed else Inr (take (nat limit) (drop (nat offset) rows)))"

text \<open>The entries of the dead letter queue that an operator sees, and their resolution.\<close>

definition ListDLQEntries :: "string \<Rightarrow> int \<Rightarrow> int \<Rightarrow> pg \<Rightarrow> DeadLetterEntry list query" where
  "ListDLQEntries sourceID limit offset =
    pg_query (\<lambda>s. pg_page limit offset
        (sort_key (\<lambda>e. - dl_FailedAt e)
          (filter (\<lambda>e. \<not> dl_Resolved e \<and> (sourceID \<noteq> [] \<longrightarrow> dl_SourceID e = sourceID)) (pg_dlq s))))"

definition ResolveDLQEntry :: "string \<Rightarrow> pg \<Rightarrow> exec" where
  "ResolveDLQEntry eventID =
    pg_exec (\<lambda>s. (None, s\<lparr>pg_dlq :=
      map (\<lambda>e. if dl_EventID e = eventID \<and> \<not> dl_Resolved e
               then e\<lparr>dl_Resolved := True, dl_ResolvedAt := Some (pg_now s)\<rparr> else e) (pg_dlq s)\<rparr>))"

section \<open>Extraction\<close>

definition InsertExtractionRecord :: "ExtractionRecord \<Rightarrow> pg \<Rightarrow> exec" where
  "InsertExtractionRecord r =
    pg_exec (\<lambda>s. (None, s\<lparr>pg_extractions := pg_extractions s @ [r]\<rparr>))"

definition UpsertTemplate :: "Template \<Rightarrow> pg \<Rightarrow> exec" where
  "UpsertTemplate t =
    pg_exec (\<lambda>s. (None, s\<lparr>pg_templates :=
      (if tm_TemplateID t \<in> set (map tm_TemplateID (pg_templates s))
       then map (\<lambda>x. if tm_TemplateID x = tm_TemplateID t then x\<lparr>tm_UseCount := tm_UseCount x + 1\<rparr> else x)
              (pg_templates s)
       else pg_templates s @ [t\<lparr>tm_UseCount := 1\<rparr>])\<rparr>))"

definition GetTemplate :: "string \<Rightarrow> pg \<Rightarrow> Template query" where
  "GetTemplate templateID =
    pg_query (\<lambda>s. case find (\<lambda>t. tm_TemplateID t = templateID) (pg_templates s) of
                    None \<Rightarrow> Inl NoRows | Some t \<Rightarrow> Inr t)"

section \<open>Schemas and drift\<close>

text \<open>The examples of a field after a trip through the column \<open>schema_data\<close>.\<close>

definition stored_example :: "json \<Rightarrow> json" where
  "stored_example v = (case v of JStr s \<Rightarrow> JStr (to_valid s) | _ \<Rightarrow> v)"

definition GetPayloadSchema :: "string \<Rightarrow> pg \<Rightarrow> PayloadSchema query" where
  "GetPayloadSchema sourceID =
    pg_query (\<lambda>s. case find (\<lambda>ps. ps_SourceID ps = sourceID) (pg_schemas s) of
                    None \<Rightarrow> Inl NoRows | Some ps \<Rightarrow> Inr ps)"

definition UpsertPayloadSchema :: "PayloadSchema \<Rightarrow> pg \<Rightarrow> exec" where
  "UpsertPayloadSchema ps =
    pg_exec (\<lambda>s.
      if \<not> source_known s (ps_SourceID ps) then (Some ForeignKey, s)
      else let row = kept_schema stored_example (pg_now s) ps in
        (None, s\<lparr>pg_schemas :=
          (if ps_SourceID ps \<in> set (map ps_SourceID (pg_schemas s))
           then map (\<lambda>x. if ps_SourceID x = ps_SourceID ps then row else x) (pg_schemas s)
           else pg_schemas s @ [row])\<rparr>))"

definition InsertDriftEvent :: "DriftEvent \<Rightarrow> pg \<Rightarrow> exec" where
  "InsertDriftEvent d =
    pg_exec (\<lambda>s.
      if \<not> source_known s (dr_SourceID d) then (Some ForeignKey, s)
      else (None, s\<lparr>pg_drifts := pg_drifts s @ [d\<lparr>dr_DetectedAt := pg_now s\<rparr>]\<rparr>))"

definition GetDriftEvents :: "string \<Rightarrow> int \<Rightarrow> pg \<Rightarrow> DriftEvent list query" where
  "GetDriftEvents sourceID limit =
    pg_query (\<lambda>s. pg_page limit 0 (sort_key (\<lambda>d. - dr_DetectedAt d)
      (filter (\<lambda>d. dr_SourceID d = sourceID) (pg_drifts s))))"

section \<open>The event archive\<close>

text \<open>
  \<open>webhook_events\<close> has the primary key (source, time of receipt, event): writing a row with the same
  key replaces it. A timestamp column holds milliseconds. \<open>parse_uuid\<close> is \<open>gocql.ParseUUID\<close>
  followed by the canonical spelling.
\<close>

record ArchiveRow =
  ar_SourceID :: string
  ar_ReceivedAt :: int
  ar_EventID :: string
  ar_RawBody :: bytes
  ar_Headers :: "string gomap"

record scylla =
  sc_rows :: "ArchiveRow list"
  sc_faults :: "bool list"

definition sc_tick :: "scylla \<Rightarrow> scylla" where
  "sc_tick s = s\<lparr>sc_faults := tl (sc_faults s)\<rparr>"

definition sc_fails :: "scylla \<Rightarrow> bool" where
  "sc_fails s \<longleftrightarrow> sc_faults s \<noteq> [] \<and> hd (sc_faults s)"

definition millis :: "int \<Rightarrow> int" where
  "millis t = t div 1000000 * 1000000"

definition InsertEvent :: "(string \<Rightarrow> string option) \<Rightarrow> WebhookEvent \<Rightarrow> scylla \<Rightarrow> bool \<times> scylla" where
  "InsertEvent parse_uuid e s =
    (case parse_uuid (ev_ID e) of
       None \<Rightarrow> (False, s)
     | Some u \<Rightarrow>
         if sc_fails s then (False, sc_tick s)
         else let row = \<lparr>ar_SourceID = ev_SourceID e, ar_ReceivedAt = millis (ev_ReceivedAt e),
                         ar_EventID = u, ar_RawBody = ev_RawBody e, ar_Headers = ev_Headers e\<rparr> in
           (True, (sc_tick s)\<lparr>sc_rows :=
             filter (\<lambda>r. \<not> (ar_SourceID r = ar_SourceID row \<and> ar_ReceivedAt r = ar_ReceivedAt row
                           \<and> ar_EventID r = ar_EventID row)) (sc_rows s) @ [row]\<rparr>))"

definition archived_event :: "string \<Rightarrow> ArchiveRow \<Rightarrow> WebhookEvent" where
  "archived_event i r =
    \<lparr>ev_ID = i, ev_SourceID = ar_SourceID r, ev_ReceivedAt = ar_ReceivedAt r,
     ev_RawBody = ar_RawBody r, ev_Headers = ar_Headers r, ev_FileURL = [], ev_FileStorePath = [],
     ev_ExtractedData = None, ev_ExtractionMs = 0, ev_APIKeyOverride = [], ev_ProviderOverride = [],
     ev_ModelOverride = []\<rparr>"

text \<open>Rows of one partition are stored newest first, events of one instant by their id.\<close>

definition partition :: "string \<Rightarrow> scylla \<Rightarrow> ArchiveRow list" where
  "partition sourceID s =
    sort_key (\<lambda>r. - ar_ReceivedAt r) (sort_key ar_EventID
      (filter (\<lambda>r. ar_SourceID r = sourceID) (sc_rows s)))"

definition GetEvent ::
    "(string \<Rightarrow> string option) \<Rightarrow> string \<Rightarrow> string \<Rightarrow> scylla \<Rightarrow> WebhookEvent option \<times> scylla" where
  "GetEvent parse_uuid sourceID eventID s =
    (case parse_uuid eventID of
       None \<Rightarrow> (None, s)
     | Some u \<Rightarrow>
         (if sc_fails s then None
          else map_option (archived_event eventID) (find (\<lambda>r. ar_EventID r = u) (partition sourceID s)),
          sc_tick s))"

definition GetEventsBySourceSince :: "string \<Rightarrow> int \<Rightarrow> scylla \<Rightarrow> WebhookEvent list option \<times> scylla" where
  "GetEventsBySourceSince sourceID since s =
    (if sc_fails s then None
     else Some (map (\<lambda>r. archived_event (ar_EventID r) r)
            (filter (\<lambda>r. millis since \<le> ar_ReceivedAt r) (partition sourceID s))),
     sc_tick s)"

section \<open>The effect of a statement\<close>

text \<open>The database answers every statement of a run.\<close>

definition pg_up :: "pg \<Rightarrow> bool" where
  "pg_up s \<longleftrightarrow> True \<notin> set (pg_faults s)"

lemma pg_tick_simps [simp]:
  "pg_sources (pg_tick s) = pg_sources s" "pg_dests (pg_tick s) = pg_dests s"
  "pg_attempts (pg_tick s) = pg_attempts s" "pg_dlq (pg_tick s) = pg_dlq s"
  "pg_extractions (pg_tick s) = pg_extractions s" "pg_templates (pg_tick s) = pg_templates s"
  "pg_schemas (pg_tick s) = pg_schemas s" "pg_drifts (pg_tick s) = pg_drifts s"
  "pg_diffs (pg_tick s) = pg_diffs s" "pg_rules (pg_tick s) = pg_rules s"
  "pg_sessions (pg_tick s) = pg_sessions s" "pg_now (pg_tick s) = pg_now s" "pg_fresh (pg_tick s) = pg_fresh s"
  "source_known (pg_tick s) = source_known s" "dest_known (pg_tick s) = dest_known s"
  by (simp_all add: pg_tick_def source_known_def dest_known_def fun_eq_iff)

lemma pg_up_tick [simp]: "pg_up s \<Longrightarrow> pg_up (pg_tick s)"
  by (cases "pg_faults s") (simp_all add: pg_up_def pg_tick_def)

lemma pg_up_fails [simp]: "pg_up s \<Longrightarrow> \<not> pg_fails s"
  by (cases "pg_faults s") (auto simp: pg_up_def pg_fails_def)

lemma pg_up_other [simp]:
  "pg_up (s\<lparr>pg_schemas := a\<rparr>) = pg_up s" "pg_up (s\<lparr>pg_drifts := b\<rparr>) = pg_up s"
  "pg_up (s\<lparr>pg_attempts := c\<rparr>) = pg_up s" "pg_up (s\<lparr>pg_dlq := d\<rparr>) = pg_up s"
  "pg_up (s\<lparr>pg_extractions := e\<rparr>) = pg_up s" "pg_up (s\<lparr>pg_templates := f\<rparr>) = pg_up s"
  "pg_up (s\<lparr>pg_diffs := g\<rparr>) = pg_up s" "pg_up (s\<lparr>pg_sessions := h\<rparr>) = pg_up s"
  by (simp_all add: pg_up_def)

lemma known_other [simp]:
  "source_known (s\<lparr>pg_schemas := a\<rparr>) = source_known s" "source_known (s\<lparr>pg_drifts := b\<rparr>) = source_known s"
  "dest_known (s\<lparr>pg_attempts := c\<rparr>) = dest_known s" "dest_known (s\<lparr>pg_dlq := d\<rparr>) = dest_known s"
  by (simp_all add: source_known_def dest_known_def fun_eq_iff)

lemma pg_query_up [simp]: "pg_up s \<Longrightarrow> pg_query q s = (q s, pg_tick s)"
  by (simp add: pg_query_def)

lemma pg_exec_up [simp]: "pg_up s \<Longrightarrow> pg_exec u s = u (pg_tick s)"
  by (simp add: pg_exec_def)

lemma pg_query_state [simp]: "snd (pg_query q s) = pg_tick s"
  by (simp add: pg_query_def)

section \<open>Postgres as a schema store\<close>

definition saved_schema :: "pg \<Rightarrow> string \<Rightarrow> PayloadSchema option" where
  "saved_schema s src = find (\<lambda>ps. ps_SourceID ps = src) (pg_schemas s)"

definition store_ready :: "pg \<Rightarrow> string \<Rightarrow> bool" where
  "store_ready s src \<longleftrightarrow> pg_up s \<and> source_known s src"

definition recorded_drifts :: "pg \<Rightarrow> (string \<times> string \<times> string \<times> string \<times> string \<times> string) list" where
  "recorded_drifts s = map drift_key (pg_drifts s)"

lemma GetPayloadSchema_up:
  "pg_up s \<Longrightarrow> GetPayloadSchema src s
    = (case saved_schema s src of None \<Rightarrow> Inl NoRows | Some ps \<Rightarrow> Inr ps, pg_tick s)"
  by (simp add: GetPayloadSchema_def saved_schema_def)

lemma stored_example_idem: "stored_example (stored_example v) = stored_example v"
  by (simp add: stored_example_def split: json.splits)

lemma saved_simps [simp]:
  "saved_schema (pg_tick s) = saved_schema s" "saved_schema (s\<lparr>pg_drifts := d\<rparr>) = saved_schema s"
  by (simp_all add: saved_schema_def fun_eq_iff)

lemma UpsertPayloadSchema_saved:
  assumes "store_ready s (ps_SourceID ps)"
  shows "saved_schema (snd (UpsertPayloadSchema ps s))
    = (saved_schema s)(ps_SourceID ps \<mapsto> kept_schema stored_example (pg_now s) ps)"
  using assms
  by (auto simp: UpsertPayloadSchema_def store_ready_def Let_def saved_schema_def fun_eq_iff
      find_map_row find_append find_None_notin split: option.splits)

lemma drift_key_time [simp]: "drift_key (d\<lparr>dr_DetectedAt := t\<rparr>) = drift_key d"
  by (simp add: drift_key_def)

lemma InsertDriftEvent_saved: "saved_schema (snd (InsertDriftEvent d s)) = saved_schema s"
  by (simp add: InsertDriftEvent_def pg_exec_def)

interpretation pgs: drift_store GetPayloadSchema UpsertPayloadSchema saved_schema store_ready
  stored_example InsertDriftEvent recorded_drifts
proof
  fix s src ps x
  show "stored_example (stored_example v) = stored_example v" for v by (rule stored_example_idem)
  show "store_ready s src \<Longrightarrow> saved_schema s src = None \<Longrightarrow> isl (fst (GetPayloadSchema src s))"
    by (simp add: GetPayloadSchema_up store_ready_def)
  show "store_ready s src \<Longrightarrow> saved_schema s src = Some ps \<Longrightarrow> fst (GetPayloadSchema src s) = Inr ps"
    by (simp add: GetPayloadSchema_up store_ready_def)
  show "saved_schema (snd (GetPayloadSchema x s)) = saved_schema s"
    by (simp add: GetPayloadSchema_def)
  show "store_ready s src \<Longrightarrow> store_ready (snd (GetPayloadSchema x s)) src"
    by (simp add: GetPayloadSchema_def store_ready_def)
  show "store_ready s (ps_SourceID ps) \<Longrightarrow> \<exists>t. saved_schema (snd (UpsertPayloadSchema ps s))
      = (saved_schema s)(ps_SourceID ps \<mapsto> kept_schema stored_example t ps)"
    using UpsertPayloadSchema_saved by blast
  show "store_ready s src \<Longrightarrow> store_ready (snd (UpsertPayloadSchema ps s)) src"
    by (simp add: UpsertPayloadSchema_def store_ready_def Let_def)
  show "saved_schema s src = Some ps \<Longrightarrow> ps_SourceID ps = src"
    by (auto simp: saved_schema_def dest: find_SomeD)
  show "recorded_drifts (snd (GetPayloadSchema x s)) = recorded_drifts s"
    by (simp add: GetPayloadSchema_def recorded_drifts_def)
qed (simp_all add: InsertDriftEvent_saved,
     simp_all add: InsertDriftEvent_def store_ready_def recorded_drifts_def)

text \<open>A database in which one source is registered.\<close>

definition fresh_pg :: "string \<Rightarrow> pg" where
  "fresh_pg src =
    \<lparr>pg_sources = [\<lparr>so_ID = src, so_Secret = None\<rparr>], pg_dests = [], pg_attempts = [], pg_dlq = [],
     pg_extractions = [], pg_templates = [], pg_schemas = [], pg_drifts = [], pg_diffs = [],
     pg_rules = [], pg_sessions = [], pg_now = 0, pg_fresh = [], pg_faults = []\<rparr>"

lemma fresh_pg_simps [simp]:
  "pg_up (fresh_pg src)" "source_known (fresh_pg src) src" "saved_schema (fresh_pg src) x = None"
  "pg_attempts (fresh_pg src) = []" "pg_dlq (fresh_pg src) = []" "pg_dests (fresh_pg src) = []"
  "pg_schemas (fresh_pg src) = []" "pg_faults (fresh_pg src) = []"
  by (simp_all add: fresh_pg_def pg_up_def source_known_def saved_schema_def)

text \<open>
  C19: inference through Postgres. A registered source without a schema that receives payloads one
  after the other, with the database answering every query, ends with the schema that \<open>schema_of\<close>
  specifies from the payloads up to the lock; the schema is locked once \<open>minSamples\<close> payloads have
  been seen, and later payloads leave it alone.
\<close>

theorem inference_through_postgres:
  assumes "pg_up s" "source_known s src" "saved_schema s src = None" "pts \<noteq> []"
  shows "\<exists>ps. saved_schema (train GetPayloadSchema UpsertPayloadSchema src m pts s) src = Some ps
    \<and> learned stored_example (map (\<lambda>q. FlattenJSON (fst q)) (take (max 1 (nat m)) pts)) ps
    \<and> ps_IsLocked ps = (m \<le> int (length pts))"
  using pgs.train_learns [of s src pts m] assms by (auto simp: store_ready_def)

theorem inference_through_postgres_witness:
  "\<exists>ps. saved_schema (train GetPayloadSchema UpsertPayloadSchema ''s'' 1 [([(''a'', JBool True)], 5)]
         (fresh_pg ''s'')) ''s'' = Some ps
    \<and> learned stored_example [FlattenJSON [(''a'', JBool True)]] ps \<and> ps_IsLocked ps"
  using inference_through_postgres [of "fresh_pg ''s''" "''s''" "[([(''a'', JBool True)], 5)]" 1] by simp

text \<open>
  After training, a payload that the schema was learned from is never reported with a missing or
  a new field: the only drift it can show is a changed type (the schema keeps the last type seen).
\<close>

theorem trained_payload_drifts:
  assumes "pg_up s" "source_known s src" "saved_schema s src = None" "pts \<noteq> []"
    and "m \<le> int (length pts)" "p \<in> fst ` set (take (max 1 (nat m)) pts)"
    and "d \<in> set (fst (CheckDrift GetPayloadSchema InsertDriftEvent src ev p now
           (train GetPayloadSchema UpsertPayloadSchema src m pts s)))"
  shows "dr_DriftType d = ''TYPE_CHANGED''"
  by (rule pgs.trained_drifts [of s src pts m p d ev now]) (use assms in \<open>auto simp: store_ready_def\<close>)

theorem trained_payload_drifts_witness:
  "dr_DriftType ` set (fst (CheckDrift GetPayloadSchema InsertDriftEvent ''s'' ''e'' [(''a'', JBool True)] 7
      (train GetPayloadSchema UpsertPayloadSchema ''s'' 2
        [([(''a'', JBool True)], 5), ([(''a'', JNum 1)], 6)] (fresh_pg ''s'')))) \<subseteq> {''TYPE_CHANGED''}"
  using trained_payload_drifts [of "fresh_pg ''s''" "''s''"
      "[([(''a'', JBool True)], 5), ([(''a'', JNum 1)], 6)]" 2 "[(''a'', JBool True)]"]
  by auto

text \<open>
  C20: drift detection on a locked schema. It reports one drift for each field that departs from the
  schema, with the event, the source and the time, and no others: FIELD_MISSING for a field that is always
  there and is not in the payload, NEW_FIELD for one that the schema does not know, TYPE_CHANGED for one
  whose value is not null and of another type, each with the types expected and found. It reports none
  exactly when the payload conforms, records each drift once, and leaves the schema as it is.
\<close>

theorem drift_detection:
  assumes "pg_up s" "source_known s src" "saved_schema s src = Some ps" "ps_IsLocked ps"
    and "gm_ok (ps_Fields ps)"
    and run: "CheckDrift GetPayloadSchema InsertDriftEvent src ev p now s = (ds, s')"
  shows "(\<forall>d. d \<in> set ds \<longleftrightarrow>
      departure (FlattenJSON p) (ps_Fields ps) (dr_FieldName d) = Some (dr_DriftType d, dr_ExpectedType d, dr_ActualType d)
      \<and> dr_EventID d = ev \<and> dr_SourceID d = src \<and> dr_DetectedAt d = now)
    \<and> (ds = [] \<longleftrightarrow> conforms (FlattenJSON p) (ps_Fields ps))
    \<and> distinct (map dr_FieldName ds)
    \<and> recorded_drifts s' = recorded_drifts s @ map drift_key ds
    \<and> saved_schema s' = saved_schema s"
proof -
  let ?ds = "find_drifts src ev now (FlattenJSON p) (ps_Fields ps)"
  have "store_ready s src" using assms(1,2) by (simp add: store_ready_def)
  from pgs.check_locked [OF this assms(3,4) refl, of ev p now] run
  have "ds = ?ds" "recorded_drifts s' = recorded_drifts s @ map drift_key ds"
    "saved_schema s' = saved_schema s" by auto
  with find_drifts_Nil [OF assms(5) gm_ok_FlattenJSON] distinct_drift_fields [OF assms(5) gm_ok_FlattenJSON]
    find_drifts_iff [OF assms(5) gm_ok_FlattenJSON]
  show ?thesis by simp
qed

theorem drift_detection_witness:
  "\<exists>ds s'. CheckDrift GetPayloadSchema InsertDriftEvent ''s'' ''e'' [(''a'', JBool True)] 7
      ((fresh_pg ''s'')\<lparr>pg_schemas := [(new_schema ''s'')\<lparr>ps_IsLocked := True\<rparr>]\<rparr>) = (ds, s')
    \<and> \<lparr>dr_EventID = ''e'', dr_SourceID = ''s'', dr_DriftType = ''NEW_FIELD'', dr_FieldName = ''a'',
         dr_ExpectedType = [], dr_ActualType = ''boolean'', dr_DetectedAt = 7\<rparr> \<in> set ds
    \<and> distinct (map dr_FieldName ds)"
proof -
  let ?s = "(fresh_pg ''s'')\<lparr>pg_schemas := [(new_schema ''s'')\<lparr>ps_IsLocked := True\<rparr>]\<rparr>"
  let ?r = "CheckDrift GetPayloadSchema InsertDriftEvent ''s'' ''e'' [(''a'', JBool True)] 7 ?s"
  have "saved_schema ?s ''s'' = Some ((new_schema ''s'')\<lparr>ps_IsLocked := True\<rparr>)"
    by (simp add: saved_schema_def new_schema_def)
  from drift_detection [OF _ _ this, of "''e''" "[(''a'', JBool True)]" 7 "fst ?r" "snd ?r"]
  have "\<forall>d. d \<in> set (fst ?r) \<longleftrightarrow>
      departure (FlattenJSON [(''a'', JBool True)]) [] (dr_FieldName d) = Some (dr_DriftType d, dr_ExpectedType d, dr_ActualType d)
      \<and> dr_EventID d = ''e'' \<and> dr_SourceID d = ''s'' \<and> dr_DetectedAt d = 7" "distinct (map dr_FieldName (fst ?r))"
    by (simp_all add: new_schema_def)
  then show ?thesis
    by (intro exI [of _ "fst ?r"] exI [of _ "snd ?r"])
      (simp add: departure_def FlattenJSON_def full_key_def)
qed

text \<open>
  Any error of the read counts as a first payload. When the database fails to answer the read of
  a locked schema and then recovers, the locked schema is replaced by one learned from this payload
  alone, unlocked again unless a single sample suffices.
\<close>

theorem read_fault_resets_schema:
  assumes "pg_faults s = [True]" "source_known s src" "saved_schema s src = Some ps" "ps_IsLocked ps"
  shows "\<exists>ps'. saved_schema (UpdateSchema GetPayloadSchema UpsertPayloadSchema src p m now s) src = Some ps'
    \<and> learned stored_example [FlattenJSON p] ps' \<and> ps_IsLocked ps' = (m \<le> 1)"
proof -
  let ?s = "pg_tick s" and ?ps = "observe (new_schema src) (FlattenJSON p) m now"
  have "GetPayloadSchema src s = (Inl QueryFailed, ?s)"
    using assms(1) by (simp add: GetPayloadSchema_def pg_query_def pg_fails_def)
  then have u: "UpdateSchema GetPayloadSchema UpsertPayloadSchema src p m now s = snd (UpsertPayloadSchema ?ps ?s)"
    by (simp add: UpdateSchema_def new_schema_def Let_def)
  have src: "ps_SourceID ?ps = src" by (simp add: new_schema_def)
  have "store_ready ?s (ps_SourceID ?ps)"
    using assms(1,2) unfolding src by (simp add: store_ready_def pg_up_def pg_tick_def source_known_def)
  from UpsertPayloadSchema_saved [OF this] have
    "saved_schema (UpdateSchema GetPayloadSchema UpsertPayloadSchema src p m now s) src
      = Some (kept_schema stored_example (pg_now s) ?ps)"
    unfolding u src by simp
  moreover have "learned stored_example ([] @ [FlattenJSON p]) (kept_schema stored_example (pg_now s) ?ps)"
    by (rule learned_observe [OF stored_example_idem learned_new]) simp
  ultimately show ?thesis by (simp add: new_schema_def)
qed

theorem read_fault_resets_schema_witness:
  "\<exists>ps'. saved_schema (UpdateSchema GetPayloadSchema UpsertPayloadSchema ''s'' [(''a'', JBool True)] 20 7
      ((fresh_pg ''s'')\<lparr>pg_schemas := [(new_schema ''s'')\<lparr>ps_IsLocked := True, ps_SampleCount := 20\<rparr>],
                      pg_faults := [True]\<rparr>)) ''s'' = Some ps'
    \<and> learned stored_example [FlattenJSON [(''a'', JBool True)]] ps' \<and> \<not> ps_IsLocked ps'"
proof -
  let ?ps = "(new_schema ''s'')\<lparr>ps_IsLocked := True, ps_SampleCount := 20\<rparr>"
  have "saved_schema ((fresh_pg ''s'')\<lparr>pg_schemas := [?ps], pg_faults := [True]\<rparr>) ''s'' = Some ?ps"
    by (simp add: saved_schema_def new_schema_def)
  from read_fault_resets_schema [OF _ _ this, of "[(''a'', JBool True)]" 20 7]
  show ?thesis by (simp add: source_known_def fresh_pg_def)
qed

section \<open>Recovery query\<close>

lemma incomplete_order:
  "sorted_wrt (\<lambda>a b. (da_EventID a, da_DestinationID a) = (da_EventID b, da_DestinationID b)
      \<longrightarrow> da_AttemptNumber b \<le> da_AttemptNumber a)
    (sort_key da_EventID (sort_key da_DestinationID (sort_key (\<lambda>a. - da_AttemptNumber a) xs)))"
proof (rule sorted_wrt_groups)
  fix c :: "string \<times> string"
  obtain e d where c: "c = (e, d)" by (cases c)
  let ?l = "sort_key (\<lambda>a. - da_AttemptNumber a) xs"
  have "filter (\<lambda>a. (da_EventID a, da_DestinationID a) = c) (sort_key da_EventID (sort_key da_DestinationID ?l))
      = filter (\<lambda>a. da_DestinationID a = d) (filter (\<lambda>a. da_EventID a = e)
          (sort_key da_EventID (sort_key da_DestinationID ?l)))"
    by (simp add: c conj_commute)
  also have "\<dots> = filter (\<lambda>a. da_DestinationID a = d) (filter (\<lambda>a. da_EventID a = e) (sort_key da_DestinationID ?l))"
    by (simp only: sort_key_stable)
  also have "\<dots> = filter (\<lambda>a. da_EventID a = e) (filter (\<lambda>a. da_DestinationID a = d) (sort_key da_DestinationID ?l))"
    by (simp only: filter_filter conj_commute)
  also have "\<dots> = filter (\<lambda>a. da_EventID a = e) (filter (\<lambda>a. da_DestinationID a = d) ?l)"
    by (simp only: sort_key_stable)
  also have "\<dots> = filter (\<lambda>a. da_DestinationID a = d \<and> da_EventID a = e) ?l"
    by (simp only: filter_filter)
  finally have f: "filter (\<lambda>a. (da_EventID a, da_DestinationID a) = c)
      (sort_key da_EventID (sort_key da_DestinationID ?l)) = filter (\<lambda>a. da_DestinationID a = d \<and> da_EventID a = e) ?l" .
  have "sorted_wrt (\<lambda>a b. da_AttemptNumber b \<le> da_AttemptNumber a) ?l"
    using sorted_sort_key [of "\<lambda>a. - da_AttemptNumber a" xs] by (simp add: sorted_map sorted_wrt_iff_nth_less)
  then show "sorted_wrt (\<lambda>a b. da_AttemptNumber b \<le> da_AttemptNumber a)
      (filter (\<lambda>a. (da_EventID a, da_DestinationID a) = c) (sort_key da_EventID (sort_key da_DestinationID ?l)))"
    unfolding f by (rule sorted_wrt_filter)
qed

text \<open>
  The recovery query returns one row per event and destination with a recoverable failed attempt,
  and the row is the attempt with the highest number.
\<close>

theorem incomplete_deliveries:
  assumes "pg_up s"
  shows "\<exists>as. fst (GetIncompleteDeliveries s) = Inr (map incomplete_of as)
    \<and> distinct (map (\<lambda>a. (da_EventID a, da_DestinationID a)) as)
    \<and> set as \<subseteq> {a \<in> set (pg_attempts s). incomplete_row s a}
    \<and> (\<forall>b \<in> set (pg_attempts s). incomplete_row s b \<longrightarrow>
         (\<exists>a \<in> set as. da_EventID a = da_EventID b \<and> da_DestinationID a = da_DestinationID b
            \<and> da_AttemptNumber b \<le> da_AttemptNumber a))"
proof -
  let ?k = "\<lambda>a. (da_EventID a, da_DestinationID a)"
  let ?l = "sort_key da_EventID (sort_key da_DestinationID (sort_key (\<lambda>a. - da_AttemptNumber a)
    (filter (incomplete_row s) (pg_attempts s))))"
  have l: "set ?l = {a \<in> set (pg_attempts s). incomplete_row s a}" by auto
  have r: "fst (GetIncompleteDeliveries s) = Inr (map incomplete_of (distinct_on ?k ?l))"
    using assms by (simp add: GetIncompleteDeliveries_def)
  have "\<exists>a \<in> set (distinct_on ?k ?l). ?k a = ?k b \<and> da_AttemptNumber b \<le> da_AttemptNumber a"
    if b: "b \<in> set ?l" for b
  proof -
    from distinct_on_covers [OF b, of ?k] obtain a where a: "a \<in> set (distinct_on ?k ?l)" "?k a = ?k b"
      by blast
    from distinct_on_first [OF incomplete_order a(1) b a(2) [symmetric]] a show ?thesis by blast
  qed
  then show ?thesis
    using r distinct_on_keys [of ?k ?l] distinct_on_subset [of ?k ?l]
    unfolding l by (intro exI [of _ "distinct_on ?k ?l"]) auto
qed

text \<open>
  Recovery looks at events, not at destinations. Once an event has been delivered to one
  destination, or has any entry in the dead letter queue, no destination of it is recovered.
\<close>

theorem partial_success_not_recovered:
  assumes "fst (GetIncompleteDeliveries s) = Inr ds"
    and "(\<exists>a \<in> set (pg_attempts s). da_Success a \<and> da_EventID a = ev)
      \<or> (\<exists>e \<in> set (pg_dlq s). dl_EventID e = ev)"
  shows "ev \<notin> id_EventID ` set ds"
proof
  let ?k = "\<lambda>a. (da_EventID a, da_DestinationID a)"
  let ?l = "sort_key da_EventID (sort_key da_DestinationID (sort_key (\<lambda>a. - da_AttemptNumber a)
    (filter (incomplete_row s) (pg_attempts s))))"
  assume "ev \<in> id_EventID ` set ds"
  moreover have "ds = map incomplete_of (distinct_on ?k ?l)"
    using assms(1) by (simp add: GetIncompleteDeliveries_def pg_query_def split: if_splits)
  ultimately obtain a where "a \<in> set (distinct_on ?k ?l)" and "ev = id_EventID (incomplete_of a)" by auto
  then have "a \<in> set ?l" "ev = da_EventID a"
    using distinct_on_subset [of ?k ?l] by (blast, simp add: incomplete_of_def)
  then show False using assms(2) by (auto simp: incomplete_row_def image_iff)
qed

text \<open>An attempt on a destination, with default values in the columns a witness leaves open.\<close>

definition attempt_row :: "string \<Rightarrow> string \<Rightarrow> int \<Rightarrow> bool \<Rightarrow> DeliveryAttempt" where
  "attempt_row ev dest n ok =
    \<lparr>da_EventID = ev, da_SourceID = ''s'', da_DestinationID = dest, da_AttemptNumber = n,
     da_AttemptedAt = n, da_StatusCode = (if ok then 200 else 500), da_Success = ok, da_ErrorMessage = [],
     da_DurationMs = 1\<rparr>"

theorem incomplete_deliveries_witness:
  "\<exists>as. fst (GetIncompleteDeliveries
        ((fresh_pg ''s'')\<lparr>pg_attempts := [attempt_row ''e'' ''d'' 1 False, attempt_row ''e'' ''d'' 2 False]\<rparr>))
      = Inr (map incomplete_of as)
    \<and> distinct (map (\<lambda>a. (da_EventID a, da_DestinationID a)) as)
    \<and> (\<exists>a \<in> set as. da_EventID a = ''e'' \<and> da_DestinationID a = ''d'' \<and> 2 \<le> da_AttemptNumber a)"
proof -
  let ?s = "(fresh_pg ''s'')\<lparr>pg_attempts := [attempt_row ''e'' ''d'' 1 False, attempt_row ''e'' ''d'' 2 False]\<rparr>"
  have "pg_up ?s" by simp
  from incomplete_deliveries [OF this] show ?thesis
    by (fastforce simp: incomplete_row_def attempt_row_def)
qed

theorem partial_success_not_recovered_witness:
  "fst (GetIncompleteDeliveries ((fresh_pg ''s'')\<lparr>pg_attempts := [attempt_row ''e'' ''d1'' 1 True,
      attempt_row ''e'' ''d2'' 1 False]\<rparr>)) = Inr [] \<and> ''e'' \<notin> id_EventID ` set []"
proof -
  let ?s = "(fresh_pg ''s'')\<lparr>pg_attempts := [attempt_row ''e'' ''d1'' 1 True, attempt_row ''e'' ''d2'' 1 False]\<rparr>"
  have r: "fst (GetIncompleteDeliveries ?s) = Inr []"
    by (simp add: GetIncompleteDeliveries_def incomplete_row_def attempt_row_def)
  from partial_success_not_recovered [OF r, of "''e''"] r show ?thesis by (simp add: attempt_row_def)
qed

end
