(* ===== verification/Queue.thy ===== *)
theory Queue
  imports Models
begin

text \<open>
  \<open>internal/queue/redis.go\<close>: the work queues and the dead letter list. A queue is a Redis list of
  JSON texts; a command is answered, refused, or carried out with its reply lost, as the script
  \<open>rd_fates\<close> decides. The interface that the services use is the locale \<open>work_queue\<close>.
\<close>

section \<open>Redis lists\<close>

text \<open>
  The texts in a list: the JSON form of an event, known by the event that a reader decodes, and texts
  that do not decode.
\<close>

datatype raw_text = EventText WebhookEvent | OtherText bytes

fun unmarshal_event :: "raw_text \<Rightarrow> WebhookEvent option" where
  "unmarshal_event (EventText e) = Some e"
| "unmarshal_event (OtherText _) = None"

definition marshal_event :: "WebhookEvent \<Rightarrow> raw_text" where
  "marshal_event e = EventText (wire e)"

datatype fate = Answered | Refused | ReplyLost

record redis =
  rd_lists :: "string \<Rightarrow> raw_text list"
  rd_fates :: "fate list"

definition rd_tick :: "redis \<Rightarrow> redis" where
  "rd_tick s = s\<lparr>rd_fates := tl (rd_fates s)\<rparr>"

definition rd_fate :: "redis \<Rightarrow> fate" where
  "rd_fate s = (case rd_fates s of [] \<Rightarrow> Answered | f # _ \<Rightarrow> f)"

definition rd_command :: "(redis \<Rightarrow> 'a \<times> redis) \<Rightarrow> redis \<Rightarrow> 'a option \<times> redis" where
  "rd_command c s =
    (case rd_fate s of
       Answered \<Rightarrow> (Some (fst (c (rd_tick s))), snd (c (rd_tick s)))
     | Refused \<Rightarrow> (None, rd_tick s)
     | ReplyLost \<Rightarrow> (None, snd (c (rd_tick s))))"

definition rpush :: "string \<Rightarrow> raw_text \<Rightarrow> redis \<Rightarrow> unit \<times> redis" where
  "rpush key v s = ((), s\<lparr>rd_lists := (rd_lists s)(key := rd_lists s key @ [v])\<rparr>)"

definition blpop :: "string \<Rightarrow> redis \<Rightarrow> raw_text option \<times> redis" where
  "blpop key s =
    (case rd_lists s key of
       [] \<Rightarrow> (None, s)
     | v # vs \<Rightarrow> (Some v, s\<lparr>rd_lists := (rd_lists s)(key := vs)\<rparr>))"

section \<open>Queues\<close>

definition QueueIncoming :: string where "QueueIncoming = ''webhookmind:queue:incoming''"
definition QueueDelivery :: string where "QueueDelivery = ''webhookmind:queue:delivery''"
definition QueueExtraction :: string where "QueueExtraction = ''webhookmind:queue:extraction''"
definition QueueDLQ :: string where "QueueDLQ = ''webhookmind:dlq''"

lemma queue_names [simp]:
  "QueueIncoming \<noteq> QueueDelivery" "QueueDelivery \<noteq> QueueIncoming"
  "QueueIncoming \<noteq> QueueExtraction" "QueueExtraction \<noteq> QueueIncoming"
  "QueueIncoming \<noteq> QueueDLQ" "QueueDLQ \<noteq> QueueIncoming"
  "QueueDelivery \<noteq> QueueExtraction" "QueueExtraction \<noteq> QueueDelivery"
  "QueueDelivery \<noteq> QueueDLQ" "QueueDLQ \<noteq> QueueDelivery"
  "QueueExtraction \<noteq> QueueDLQ" "QueueDLQ \<noteq> QueueExtraction"
  by (simp_all add: QueueIncoming_def QueueDelivery_def QueueExtraction_def QueueDLQ_def)

text \<open>\<open>True\<close> is a \<open>nil\<close> error.\<close>

definition Enqueue :: "string \<Rightarrow> WebhookEvent \<Rightarrow> redis \<Rightarrow> bool \<times> redis" where
  "Enqueue key event s =
    (case rd_command (rpush key (marshal_event event)) s of (r, s1) \<Rightarrow> (r \<noteq> None, s1))"

datatype queue_error = PopFailed | BadEvent

definition Dequeue :: "bool \<Rightarrow> string \<Rightarrow> redis \<Rightarrow> (queue_error + WebhookEvent option) \<times> redis" where
  "Dequeue cancelled key s =
    (case rd_command (blpop key) s of
       (None, s1) \<Rightarrow> (if cancelled then Inr None else Inl PopFailed, s1)
     | (Some None, s1) \<Rightarrow> (Inr None, s1)
     | (Some (Some t), s1) \<Rightarrow>
         (case unmarshal_event t of None \<Rightarrow> Inl BadEvent | Some e \<Rightarrow> Inr (Some e), s1))"

definition QueueLen :: "string \<Rightarrow> redis \<Rightarrow> nat option \<times> redis" where
  "QueueLen key s = rd_command (\<lambda>s. (length (rd_lists s key), s)) s"

section \<open>The dead letter list\<close>

fun find_event :: "string \<Rightarrow> raw_text list \<Rightarrow> (raw_text \<times> WebhookEvent) option" where
  "find_event eventID [] = None"
| "find_event eventID (raw # entries) =
    (case unmarshal_event raw of
       None \<Rightarrow> find_event eventID entries
     | Some event \<Rightarrow>
         if ev_ID event = eventID then Some (raw, event) else find_event eventID entries)"

text \<open>The outer \<open>None\<close> is an error, the inner one an entry that was not found.\<close>

definition FindDLQEntry :: "string \<Rightarrow> redis \<Rightarrow> (raw_text \<times> WebhookEvent) option option \<times> redis" where
  "FindDLQEntry eventID s =
    (case rd_command (\<lambda>s. (rd_lists s QueueDLQ, s)) s of
       (None, s1) \<Rightarrow> (None, s1)
     | (Some entries, s1) \<Rightarrow> (Some (find_event eventID entries), s1))"

definition RemoveDLQEntry :: "raw_text \<Rightarrow> redis \<Rightarrow> bool \<times> redis" where
  "RemoveDLQEntry rawValue s =
    (case rd_command (\<lambda>s. ((), s\<lparr>rd_lists := (rd_lists s)(QueueDLQ := remove1 rawValue (rd_lists s QueueDLQ))\<rparr>)) s
     of (r, s1) \<Rightarrow> (r \<noteq> None, s1))"

section \<open>The contract of a work queue\<close>

text \<open>
  What the workers rely on: while the server answers (\<open>up\<close>), a queue is first-in first-out, an entry
  is handed to exactly one reader, and operations on one queue leave the others alone. An entry
  \<open>None\<close> is one that does not decode.
\<close>

locale work_queue =
  fixes enq :: "string \<Rightarrow> WebhookEvent \<Rightarrow> 's \<Rightarrow> bool \<times> 's"
    and deq :: "string \<Rightarrow> 's \<Rightarrow> (queue_error + WebhookEvent option) \<times> 's"
    and entries :: "'s \<Rightarrow> string \<Rightarrow> WebhookEvent option list"
    and up :: "'s \<Rightarrow> bool"
  assumes enq_ok: "up s \<Longrightarrow> fst (enq k e s)"
    and enq_entries: "up s \<Longrightarrow> entries (snd (enq k e s)) = (entries s)(k := entries s k @ [Some (wire e)])"
    and deq_entries: "up s \<Longrightarrow> entries (snd (deq k s)) = (entries s)(k := tl (entries s k))"
    and deq_result: "up s \<Longrightarrow> fst (deq k s) =
      (case entries s k of [] \<Rightarrow> Inr None | None # _ \<Rightarrow> Inl BadEvent | Some e # _ \<Rightarrow> Inr (Some e))"
    and enq_up: "up s \<Longrightarrow> up (snd (enq k e s))"
    and deq_up: "up s \<Longrightarrow> up (snd (deq k s))"

text \<open>
  One round of a worker that moves events: it takes an event from the queue \<open>src\<close> and puts what
  \<open>route\<close> makes of it into the queue that \<open>route\<close> names.
\<close>

definition forward ::
    "(string \<Rightarrow> WebhookEvent \<Rightarrow> 's \<Rightarrow> bool \<times> 's) \<Rightarrow> (string \<Rightarrow> 's \<Rightarrow> (queue_error + WebhookEvent option) \<times> 's)
     \<Rightarrow> string \<Rightarrow> (WebhookEvent \<Rightarrow> string \<times> WebhookEvent) \<Rightarrow> 's \<Rightarrow> 's" where
  "forward enq deq src route s =
    (case deq src s of
       (Inl _, s1) \<Rightarrow> s1
     | (Inr None, s1) \<Rightarrow> s1
     | (Inr (Some event), s1) \<Rightarrow>
         (case route event of (target, event') \<Rightarrow> snd (enq target event' s1)))"

definition routed :: "(WebhookEvent \<Rightarrow> string \<times> WebhookEvent) \<Rightarrow> string \<Rightarrow> WebhookEvent option list
    \<Rightarrow> WebhookEvent option list" where
  "routed route k es =
    map (\<lambda>e. Some (wire (snd (route e)))) (filter (\<lambda>e. fst (route e) = k) (List.map_filter id es))"

context work_queue
begin

text \<open>An event put into an empty queue is the next one taken out of it.\<close>

lemma enq_deq:
  assumes "up s" "entries s k = []"
  shows "fst (deq k (snd (enq k e s))) = Inr (Some (wire e))"
    and "entries (snd (deq k (snd (enq k e s)))) = entries s"
  using assms by (simp_all add: enq_entries enq_up deq_result deq_entries fun_eq_iff)

lemma forward_up: "up s \<Longrightarrow> up (forward enq deq src route s)"
  using deq_up [of s src] enq_up
  by (auto simp: forward_def split: prod.splits sum.splits option.splits)

lemma forward_entries:
  assumes "up s" "\<And>e. fst (route e) \<noteq> src"
  shows "entries (forward enq deq src route s) =
    (\<lambda>k. if k = src then tl (entries s src) else entries s k @ routed route k (take 1 (entries s src)))"
proof -
  obtain r s1 where d: "deq src s = (r, s1)" by (cases "deq src s")
  have s1: "entries s1 = (entries s)(src := tl (entries s src))" "up s1"
    using deq_entries [OF assms(1), of src] deq_up [OF assms(1), of src] d by auto
  have r: "r = (case entries s src of [] \<Rightarrow> Inr None | None # _ \<Rightarrow> Inl BadEvent | Some e # _ \<Rightarrow> Inr (Some e))"
    using deq_result [OF assms(1), of src] d by simp
  show ?thesis
  proof (cases "entries s src")
    case Nil
    then show ?thesis
      by (auto simp: forward_def d r s1 routed_def fun_eq_iff)
  next
    case (Cons a es)
    show ?thesis
    proof (cases a)
      case None
      with Cons show ?thesis
        by (auto simp: forward_def d r s1 routed_def fun_eq_iff map_filter_simps)
    next
      case (Some e)
      with Cons assms(2) [of e] enq_entries [OF s1(2)] show ?thesis
        by (auto simp: forward_def d r s1 routed_def fun_eq_iff map_filter_simps split: prod.splits)
    qed
  qed
qed

lemma routed_append: "routed route k (xs @ ys) = routed route k xs @ routed route k ys"
  by (induction xs) (auto simp: routed_def map_filter_simps split: option.splits)

lemma routed_take_Suc: "routed route k (take (Suc 0) xs) @ routed route k (take n (tl xs)) = routed route k (take (Suc n) xs)"
  by (cases xs) (simp_all add: routed_append [symmetric])

text \<open>
  After \<open>n\<close> rounds the first \<open>n\<close> entries of the source are gone, and each decodable one of them is in
  the queue it was routed to, in order, behind what was there: nothing is lost and nothing is doubled.
\<close>

lemma forward_rounds:
  assumes "up s" "\<And>e. fst (route e) \<noteq> src"
  shows "up ((forward enq deq src route ^^ n) s) \<and>
    entries ((forward enq deq src route ^^ n) s) =
      (\<lambda>k. if k = src then drop n (entries s src) else entries s k @ routed route k (take n (entries s src)))"
  using assms(1)
proof (induction n arbitrary: s)
  case (Suc n)
  let ?s = "forward enq deq src route s"
  have e: "entries ?s = (\<lambda>k. if k = src then tl (entries s src)
      else entries s k @ routed route k (take 1 (entries s src)))"
    by (rule forward_entries [OF Suc.prems assms(2)])
  have "(forward enq deq src route ^^ Suc n) s = (forward enq deq src route ^^ n) ?s"
    by (simp add: funpow_swap1)
  moreover note Suc.IH [OF forward_up [OF Suc.prems]]
  ultimately show ?case
    by (simp add: e fun_eq_iff drop_Suc routed_take_Suc)
qed (simp add: fun_eq_iff routed_def)

end

section \<open>Redis as a work queue\<close>

definition queue_up :: "redis \<Rightarrow> bool" where
  "queue_up s \<longleftrightarrow> list_all (\<lambda>f. f = Answered) (rd_fates s)"

definition queue_entries :: "redis \<Rightarrow> string \<Rightarrow> WebhookEvent option list" where
  "queue_entries s k = map unmarshal_event (rd_lists s k)"

lemma rd_up_fate [simp]: "queue_up s \<Longrightarrow> rd_fate s = Answered"
  by (cases "rd_fates s") (auto simp: queue_up_def rd_fate_def)

lemma rd_up_tick [simp]: "queue_up s \<Longrightarrow> queue_up (rd_tick s)"
  by (cases "rd_fates s") (auto simp: queue_up_def rd_tick_def)

lemma rd_tick_lists [simp]: "rd_lists (rd_tick s) = rd_lists s"
  by (simp add: rd_tick_def)

lemma queue_up_lists [simp]: "queue_up (s\<lparr>rd_lists := l\<rparr>) = queue_up s"
  by (simp add: queue_up_def)

lemma rd_command_up [simp]: "queue_up s \<Longrightarrow> rd_command c s = (Some (fst (c (rd_tick s))), snd (c (rd_tick s)))"
  by (simp add: rd_command_def)

interpretation rq: work_queue Enqueue "Dequeue False" queue_entries queue_up
proof
  fix s k e
  assume up: "queue_up s"
  show "fst (Enqueue k e s)"
    using up by (simp add: Enqueue_def)
  show "queue_entries (snd (Enqueue k e s)) = (queue_entries s)(k := queue_entries s k @ [Some (wire e)])"
    using up by (simp add: Enqueue_def rpush_def queue_entries_def marshal_event_def fun_eq_iff)
  show "queue_entries (snd (Dequeue False k s)) = (queue_entries s)(k := tl (queue_entries s k))"
    using up by (auto simp: Dequeue_def blpop_def queue_entries_def fun_eq_iff split: list.splits)
  show "fst (Dequeue False k s) =
      (case queue_entries s k of [] \<Rightarrow> Inr None | None # _ \<Rightarrow> Inl BadEvent | Some e # _ \<Rightarrow> Inr (Some e))"
    using up by (auto simp: Dequeue_def blpop_def queue_entries_def split: list.splits option.splits)
  show "queue_up (snd (Enqueue k e s))" "queue_up (snd (Dequeue False k s))"
    using up by (auto simp: Enqueue_def Dequeue_def rpush_def blpop_def split: list.splits)
qed

text \<open>What an enqueue does whatever the server does: an answered one appends exactly one entry.\<close>

lemma Enqueue_cases:
  "rd_lists (snd (Enqueue k e s)) = rd_lists s \<and> \<not> fst (Enqueue k e s)
   \<or> rd_lists (snd (Enqueue k e s)) = (rd_lists s)(k := rd_lists s k @ [marshal_event e])"
  by (simp add: Enqueue_def rd_command_def rpush_def split: fate.splits)

lemma Enqueue_ok:
  "fst (Enqueue k e s) \<Longrightarrow> rd_lists (snd (Enqueue k e s)) = (rd_lists s)(k := rd_lists s k @ [marshal_event e])"
  using Enqueue_cases [of k e s] by auto

section \<open>Looking up a dead letter\<close>

lemma find_event_Some:
  "find_event i es = Some (raw, e) \<Longrightarrow>
    \<exists>pre post. es = pre @ raw # post \<and> raw \<notin> set pre \<and> unmarshal_event raw = Some e \<and> ev_ID e = i
      \<and> (\<forall>t \<in> set pre. \<forall>e'. unmarshal_event t = Some e' \<longrightarrow> ev_ID e' \<noteq> i)"
proof (induction es)
  case (Cons t es)
  show ?case
  proof (cases "\<exists>e'. unmarshal_event t = Some e' \<and> ev_ID e' = i")
    case True
    with Cons.prems show ?thesis by (intro exI [of _ "[]"] exI [of _ es]) auto
  next
    case False
    with Cons.prems have "find_event i es = Some (raw, e)" by (auto split: option.splits if_splits)
    with Cons.IH obtain pre post where "es = pre @ raw # post" "raw \<notin> set pre"
      "unmarshal_event raw = Some e" "ev_ID e = i"
      "\<forall>t \<in> set pre. \<forall>e'. unmarshal_event t = Some e' \<longrightarrow> ev_ID e' \<noteq> i" by blast
    with False show ?thesis by (intro exI [of _ "t # pre"] exI [of _ post]) auto
  qed
qed simp

lemma find_event_None:
  "find_event i es = None \<longleftrightarrow> (\<forall>t \<in> set es. \<forall>e. unmarshal_event t = Some e \<longrightarrow> ev_ID e \<noteq> i)"
  by (induction es) (auto split: option.splits)

text \<open>
  Looking up a dead letter and removing it by value takes out exactly the entry that was found,
  the first one of the event: everything before and after it stays, in order, and so do the other
  queues.
\<close>

theorem dead_letter_removed:
  assumes "queue_up s" "FindDLQEntry i s = (Some (Some (raw, e)), s1)"
  shows "ev_ID e = i \<and> fst (RemoveDLQEntry raw s1) \<and>
    (\<exists>pre post. rd_lists s QueueDLQ = pre @ raw # post
      \<and> (\<forall>t \<in> set pre. \<forall>e'. unmarshal_event t = Some e' \<longrightarrow> ev_ID e' \<noteq> i)
      \<and> rd_lists (snd (RemoveDLQEntry raw s1)) = (rd_lists s)(QueueDLQ := pre @ post))"
proof -
  from assms have f: "find_event i (rd_lists s QueueDLQ) = Some (raw, e)" and s1: "s1 = rd_tick s"
    by (auto simp: FindDLQEntry_def)
  from find_event_Some [OF f] obtain pre post where "rd_lists s QueueDLQ = pre @ raw # post"
    "raw \<notin> set pre" "ev_ID e = i"
    "\<forall>t \<in> set pre. \<forall>e'. unmarshal_event t = Some e' \<longrightarrow> ev_ID e' \<noteq> i" by blast
  moreover from this(1,2) have "remove1 raw (rd_lists s QueueDLQ) = pre @ post"
    by (simp add: remove1_append)
  ultimately show ?thesis using assms(1) by (auto simp: RemoveDLQEntry_def s1)
qed

text \<open>An event of ASCII strings with no headers.\<close>

definition plain :: "string \<Rightarrow> string \<Rightarrow> bytes \<Rightarrow> WebhookEvent" where
  "plain i src body =
    \<lparr>ev_ID = i, ev_SourceID = src, ev_ReceivedAt = 0, ev_RawBody = body, ev_Headers = [],
     ev_FileURL = [], ev_FileStorePath = [], ev_ExtractedData = None, ev_ExtractionMs = 0,
     ev_APIKeyOverride = [], ev_ProviderOverride = [], ev_ModelOverride = []\<rparr>"

definition redis_of :: "(string \<times> raw_text list) list \<Rightarrow> redis" where
  "redis_of ls = \<lparr>rd_lists = (\<lambda>k. case map_of ls k of None \<Rightarrow> [] | Some l \<Rightarrow> l), rd_fates = []\<rparr>"

lemma redis_of_up [simp]: "queue_up (redis_of ls)"
  by (simp add: redis_of_def queue_up_def)

theorem dead_letter_removed_witness:
  "rd_lists (snd (RemoveDLQEntry (EventText (plain ''b'' ''s'' []))
      (redis_of [(QueueDLQ, [EventText (plain ''a'' ''s'' []), EventText (plain ''b'' ''s'' []), OtherText []])])))
    QueueDLQ \<noteq> []"
proof -
  let ?r = "redis_of [(QueueDLQ, [EventText (plain ''a'' ''s'' []), EventText (plain ''b'' ''s'' []), OtherText []])]"
  let ?raw = "EventText (plain ''b'' ''s'' [])"
  have t: "rd_tick ?r = ?r" by (simp add: rd_tick_def redis_of_def)
  have "FindDLQEntry ''b'' ?r = (Some (Some (?raw, plain ''b'' ''s'' [])), ?r)"
    by (simp add: FindDLQEntry_def t) (simp add: redis_of_def plain_def)
  from dead_letter_removed [OF redis_of_up this] obtain pre post where
    "rd_lists ?r QueueDLQ = pre @ ?raw # post" "rd_lists (snd (RemoveDLQEntry ?raw ?r)) QueueDLQ = pre @ post"
    by auto
  then show ?thesis by (auto simp: redis_of_def)
qed

end
