(* ===== verification/Routing.thy ===== *)
theory Routing
  imports Store
begin

text \<open>
  \<open>internal/routing\<close>: conditions on the fields of a flattened payload and the choice of the
  destinations of an event. \<open>ff\<close> is the decimal form of a number under \<open>%v\<close>, \<open>pf\<close> is
  \<open>strconv.ParseFloat\<close> (\<open>None\<close> is an error), \<open>parse\<close> is \<open>json.Unmarshal\<close> into \<open>any\<close> and \<open>parse_conds\<close> is
  \<open>json.Unmarshal\<close> into a list of conditions.
\<close>

section \<open>Conditions\<close>

record Condition =
  cd_Field :: string
  cd_Operator :: string
  cd_Value :: json

definition toFloat :: "(string \<Rightarrow> float64 option) \<Rightarrow> json \<Rightarrow> float64 option" where
  "toFloat pf v = (case v of JNum x \<Rightarrow> Some x | JStr s \<Rightarrow> pf s | _ \<Rightarrow> None)"

definition compareNumeric :: "(string \<Rightarrow> float64 option) \<Rightarrow> json \<Rightarrow> json \<Rightarrow> string \<Rightarrow> bool" where
  "compareNumeric pf a b op =
    (case (toFloat pf a, toFloat pf b) of
       (Some x, Some y) \<Rightarrow>
         if op = ''gt'' then f_lt y x
         else if op = ''gte'' then f_le y x
         else if op = ''lt'' then f_lt x y
         else if op = ''lte'' then f_le x y
         else False
     | _ \<Rightarrow> False)"

definition EvaluateCondition ::
    "(float64 \<Rightarrow> string) \<Rightarrow> (string \<Rightarrow> float64 option) \<Rightarrow> Condition \<Rightarrow> json gomap \<Rightarrow> bool" where
  "EvaluateCondition ff pf cond flat =
    (let found = gm_get flat (cd_Field cond); op = cd_Operator cond in
     if op = ''exists'' then found \<noteq> None
     else if op = ''not_exists'' then found = None
     else case found of
            None \<Rightarrow> False
          | Some v \<Rightarrow>
              if op = ''eq'' then fmt_v ff v = fmt_v ff (cd_Value cond)
              else if op = ''neq'' then fmt_v ff v \<noteq> fmt_v ff (cd_Value cond)
              else if op = ''contains'' then contains (fmt_v ff v) (fmt_v ff (cd_Value cond))
              else if op \<in> {''gt'', ''gte'', ''lt'', ''lte''} then compareNumeric pf v (cd_Value cond) op
              else False)"

text \<open>The loops of \<open>EvaluateConditions\<close> stop at the first condition that decides.\<close>

fun any_condition :: "(Condition \<Rightarrow> bool) \<Rightarrow> Condition list \<Rightarrow> bool" where
  "any_condition ev [] = False"
| "any_condition ev (c # cs) = (if ev c then True else any_condition ev cs)"

fun all_conditions :: "(Condition \<Rightarrow> bool) \<Rightarrow> Condition list \<Rightarrow> bool" where
  "all_conditions ev [] = True"
| "all_conditions ev (c # cs) = (if \<not> ev c then False else all_conditions ev cs)"

definition EvaluateConditions ::
    "(float64 \<Rightarrow> string) \<Rightarrow> (string \<Rightarrow> float64 option) \<Rightarrow> Condition list \<Rightarrow> json gomap \<Rightarrow> string \<Rightarrow> bool" where
  "EvaluateConditions ff pf conditions flat logic =
    (if conditions = [] then False
     else if logic = ''OR'' then any_condition (\<lambda>c. EvaluateCondition ff pf c flat) conditions
     else all_conditions (\<lambda>c. EvaluateCondition ff pf c flat) conditions)"

section \<open>Destinations\<close>

definition rule_matches ::
    "(bytes \<Rightarrow> Condition list option) \<Rightarrow> (float64 \<Rightarrow> string) \<Rightarrow> (string \<Rightarrow> float64 option)
     \<Rightarrow> json gomap \<Rightarrow> RoutingRule \<Rightarrow> bool" where
  "rule_matches parse_conds ff pf flat rule =
    (case parse_conds (rr_Conditions rule) of
       None \<Rightarrow> False
     | Some conditions \<Rightarrow> EvaluateConditions ff pf conditions flat (rr_LogicOperator rule))"

definition matched_ids ::
    "(bytes \<Rightarrow> Condition list option) \<Rightarrow> (float64 \<Rightarrow> string) \<Rightarrow> (string \<Rightarrow> float64 option)
     \<Rightarrow> json gomap \<Rightarrow> RoutingRule list \<Rightarrow> bool gomap" where
  "matched_ids parse_conds ff pf flat rules =
    fold (\<lambda>rule m. if rule_matches parse_conds ff pf flat rule
                   then gm_set (rr_DestinationID rule) True m else m) rules []"

definition ResolveDestinations ::
    "(bytes \<Rightarrow> json option) \<Rightarrow> (bytes \<Rightarrow> Condition list option) \<Rightarrow> (float64 \<Rightarrow> string)
     \<Rightarrow> (string \<Rightarrow> float64 option) \<Rightarrow> string \<Rightarrow> bytes \<Rightarrow> pg \<Rightarrow> Destination list query" where
  "ResolveDestinations parse parse_conds ff pf sourceID rawBody s =
    (case GetRoutingRules sourceID s of
       (Inl _, s1) \<Rightarrow> GetDestinationsBySourceID sourceID s1
     | (Inr rules, s1) \<Rightarrow>
         if rules = [] then GetDestinationsBySourceID sourceID s1
         else case unmarshal_map parse rawBody of
           None \<Rightarrow> GetDefaultDestinations sourceID s1
         | Some payload \<Rightarrow>
             let ids = matched_ids parse_conds ff pf (FlattenJSON (map_entries payload)) rules in
             if ids = [] then GetDefaultDestinations sourceID s1
             else case GetDestinationsBySourceID sourceID s1 of
                    (Inl e, s2) \<Rightarrow> (Inl e, s2)
                  | (Inr allDests, s2) \<Rightarrow>
                      let matched = filter (\<lambda>d. gm_get ids (dest_ID d) = Some True) allDests in
                      if matched = [] then GetDefaultDestinations sourceID s2
                      else (Inr matched, s2))"

section \<open>What a condition decides\<close>

lemma any_condition_iff [simp]: "any_condition ev cs \<longleftrightarrow> (\<exists>c \<in> set cs. ev c)"
  by (induction cs) auto

lemma all_conditions_iff [simp]: "all_conditions ev cs \<longleftrightarrow> (\<forall>c \<in> set cs. ev c)"
  by (induction cs) auto

definition with_op :: "string \<Rightarrow> Condition \<Rightarrow> Condition" where
  "with_op op c = c\<lparr>cd_Operator := op\<rparr>"

definition holds :: "(float64 \<Rightarrow> string) \<Rightarrow> (string \<Rightarrow> float64 option) \<Rightarrow> Condition \<Rightarrow> json gomap \<Rightarrow> string \<Rightarrow> bool" where
  "holds ff pf c flat op = EvaluateCondition ff pf (with_op op c) flat"

text \<open>
  The operators are consistent. \<open>exists\<close> and \<open>not_exists\<close> are complements; on a field that is
  there so are \<open>eq\<close> and \<open>neq\<close>, and on one that is not every other operator is false; a value is never
  both greater and less-or-equal, and of two numbers (neither of them NaN) one of the two holds.
\<close>

theorem operators_consistent:
  "holds ff pf c flat ''not_exists'' = (\<not> holds ff pf c flat ''exists'')
   \<and> holds ff pf c flat ''neq'' = (holds ff pf c flat ''exists'' \<and> \<not> holds ff pf c flat ''eq'')
   \<and> \<not> (holds ff pf c flat ''gt'' \<and> holds ff pf c flat ''lte'')
   \<and> \<not> (holds ff pf c flat ''lt'' \<and> holds ff pf c flat ''gte'')
   \<and> (holds ff pf c flat ''gt'' = (holds ff pf c flat ''gte'' \<and> \<not> holds ff pf c flat ''lte''))
   \<and> (\<forall>x y. gm_get flat (cd_Field c) = Some (JNum x) \<longrightarrow> cd_Value c = JNum y \<longrightarrow> \<not> f_nan x \<longrightarrow> \<not> f_nan y
        \<longrightarrow> holds ff pf c flat ''gt'' = (\<not> holds ff pf c flat ''lte'')
          \<and> holds ff pf c flat ''lt'' = (\<not> holds ff pf c flat ''gte''))"
  by (auto simp: holds_def with_op_def EvaluateCondition_def compareNumeric_def toFloat_def Let_def
      f_lt_def f_le_def split: option.splits)

theorem operators_consistent_witness:
  "holds (\<lambda>_. ''1'') (\<lambda>_. None) \<lparr>cd_Field = ''a'', cd_Operator = [], cd_Value = JNum 1\<rparr> [(''a'', JNum 2)] ''gt''
    = (\<not> holds (\<lambda>_. ''1'') (\<lambda>_. None) \<lparr>cd_Field = ''a'', cd_Operator = [], cd_Value = JNum 1\<rparr>
          [(''a'', JNum 2)] ''lte'')"
  using operators_consistent [of "\<lambda>_. ''1''" "\<lambda>_. None"
      "\<lparr>cd_Field = ''a'', cd_Operator = [], cd_Value = JNum 1\<rparr>" "[(''a'', JNum 2)]"]
  by (auto simp: f_nan_def)

text \<open>
  A rule without conditions never matches; otherwise \<open>OR\<close> asks for one condition and every other
  value of the logic operator for all of them.
\<close>

theorem EvaluateConditions_iff:
  "EvaluateConditions ff pf cs flat logic \<longleftrightarrow>
    cs \<noteq> [] \<and> (if logic = ''OR'' then \<exists>c \<in> set cs. EvaluateCondition ff pf c flat
               else \<forall>c \<in> set cs. EvaluateCondition ff pf c flat)"
  by (simp add: EvaluateConditions_def)

theorem EvaluateConditions_iff_witness:
  "EvaluateConditions (\<lambda>_. ''1'') (\<lambda>_. None)
     [\<lparr>cd_Field = ''a'', cd_Operator = ''exists'', cd_Value = JNull\<rparr>] [(''a'', JNum 2)] ''AND''"
  by (simp add: EvaluateConditions_iff EvaluateCondition_def)

section \<open>Which destinations are chosen\<close>

lemma matched_ids_get:
  "gm_get (matched_ids parse_conds ff pf flat rules) i
    = (if \<exists>r \<in> set rules. rule_matches parse_conds ff pf flat r \<and> rr_DestinationID r = i then Some True else None)"
proof (induction rules rule: rev_induct)
  case (snoc r rules)
  then show ?case by (auto simp: matched_ids_def)
qed (simp add: matched_ids_def)

lemma matched_ids_Nil:
  "matched_ids parse_conds ff pf flat rules = [] \<longleftrightarrow>
    (\<forall>r \<in> set rules. \<not> rule_matches parse_conds ff pf flat r)"
proof
  assume e: "matched_ids parse_conds ff pf flat rules = []"
  show "\<forall>r \<in> set rules. \<not> rule_matches parse_conds ff pf flat r"
  proof (intro ballI notI)
    fix r assume "r \<in> set rules" "rule_matches parse_conds ff pf flat r"
    then have "gm_get (matched_ids parse_conds ff pf flat rules) (rr_DestinationID r) = Some True"
      by (auto simp: matched_ids_get)
    with e show False by simp
  qed
next
  assume "\<forall>r \<in> set rules. \<not> rule_matches parse_conds ff pf flat r"
  then have "gm_get (matched_ids parse_conds ff pf flat rules) = (\<lambda>_. None)"
    by (auto simp: matched_ids_get fun_eq_iff)
  then show "matched_ids parse_conds ff pf flat rules = []" by (simp add: map_of_eq_empty_iff)
qed

text \<open>The specification: the active destinations that a matching active rule of the source names.\<close>

definition source_rules :: "pg \<Rightarrow> string \<Rightarrow> RoutingRule set" where
  "source_rules s src = {r \<in> set (pg_rules s). rr_SourceID r = src \<and> rr_IsActive r}"

definition active_dests :: "pg \<Rightarrow> string \<Rightarrow> Destination list" where
  "active_dests s src = filter (\<lambda>d. dest_SourceID d = src \<and> dest_IsActive d) (map fst (pg_dests s))"

definition default_dests :: "pg \<Rightarrow> string \<Rightarrow> Destination list" where
  "default_dests s src = map fst (filter (\<lambda>(d, df). dest_SourceID d = src \<and> dest_IsActive d \<and> df) (pg_dests s))"

definition chosen_dests ::
    "(bytes \<Rightarrow> json option) \<Rightarrow> (bytes \<Rightarrow> Condition list option) \<Rightarrow> (float64 \<Rightarrow> string)
     \<Rightarrow> (string \<Rightarrow> float64 option) \<Rightarrow> pg \<Rightarrow> string \<Rightarrow> bytes \<Rightarrow> Destination list" where
  "chosen_dests parse parse_conds ff pf s src body =
    (if source_rules s src = {} then active_dests s src
     else case unmarshal_map parse body of
       None \<Rightarrow> default_dests s src
     | Some payload \<Rightarrow>
         let named = filter (\<lambda>d. \<exists>r \<in> source_rules s src.
                 rule_matches parse_conds ff pf (FlattenJSON (map_entries payload)) r
                 \<and> rr_DestinationID r = dest_ID d) (active_dests s src)
         in if named = [] then default_dests s src else named)"

lemma rules_of_source:
  "pg_up s \<Longrightarrow> \<exists>rules. GetRoutingRules src s = (Inr rules, pg_tick s) \<and> set rules = source_rules s src"
  by (auto simp: GetRoutingRules_def source_rules_def)

lemma dests_up [simp]:
  "pg_up s \<Longrightarrow> GetDestinationsBySourceID src s = (Inr (active_dests s src), pg_tick s)"
  "pg_up s \<Longrightarrow> GetDefaultDestinations src s = (Inr (default_dests s src), pg_tick s)"
  by (simp_all add: GetDestinationsBySourceID_def GetDefaultDestinations_def active_dests_def default_dests_def)

lemma dests_tick [simp]:
  "active_dests (pg_tick s) = active_dests s" "default_dests (pg_tick s) = default_dests s"
  by (simp_all add: active_dests_def default_dests_def fun_eq_iff)

lemma ResolveDestinations_chosen:
  assumes "pg_up s"
  shows "fst (ResolveDestinations parse parse_conds ff pf src body s)
    = Inr (chosen_dests parse parse_conds ff pf s src body)"
proof -
  obtain rules where r: "GetRoutingRules src s = (Inr rules, pg_tick s)" and rs: "set rules = source_rules s src"
    using rules_of_source [OF assms] by blast
  show ?thesis
  proof (cases "rules = [] \<or> unmarshal_map parse body = None")
    case True
    with rs assms show ?thesis
      by (auto simp: ResolveDestinations_def chosen_dests_def r)
  next
    case False
    then obtain payload where p: "unmarshal_map parse body = Some payload" and ne: "rules \<noteq> []" by blast
    with rs have rne: "source_rules s src \<noteq> {}" by auto
    let ?m = "rule_matches parse_conds ff pf (FlattenJSON (map_entries payload))"
    let ?ids = "matched_ids parse_conds ff pf (FlattenJSON (map_entries payload)) rules"
    have f: "filter (\<lambda>d. gm_get ?ids (dest_ID d) = Some True) (active_dests s src)
        = filter (\<lambda>d. \<exists>r \<in> source_rules s src. ?m r \<and> rr_DestinationID r = dest_ID d) (active_dests s src)"
      by (simp add: matched_ids_get rs)
    show ?thesis
    proof (cases "?ids = []")
      case True
      then have "\<forall>r \<in> source_rules s src. \<not> ?m r" by (simp add: matched_ids_Nil rs)
      then have "chosen_dests parse parse_conds ff pf s src body = default_dests s src"
        using rne by (auto simp: chosen_dests_def p)
      with True assms ne show ?thesis by (simp add: ResolveDestinations_def r p)
    next
      case False
      with assms ne rne show ?thesis
        by (simp add: ResolveDestinations_def r p f chosen_dests_def Let_def)
    qed
  qed
qed

text \<open>
  C9: while the database answers, the destinations of an event are those of the specification: all active
  ones when the source has no active rule (the comment of the function says the defaults); otherwise the
  active ones named by a rule whose conditions hold, and the defaults when no active one is named or the
  body is rejected by the decoder into an object. The body null is accepted and goes through the rules as
  a payload without fields. The priorities of the rules and their order make no difference.
\<close>

theorem ResolveDestinations_spec:
  assumes "pg_up s"
  shows "fst (ResolveDestinations parse parse_conds ff pf src body s)
    = Inr (chosen_dests parse parse_conds ff pf s src body)"
  by (rule ResolveDestinations_chosen [OF assms])

text \<open>A source with two active destinations, the first of them a default, and a rule for the second.\<close>

definition dest_row :: "string \<Rightarrow> string \<Rightarrow> Destination" where
  "dest_row i src =
    \<lparr>dest_ID = i, dest_SourceID = src, dest_Name = i, dest_URL = ''http://'' @ i, dest_TimeoutSeconds = 30,
     dest_IsActive = True, dest_CreatedAt = 0\<rparr>"

definition ruled_pg :: pg where
  "ruled_pg = (fresh_pg ''s'')\<lparr>
     pg_dests := [(dest_row ''d1'' ''s'', True), (dest_row ''d2'' ''s'', False)],
     pg_rules := [\<lparr>rr_ID = ''r'', rr_SourceID = ''s'', rr_DestinationID = ''d2'', rr_Name = [],
                   rr_Priority = 100, rr_LogicOperator = ''AND'', rr_Conditions = [], rr_IsActive = True\<rparr>]\<rparr>"

lemma ruled_pg_up [simp]: "pg_up ruled_pg"
  by (simp add: ruled_pg_def pg_up_def)

definition exists_a :: "bytes \<Rightarrow> Condition list option" where
  "exists_a b = Some [\<lparr>cd_Field = ''a'', cd_Operator = ''exists'', cd_Value = JNull\<rparr>]"

theorem ResolveDestinations_spec_witness:
  "fst (ResolveDestinations (\<lambda>_. Some (JObj [(''a'', JBool True)])) exists_a (\<lambda>_. ''1'') (\<lambda>_. None) ''s'' []
      ruled_pg) = Inr [dest_row ''d2'' ''s'']"
proof -
  have up: "pg_up ruled_pg" by (simp add: ruled_pg_def pg_up_def)
  have m: "rule_matches exists_a (\<lambda>_. ''1'') (\<lambda>_. None) (FlattenJSON [(''a'', JBool True)]) r" for r
    by (simp add: rule_matches_def exists_a_def EvaluateConditions_def EvaluateCondition_def
        FlattenJSON_def full_key_def)
  show ?thesis
    unfolding ResolveDestinations_spec [OF up]
    by (simp add: chosen_dests_def source_rules_def active_dests_def unmarshal_map_def map_entries_def m
        ruled_pg_def dest_row_def Let_def)
qed

text \<open>
  C32: whatever fails on the way, an event is never sent to a destination of another source or to one
  that is not active.
\<close>

theorem ResolveDestinations_safe:
  assumes "fst (ResolveDestinations parse parse_conds ff pf src body s) = Inr ds" "d \<in> set ds"
  shows "d \<in> fst ` set (pg_dests s) \<and> dest_SourceID d = src \<and> dest_IsActive d"
proof -
  have q: "d \<in> fst ` set (pg_dests s) \<and> dest_SourceID d = src \<and> dest_IsActive d"
    if "fst (GetDestinationsBySourceID src t) = Inr ds' \<or> fst (GetDefaultDestinations src t) = Inr ds'"
      "d \<in> set ds'" "pg_dests t = pg_dests s" for t ds'
    using that by (force simp: GetDestinationsBySourceID_def GetDefaultDestinations_def pg_query_def split: if_splits)
  have r: "snd (GetRoutingRules src s) = pg_tick s" by (simp add: GetRoutingRules_def)
  have t: "snd (GetDestinationsBySourceID src (pg_tick s)) = pg_tick (pg_tick s)"
    by (simp add: GetDestinationsBySourceID_def)
  show ?thesis
    using assms r t q [of "pg_tick s"] q [of "pg_tick (pg_tick s)"]
    by (fastforce simp: ResolveDestinations_def Let_def split: prod.splits sum.splits option.splits if_splits)
qed

theorem ResolveDestinations_safe_witness:
  "fst (ResolveDestinations (\<lambda>_. None) exists_a (\<lambda>_. ''1'') (\<lambda>_. None) ''s'' [] ruled_pg)
      = Inr [dest_row ''d1'' ''s'']
    \<and> dest_SourceID (dest_row ''d1'' ''s'') = ''s'' \<and> dest_IsActive (dest_row ''d1'' ''s'')"
proof -
  have r: "fst (ResolveDestinations (\<lambda>_. None) exists_a (\<lambda>_. ''1'') (\<lambda>_. None) ''s'' [] ruled_pg)
      = Inr [dest_row ''d1'' ''s'']"
    by code_simp
  from ResolveDestinations_safe [OF r] r show ?thesis by simp
qed

text \<open>
  An error of the read of the rules counts as a source without rules. When that one query fails,
  the event goes to all active destinations, also to those that no matching rule names.
\<close>

theorem rule_read_fault_sends_to_all:
  assumes "pg_faults s = [True]"
  shows "fst (ResolveDestinations parse parse_conds ff pf src body s) = Inr (active_dests s src)"
proof -
  have "GetRoutingRules src s = (Inl QueryFailed, pg_tick s)"
    using assms by (simp add: GetRoutingRules_def pg_query_def pg_fails_def)
  moreover have "pg_up (pg_tick s)" using assms by (simp add: pg_up_def pg_tick_def)
  ultimately show ?thesis by (simp add: ResolveDestinations_def)
qed

theorem rule_read_fault_sends_to_all_witness:
  "fst (ResolveDestinations (\<lambda>_. Some (JObj [(''a'', JBool True)])) exists_a (\<lambda>_. ''1'') (\<lambda>_. None) ''s'' []
      (ruled_pg\<lparr>pg_faults := [True]\<rparr>)) = Inr [dest_row ''d1'' ''s'', dest_row ''d2'' ''s'']"
  using rule_read_fault_sends_to_all [of "ruled_pg\<lparr>pg_faults := [True]\<rparr>" _ exists_a _ _ "''s''"]
  by (simp add: active_dests_def ruled_pg_def dest_row_def)

end
