(* ===== verification/Pubsub.thy ===== *)
theory Pubsub
  imports Models
begin

text \<open>
  \<open>internal/pubsub\<close>: what the services publish for the dashboard, the publisher and the subscriber. A
  publication is the type of an event and the map of its data; the map goes into an envelope, the
  envelope as JSON to one Redis channel. Redis hands a payload to the subscribers that are connected and
  keeps nothing, so the channel here is what has been handed to the subscriber and not been read.
\<close>

section \<open>Publications\<close>

text \<open>The values that the services put into a \<open>map[string]any\<close>; a time is in nanoseconds.\<close>

datatype go_value = GoStr string | GoInt int | GoBool bool | GoTime int

type_synonym publication = "string \<times> (string \<times> go_value) list"

definition EventWebhookReceived :: string where "EventWebhookReceived = ''webhook.received''"
definition EventWebhookDelivered :: string where "EventWebhookDelivered = ''webhook.delivered''"
definition EventExtractionComplete :: string where "EventExtractionComplete = ''extraction.complete''"
definition EventSchemaDrift :: string where "EventSchemaDrift = ''schema.drift''"
definition EventDeliveryFailed :: string where "EventDeliveryFailed = ''delivery.failed''"
definition EventDLQAdded :: string where "EventDLQAdded = ''dlq.added''"

lemmas event_types = EventWebhookReceived_def EventWebhookDelivered_def EventExtractionComplete_def
  EventSchemaDrift_def EventDeliveryFailed_def EventDLQAdded_def

text \<open>A publication names the source it is about.\<close>

definition about :: "string \<Rightarrow> publication \<Rightarrow> bool" where
  "about sourceID pub \<longleftrightarrow> map_of (snd pub) ''source_id'' = Some (GoStr sourceID)"

section \<open>The publisher\<close>

record Envelope =
  pe_Type :: string
  pe_Data :: "(string \<times> go_value) list"
  pe_Timestamp :: int

text \<open>
  \<open>marshal\<close> is \<open>json.Marshal\<close>. The command to Redis is answered, refused, or carried out with its reply
  lost. The result is the error of \<open>Publish\<close> and the channel.
\<close>

datatype publish_fate = Sent | Not_sent string | Sent_unanswered string

definition publish ::
    "(Envelope \<Rightarrow> bytes option) \<Rightarrow> publish_fate \<Rightarrow> int \<Rightarrow> publication \<Rightarrow> bytes list \<Rightarrow> string option \<times> bytes list" where
  "publish marshal redis now pub channel =
    (case marshal \<lparr>pe_Type = fst pub, pe_Data = snd pub, pe_Timestamp = now\<rparr> of
       None \<Rightarrow> (Some ''marshal pubsub envelope'', channel)
     | Some payload \<Rightarrow> (case redis of
         Sent \<Rightarrow> (None, channel @ [payload])
       | Not_sent err \<Rightarrow> (Some err, channel)
       | Sent_unanswered err \<Rightarrow> (Some err, channel @ [payload])))"

section \<open>The subscriber\<close>

text \<open>What the \<open>select\<close> of the loop picks, in the order in which it picks it.\<close>

datatype selected = Cancelled_ctx | Channel_closed | Received bytes

text \<open>The result tells whether the loop has returned; as long as it has not, it waits for more.\<close>

fun Subscribe :: "(bytes \<Rightarrow> 's \<Rightarrow> 's) \<Rightarrow> selected list \<Rightarrow> 's \<Rightarrow> bool \<times> 's" where
  "Subscribe handler [] s = (False, s)"
| "Subscribe handler (Cancelled_ctx # later) s = (True, s)"
| "Subscribe handler (Channel_closed # later) s = (True, s)"
| "Subscribe handler (Received payload # later) s = Subscribe handler later (handler payload s)"

lemma Subscribe_payloads: "Subscribe handler (map Received ps @ later) s = Subscribe handler later (fold handler ps s)"
  by (induction ps arbitrary: s) auto

section \<open>What JSON keeps\<close>

text \<open>
  The value that decoding finds for an encoded one: \<open>num\<close> is the \<open>float64\<close> of an integer and \<open>stamp\<close> the
  text of a time.
\<close>

fun json_of :: "(int \<Rightarrow> float64) \<Rightarrow> (int \<Rightarrow> string) \<Rightarrow> go_value \<Rightarrow> json" where
  "json_of num stamp (GoStr s) = JStr (to_valid s)"
| "json_of num stamp (GoInt n) = JNum (num n)"
| "json_of num stamp (GoBool b) = JBool b"
| "json_of num stamp (GoTime t) = JStr (stamp t)"

text \<open>
  The documented behaviour of \<open>encoding/json\<close> on an envelope: from its text \<open>payload\<close>, \<open>decode\<close> (into the
  envelope of the hub) finds the type and the text \<open>data\<close> of the data, and \<open>parse\<close> in it the same keys
  with their values.
\<close>

definition carries ::
    "(bytes \<Rightarrow> (string \<times> bytes) option) \<Rightarrow> (bytes \<Rightarrow> json option) \<Rightarrow> (int \<Rightarrow> float64) \<Rightarrow> (int \<Rightarrow> string)
     \<Rightarrow> Envelope \<Rightarrow> bytes \<Rightarrow> bytes \<Rightarrow> bool" where
  "carries decode parse num stamp env payload data \<longleftrightarrow>
    decode payload = Some (to_valid (pe_Type env), data)
    \<and> (\<exists>m. parse data = Some (JObj m) \<and> (\<forall>k. map_of m k = map_option (json_of num stamp) (map_of (pe_Data env) k)))"

end
