(* ===== verification/Delivery.thy ===== *)
theory Delivery
  imports Routing Queue Pubsub
begin

text \<open>
  \<open>internal/delivery/engine.go\<close>: delivery of an event to its destinations, with retries, the dead
  letter queue, the comparison with the previous event and recovery after a restart. One goroutine
  is a trace of actions; the goroutines of an event run interleaved. What the outside decides (the
  answers of a destination, cancellation, the clock) is the record \<open>net\<close>.
\<close>

section \<open>Actions\<close>

record HttpRequest =
  hr_URL :: string
  hr_Body :: bytes
  hr_Headers :: "string gomap"

text \<open>An answer with its status, a URL that makes no request, a request that failed; and the time it took.\<close>

datatype http_outcome = Responded int int | NoRequest string int | NoResponse string int

datatype action =
    Wait int
  | Post HttpRequest
  | RecordAttempt DeliveryAttempt
  | PushDLQ WebhookEvent
  | RecordDLQ DeadLetterEntry
  | Publish publication
  | RecordLatency int

datatype result = Delivered | Rejected | Exhausted | Cancelled | Panicked

record net =
  nt_answer :: "int \<Rightarrow> http_outcome"
  nt_cancelled :: "int \<Rightarrow> bool"
  nt_now :: "int \<Rightarrow> int"
  nt_failed_at :: int

definition seconds :: "int \<Rightarrow> int" where
  "seconds n = n * 1000000000"

definition retryDelays :: "int list" where
  "retryDelays = [0, seconds 5, seconds 30, seconds 120]"

section \<open>One destination\<close>

text \<open>\<open>http.Header.Set\<close> stores a value under the canonical form of its key.\<close>

definition delivery_request :: "(string \<Rightarrow> string) \<Rightarrow> WebhookEvent \<Rightarrow> Destination \<Rightarrow> HttpRequest" where
  "delivery_request canonical event dest =
    \<lparr>hr_URL = dest_URL dest, hr_Body = ev_RawBody event,
     hr_Headers = fold (\<lambda>p. gm_set (canonical (fst p)) (snd p)) (ev_Headers event) []\<rparr>"

definition attemptDelivery ::
    "(string \<Rightarrow> string) \<Rightarrow> http_outcome \<Rightarrow> WebhookEvent \<Rightarrow> Destination
     \<Rightarrow> action list \<times> int \<times> int \<times> string option" where
  "attemptDelivery canonical answer event dest =
    (case answer of
       NoRequest err d \<Rightarrow> ([], 0, d, Some (''create request: '' @ err))
     | NoResponse err d \<Rightarrow>
         ([Post (delivery_request canonical event dest)], 0, d, Some (''execute request: '' @ err))
     | Responded code d \<Rightarrow> ([Post (delivery_request canonical event dest)], code, d, None))"

definition moveToDLQ :: "int \<Rightarrow> WebhookEvent \<Rightarrow> Destination \<Rightarrow> string \<Rightarrow> action list" where
  "moveToDLQ now event dest reason =
    [PushDLQ event,
     RecordDLQ \<lparr>dl_EventID = ev_ID event, dl_SourceID = ev_SourceID event, dl_DestinationID = dest_ID dest,
       dl_RawBody = ev_RawBody event, dl_Headers = ev_Headers event, dl_FailedAt = now,
       dl_FailureReason = reason, dl_Resolved = False, dl_ResolvedAt = None\<rparr>,
     Publish (EventDLQAdded, [(''event_id'', GoStr (ev_ID event)), (''source_id'', GoStr (ev_SourceID event)),
       (''destination_id'', GoStr (dest_ID dest)), (''reason'', GoStr reason)])]"

definition attempt_record ::
    "WebhookEvent \<Rightarrow> Destination \<Rightarrow> int \<Rightarrow> int \<Rightarrow> int \<Rightarrow> int \<Rightarrow> string option \<Rightarrow> DeliveryAttempt" where
  "attempt_record event dest attempt now code d err =
    \<lparr>da_EventID = ev_ID event, da_SourceID = ev_SourceID event, da_DestinationID = dest_ID dest,
     da_AttemptNumber = attempt, da_AttemptedAt = now, da_StatusCode = code,
     da_Success = (err = None \<and> 200 \<le> code \<and> code < 300),
     da_ErrorMessage = (case err of None \<Rightarrow> [] | Some m \<Rightarrow> m), da_DurationMs = quot d 1000000\<rparr>"

definition delivered_publication :: "WebhookEvent \<Rightarrow> Destination \<Rightarrow> int \<Rightarrow> int \<Rightarrow> publication" where
  "delivered_publication event dest statusCode duration =
    (EventWebhookDelivered, [(''event_id'', GoStr (ev_ID event)), (''source_id'', GoStr (ev_SourceID event)),
       (''destination_id'', GoStr (dest_ID dest)), (''status_code'', GoInt statusCode),
       (''duration_ms'', GoInt (quot duration 1000000))])"

text \<open>
  The loop of \<open>deliverToDestination\<close>, over the attempts still to make. The index of \<open>retryDelays\<close> is
  not checked against its length.
\<close>

fun deliver_loop ::
    "(string \<Rightarrow> string) \<Rightarrow> net \<Rightarrow> int \<Rightarrow> WebhookEvent \<Rightarrow> Destination \<Rightarrow> int list \<Rightarrow> action list \<times> result" where
  "deliver_loop canonical nt maxRetries event dest [] =
     (Publish (EventDeliveryFailed, [(''event_id'', GoStr (ev_ID event)), (''source_id'', GoStr (ev_SourceID event)),
          (''destination_id'', GoStr (dest_ID dest)), (''attempts'', GoInt maxRetries)])
        # moveToDLQ (nt_failed_at nt) event dest
            (''exhausted '' @ format_int maxRetries @ '' delivery attempts''), Exhausted)"
| "deliver_loop canonical nt maxRetries event dest (attempt # later) =
     (if attempt > 1 \<and> nat (attempt - 1) \<ge> length retryDelays then ([], Panicked)
      else
        let wait = (if attempt > 1 then [Wait (retryDelays ! nat (attempt - 1))] else []) in
        if attempt > 1 \<and> nt_cancelled nt attempt then (wait, Cancelled)
        else
          (case attemptDelivery canonical (nt_answer nt attempt) event dest of
             (post, statusCode, duration, err) \<Rightarrow>
               let rec = attempt_record event dest attempt (nt_now nt attempt) statusCode duration err;
                   done = wait @ post @ [RecordAttempt rec]
               in if da_Success rec
                  then (done @ [Publish (delivered_publication event dest statusCode duration),
                                RecordLatency (quot duration 1000000)], Delivered)
                  else if 400 \<le> statusCode \<and> statusCode < 500
                  then (done @ moveToDLQ (nt_failed_at nt) event dest
                          (''permanent failure: HTTP '' @ format_int statusCode), Rejected)
                  else (case deliver_loop canonical nt maxRetries event dest later of
                          (acts, r) \<Rightarrow> (done @ acts, r))))"

definition deliverToDestination ::
    "(string \<Rightarrow> string) \<Rightarrow> net \<Rightarrow> int \<Rightarrow> WebhookEvent \<Rightarrow> Destination \<Rightarrow> action list \<times> result" where
  "deliverToDestination canonical nt maxRetries event dest =
    deliver_loop canonical nt maxRetries event dest [1..maxRetries]"

section \<open>One event\<close>

record services =
  sv_pg :: pg
  sv_rd :: redis
  sv_sc :: scylla

definition perform :: "action \<Rightarrow> services \<Rightarrow> services" where
  "perform a s =
    (case a of
       RecordAttempt r \<Rightarrow> s\<lparr>sv_pg := snd (InsertDeliveryAttempt r (sv_pg s))\<rparr>
     | RecordDLQ e \<Rightarrow> s\<lparr>sv_pg := snd (InsertDeadLetterEntry e (sv_pg s))\<rparr>
     | PushDLQ e \<Rightarrow> s\<lparr>sv_rd := snd (Enqueue QueueDLQ e (sv_rd s))\<rparr>
     | _ \<Rightarrow> s)"

text \<open>The actions of concurrent goroutines, in any order that keeps each one's own.\<close>

inductive interleaved :: "'a list list \<Rightarrow> 'a list \<Rightarrow> bool" where
  finished: "\<forall>t \<in> set ts. t = [] \<Longrightarrow> interleaved ts []"
| turn: "i < length ts \<Longrightarrow> ts ! i = a # t \<Longrightarrow> interleaved (ts[i := t]) as \<Longrightarrow> interleaved ts (a # as)"

record engine =
  en_parse :: "bytes \<Rightarrow> json option"
  en_parse_conds :: "bytes \<Rightarrow> Condition list option"
  en_print :: "json \<Rightarrow> bytes"
  en_ff :: "float64 \<Rightarrow> string"
  en_pf :: "string \<Rightarrow> float64 option"
  en_uuid :: "string \<Rightarrow> string option"
  en_canonical :: "string \<Rightarrow> string"
  en_maxRetries :: int
  en_minSamples :: int

text \<open>\<open>libs\<close> gives the libraries that the engine uses.\<close>

definition NewEngine :: "engine \<Rightarrow> int \<Rightarrow> int \<Rightarrow> engine" where
  "NewEngine libs maxRetries schemaMinSamples = libs\<lparr>en_maxRetries := maxRetries, en_minSamples := schemaMinSamples\<rparr>"

text \<open>
  The part of \<open>deliverEvent\<close> before the fan-out: the archive, schema inference, drift detection and
  the choice of destinations. An error of \<open>ResolveDestinations\<close> and an empty choice end it.
\<close>

definition inspect_event :: "engine \<Rightarrow> int \<Rightarrow> WebhookEvent \<Rightarrow> services \<Rightarrow> DriftEvent list \<times> services" where
  "inspect_event en now event s =
    (let s1 = s\<lparr>sv_sc := snd (InsertEvent (en_uuid en) event (sv_sc s))\<rparr> in
     case unmarshal_map (en_parse en) (ev_RawBody event) of
       None \<Rightarrow> ([], s1)
     | Some payload \<Rightarrow>
         let pg1 = UpdateSchema GetPayloadSchema UpsertPayloadSchema (ev_SourceID event)
                     (map_entries payload) (en_minSamples en) now (sv_pg s1);
             (drifts, pg2) = CheckDrift GetPayloadSchema InsertDriftEvent (ev_SourceID event) (ev_ID event)
                     (map_entries payload) now pg1
         in (drifts, s1\<lparr>sv_pg := pg2\<rparr>))"

text \<open>The drifts found are published one by one.\<close>

definition drift_publications :: "WebhookEvent \<Rightarrow> DriftEvent list \<Rightarrow> publication list" where
  "drift_publications event drifts =
    map (\<lambda>d. (EventSchemaDrift, [(''source_id'', GoStr (ev_SourceID event)), (''event_id'', GoStr (ev_ID event)),
       (''drift_type'', GoStr (dr_DriftType d)), (''field_name'', GoStr (dr_FieldName d))])) drifts"

definition event_destinations :: "engine \<Rightarrow> WebhookEvent \<Rightarrow> services \<Rightarrow> Destination list \<times> services" where
  "event_destinations en event s =
    (case ResolveDestinations (en_parse en) (en_parse_conds en) (en_ff en) (en_pf en) (ev_SourceID event)
            (ev_RawBody event) (sv_pg s) of
       (Inl _, pg) \<Rightarrow> ([], s\<lparr>sv_pg := pg\<rparr>)
     | (Inr dests, pg) \<Rightarrow> (dests, s\<lparr>sv_pg := pg\<rparr>))"

definition fan_out :: "engine \<Rightarrow> (string \<Rightarrow> net) \<Rightarrow> WebhookEvent \<Rightarrow> Destination list \<Rightarrow> action list list" where
  "fan_out en nets event dests =
    map (\<lambda>d. fst (deliverToDestination (en_canonical en) (nets (dest_ID d)) (en_maxRetries en) event d)) dests"

text \<open>
  The effect on the stores and the destinations. The publications of drifts, the latency that is measured before
  the destinations are chosen, and the comparison with the previous event, which runs in a goroutine of
  its own, are in the theories Streams, Measures and Diffs.
\<close>

inductive deliverEvent ::
    "engine \<Rightarrow> (string \<Rightarrow> net) \<Rightarrow> int \<Rightarrow> WebhookEvent \<Rightarrow> services \<Rightarrow> services \<Rightarrow> bool" where
  "inspect_event en now event s = (drifts, s1) \<Longrightarrow> event_destinations en event s1 = (dests, s2)
    \<Longrightarrow> interleaved (fan_out en nets event dests) as
    \<Longrightarrow> deliverEvent en nets now event s (fold perform as s2)"

text \<open>One round of a worker of \<open>Run\<close>; an error of the queue and an empty queue end the round.\<close>

inductive delivery_worker :: "engine \<Rightarrow> (string \<Rightarrow> net) \<Rightarrow> int \<Rightarrow> services \<Rightarrow> services \<Rightarrow> bool" where
  nothing: "Dequeue False QueueDelivery (sv_rd s) = (r, q) \<Longrightarrow> r = Inr None \<or> (\<exists>err. r = Inl err)
    \<Longrightarrow> delivery_worker en nets now s (s\<lparr>sv_rd := q\<rparr>)"
| deliver: "Dequeue False QueueDelivery (sv_rd s) = (Inr (Some event), q)
    \<Longrightarrow> deliverEvent en nets now event (s\<lparr>sv_rd := q\<rparr>) s' \<Longrightarrow> delivery_worker en nets now s s'"

section \<open>The comparison with the previous event\<close>

definition diff_entries :: "json gomap \<Rightarrow> json gomap \<Rightarrow> json gomap" where
  "diff_entries flat other = filter (\<lambda>(k, v). gm_get other k = None) flat"

definition diff_changed :: "(float64 \<Rightarrow> string) \<Rightarrow> json gomap \<Rightarrow> json gomap \<Rightarrow> (string \<times> json \<times> json) list" where
  "diff_changed ff flat1 flat2 =
    concat (map (\<lambda>(k, v). case gm_get flat2 k of
        None \<Rightarrow> []
      | Some pv \<Rightarrow> if fmt_v ff v \<noteq> fmt_v ff pv then [(k, pv, v)] else []) flat1)"

text \<open>A \<open>nil\<close> slice is written \<open>null\<close>.\<close>

definition diff_json :: "(float64 \<Rightarrow> string) \<Rightarrow> json gomap \<Rightarrow> json gomap \<Rightarrow> json" where
  "diff_json ff flat1 flat2 =
    JObj [(''added'', JObj (diff_entries flat1 flat2)),
          (''removed'', JObj (diff_entries flat2 flat1)),
          (''changed'', case diff_changed ff flat1 flat2 of
               [] \<Rightarrow> JNull
             | cs \<Rightarrow> JArr (map (\<lambda>(k, old, new).
                 JObj [(''field'', JStr k), (''old_value'', old), (''new_value'', new)]) cs))]"

definition computeDiffAsync :: "engine \<Rightarrow> WebhookEvent \<Rightarrow> json gomap \<Rightarrow> services \<Rightarrow> services" where
  "computeDiffAsync en event currentPayload s =
    (case GetPreviousEventID (ev_SourceID event) (ev_ID event) (sv_pg s) of
       (Inl _, pg) \<Rightarrow> s\<lparr>sv_pg := pg\<rparr>
     | (Inr prevEventID, pg) \<Rightarrow>
         (case GetEvent (en_uuid en) (ev_SourceID event) prevEventID (sv_sc s) of
            (None, sc) \<Rightarrow> s\<lparr>sv_pg := pg, sv_sc := sc\<rparr>
          | (Some prevEvent, sc) \<Rightarrow>
              (case unmarshal_map (en_parse en) (ev_RawBody prevEvent) of
                 None \<Rightarrow> s\<lparr>sv_pg := pg, sv_sc := sc\<rparr>
               | Some prevPayload \<Rightarrow>
                   let diff = diff_json (en_ff en) (FlattenJSON currentPayload)
                                (FlattenJSON (map_entries prevPayload))
                   in s\<lparr>sv_pg := snd (InsertWebhookDiff (ev_ID event) (ev_SourceID event) prevEventID
                                       (en_print en diff) pg), sv_sc := sc\<rparr>)))"

section \<open>Recovery\<close>

definition recovery_delay :: "int \<Rightarrow> int" where
  "recovery_delay attempts =
    (if nat attempts < length retryDelays then retryDelays ! nat attempts else retryDelays ! 0)"

definition recover_one ::
    "engine \<Rightarrow> int \<Rightarrow> IncompleteDelivery \<Rightarrow> services \<Rightarrow> services" where
  "recover_one en now d s =
    (if now - id_LastAttemptAt d < recovery_delay (id_AttemptNumber d) then s
     else case GetEvent (en_uuid en) (id_SourceID d) (id_EventID d) (sv_sc s) of
            (None, sc) \<Rightarrow> s\<lparr>sv_sc := sc\<rparr>
          | (Some event, sc) \<Rightarrow> s\<lparr>sv_sc := sc, sv_rd := snd (Enqueue QueueDelivery event (sv_rd s))\<rparr>)"

definition RecoverIncomplete :: "engine \<Rightarrow> int \<Rightarrow> services \<Rightarrow> services" where
  "RecoverIncomplete en now s =
    (case GetIncompleteDeliveries (sv_pg s) of
       (Inl _, pg) \<Rightarrow> s\<lparr>sv_pg := pg\<rparr>
     | (Inr incomplete, pg) \<Rightarrow> fold (recover_one en now) incomplete (s\<lparr>sv_pg := pg\<rparr>))"

section \<open>What one goroutine does\<close>

definition attempts_of :: "action list \<Rightarrow> DeliveryAttempt list" where
  "attempts_of as = List.map_filter (\<lambda>a. case a of RecordAttempt r \<Rightarrow> Some r | _ \<Rightarrow> None) as"

definition pushed_of :: "action list \<Rightarrow> WebhookEvent list" where
  "pushed_of as = List.map_filter (\<lambda>a. case a of PushDLQ e \<Rightarrow> Some e | _ \<Rightarrow> None) as"

definition dead_of :: "action list \<Rightarrow> DeadLetterEntry list" where
  "dead_of as = List.map_filter (\<lambda>a. case a of RecordDLQ e \<Rightarrow> Some e | _ \<Rightarrow> None) as"

definition posts_of :: "action list \<Rightarrow> HttpRequest list" where
  "posts_of as = List.map_filter (\<lambda>a. case a of Post r \<Rightarrow> Some r | _ \<Rightarrow> None) as"

definition waits_of :: "action list \<Rightarrow> int list" where
  "waits_of as = List.map_filter (\<lambda>a. case a of Wait n \<Rightarrow> Some n | _ \<Rightarrow> None) as"

lemma map_filter_append: "List.map_filter f (xs @ ys) = List.map_filter f xs @ List.map_filter f ys"
  by (induction xs) (auto simp: map_filter_simps split: option.splits)

lemmas of_defs = attempts_of_def pushed_of_def dead_of_def posts_of_def waits_of_def

lemma of_simps [simp]:
  "attempts_of [] = []" "attempts_of (a # as) = (case a of RecordAttempt r \<Rightarrow> [r] | _ \<Rightarrow> []) @ attempts_of as"
  "attempts_of (as @ bs) = attempts_of as @ attempts_of bs"
  "pushed_of [] = []" "pushed_of (a # as) = (case a of PushDLQ r \<Rightarrow> [r] | _ \<Rightarrow> []) @ pushed_of as"
  "pushed_of (as @ bs) = pushed_of as @ pushed_of bs"
  "dead_of [] = []" "dead_of (a # as) = (case a of RecordDLQ r \<Rightarrow> [r] | _ \<Rightarrow> []) @ dead_of as"
  "dead_of (as @ bs) = dead_of as @ dead_of bs"
  "posts_of [] = []" "posts_of (a # as) = (case a of Post r \<Rightarrow> [r] | _ \<Rightarrow> []) @ posts_of as"
  "posts_of (as @ bs) = posts_of as @ posts_of bs"
  "waits_of [] = []" "waits_of (a # as) = (case a of Wait r \<Rightarrow> [r] | _ \<Rightarrow> []) @ waits_of as"
  "waits_of (as @ bs) = waits_of as @ waits_of bs"
  by (simp_all add: of_defs map_filter_append map_filter_simps split: action.split)

text \<open>An answer is a success, a permanent failure, or reason to try again.\<close>

definition accepted :: "http_outcome \<Rightarrow> bool" where
  "accepted o' = (case o' of Responded c _ \<Rightarrow> 200 \<le> c \<and> c < 300 | _ \<Rightarrow> False)"

definition refused :: "http_outcome \<Rightarrow> bool" where
  "refused o' = (case o' of Responded c _ \<Rightarrow> 400 \<le> c \<and> c < 500 | _ \<Rightarrow> False)"

definition record_for :: "net \<Rightarrow> WebhookEvent \<Rightarrow> Destination \<Rightarrow> int \<Rightarrow> DeliveryAttempt" where
  "record_for nt event dest n =
    (case attemptDelivery id (nt_answer nt n) event dest of
       (_, code, d, err) \<Rightarrow> attempt_record event dest n (nt_now nt n) code d err)"

lemma record_for_simps [simp]:
  "da_AttemptNumber (record_for nt ev d n) = n" "da_EventID (record_for nt ev d n) = ev_ID ev"
  "da_DestinationID (record_for nt ev d n) = dest_ID d"
  "da_Success (record_for nt ev d n) = accepted (nt_answer nt n)"
  by (auto simp: record_for_def attemptDelivery_def attempt_record_def accepted_def split: http_outcome.splits)

lemma not_both: "accepted x \<Longrightarrow> \<not> refused x"
  by (auto simp: accepted_def refused_def split: http_outcome.splits)

lemma moveToDLQ_of [simp]:
  "attempts_of (moveToDLQ now ev d r) = []" "pushed_of (moveToDLQ now ev d r) = [ev]"
  "posts_of (moveToDLQ now ev d r) = []" "waits_of (moveToDLQ now ev d r) = []"
  "map dl_EventID (dead_of (moveToDLQ now ev d r)) = [ev_ID ev]"
  "map dl_DestinationID (dead_of (moveToDLQ now ev d r)) = [dest_ID d]"
  by (simp_all add: moveToDLQ_def)

text \<open>One round of the loop, in terms of the answer.\<close>

lemma deliver_loop_round:
  "deliver_loop c nt m ev d (n # ns) =
    (if n > 1 \<and> nat (n - 1) \<ge> length retryDelays then ([], Panicked)
     else if n > 1 \<and> nt_cancelled nt n then ([Wait (retryDelays ! nat (n - 1))], Cancelled)
     else (let done = (if n > 1 then [Wait (retryDelays ! nat (n - 1))] else [])
                 @ fst (attemptDelivery c (nt_answer nt n) ev d) @ [RecordAttempt (record_for nt ev d n)];
               (_, code, dur, _) = attemptDelivery c (nt_answer nt n) ev d in
           if accepted (nt_answer nt n)
           then (done @ [Publish (delivered_publication ev d code dur), RecordLatency (quot dur 1000000)],
                 Delivered)
           else if refused (nt_answer nt n)
           then (done @ moveToDLQ (nt_failed_at nt) ev d (''permanent failure: HTTP '' @ format_int code), Rejected)
           else (done @ fst (deliver_loop c nt m ev d ns), snd (deliver_loop c nt m ev d ns))))"
  by (cases "nt_answer nt n")
     (auto simp: Let_def attemptDelivery_def attempt_record_def record_for_def accepted_def refused_def
       case_prod_unfold)

lemma attempts_post [simp]:
  "attempts_of (fst (attemptDelivery c a ev d)) = []" "pushed_of (fst (attemptDelivery c a ev d)) = []"
  "dead_of (fst (attemptDelivery c a ev d)) = []" "waits_of (fst (attemptDelivery c a ev d)) = []"
  by (auto simp: attemptDelivery_def split: http_outcome.splits)

lemma posts_post: "set (posts_of (fst (attemptDelivery c a ev d))) \<subseteq> {delivery_request c ev d}"
  by (auto simp: attemptDelivery_def split: http_outcome.splits)

text \<open>
  The reference: a goroutine that is not disturbed makes the attempts up to the first answer that
  decides, and the answer decides its result.
\<close>

definition decisive :: "http_outcome \<Rightarrow> bool" where
  "decisive x \<longleftrightarrow> accepted x \<or> refused x"

lemma deliver_loop_reference:
  assumes "\<forall>n \<in> set ns. n \<le> 4 \<and> (n > 1 \<longrightarrow> \<not> nt_cancelled nt n)"
  shows "snd (deliver_loop c nt m ev d ns) =
      (case find (\<lambda>n. decisive (nt_answer nt n)) ns of
         None \<Rightarrow> Exhausted | Some n \<Rightarrow> if accepted (nt_answer nt n) then Delivered else Rejected)
    \<and> attempts_of (fst (deliver_loop c nt m ev d ns)) = map (record_for nt ev d)
      (takeWhile (\<lambda>n. \<not> decisive (nt_answer nt n)) ns
       @ (case find (\<lambda>n. decisive (nt_answer nt n)) ns of None \<Rightarrow> [] | Some n \<Rightarrow> [n]))"
  using assms
proof (induction ns)
  case Nil
  then show ?case by simp
next
  case (Cons n ns)
  have IH: "snd (deliver_loop c nt m ev d ns) =
      (case find (\<lambda>n. decisive (nt_answer nt n)) ns of
         None \<Rightarrow> Exhausted | Some n \<Rightarrow> if accepted (nt_answer nt n) then Delivered else Rejected)
    \<and> attempts_of (fst (deliver_loop c nt m ev d ns)) = map (record_for nt ev d)
      (takeWhile (\<lambda>n. \<not> decisive (nt_answer nt n)) ns
       @ (case find (\<lambda>n. decisive (nt_answer nt n)) ns of None \<Rightarrow> [] | Some n \<Rightarrow> [n]))"
    by (rule Cons.IH) (use Cons.prems in auto)
  have n: "\<not> (n > 1 \<and> nat (n - 1) \<ge> length retryDelays)" "\<not> (n > 1 \<and> nt_cancelled nt n)"
    using Cons.prems by (auto simp: retryDelays_def)
  show ?case
    unfolding deliver_loop_round if_not_P [OF n(1)] if_not_P [OF n(2)]
    using IH by (auto simp: decisive_def Let_def case_prod_unfold)
qed

text \<open>What holds of every run, disturbed or not.\<close>

lemma deliver_loop_always:
  "(snd (deliver_loop c nt m ev d ns) = Delivered
      \<longleftrightarrow> (\<exists>a \<in> set (attempts_of (fst (deliver_loop c nt m ev d ns))). da_Success a))
   \<and> length (filter da_Success (attempts_of (fst (deliver_loop c nt m ev d ns)))) \<le> 1
   \<and> pushed_of (fst (deliver_loop c nt m ev d ns))
      = (if snd (deliver_loop c nt m ev d ns) \<in> {Rejected, Exhausted} then [ev] else [])
   \<and> map dl_EventID (dead_of (fst (deliver_loop c nt m ev d ns)))
      = (if snd (deliver_loop c nt m ev d ns) \<in> {Rejected, Exhausted} then [ev_ID ev] else [])
   \<and> map dl_DestinationID (dead_of (fst (deliver_loop c nt m ev d ns)))
      = (if snd (deliver_loop c nt m ev d ns) \<in> {Rejected, Exhausted} then [dest_ID d] else [])
   \<and> (snd (deliver_loop c nt m ev d ns) = Cancelled \<longrightarrow> (\<exists>n \<in> set ns. n > 1 \<and> nt_cancelled nt n))
   \<and> (snd (deliver_loop c nt m ev d ns) = Panicked \<longrightarrow> (\<exists>n \<in> set ns. n > 4))"
proof (induction ns)
  case (Cons n ns)
  have l: "length retryDelays = 4" by (simp add: retryDelays_def)
  show ?case
    unfolding deliver_loop_round l
    using Cons.IH by (auto simp: Let_def case_prod_unfold not_both)
qed simp

lemma deliver_loop_numbers:
  "\<exists>k \<le> length ns. map da_AttemptNumber (attempts_of (fst (deliver_loop c nt m ev d ns))) = take k ns"
proof (induction ns)
  case (Cons n ns)
  then obtain k where k: "k \<le> length ns"
    "map da_AttemptNumber (attempts_of (fst (deliver_loop c nt m ev d ns))) = take k ns" by blast
  let ?as = "attempts_of (fst (deliver_loop c nt m ev d (n # ns)))"
  have "?as \<in> {[], [record_for nt ev d n],
      record_for nt ev d n # attempts_of (fst (deliver_loop c nt m ev d ns))}"
    unfolding deliver_loop_round by (simp add: Let_def case_prod_unfold)
  then have "map da_AttemptNumber ?as \<in> {take 0 (n # ns), take (Suc 0) (n # ns), take (Suc k) (n # ns)}"
    using k(2) by (elim insertE emptyE) (simp_all del: deliver_loop.simps)
  with k(1) show ?case
    by (elim insertE emptyE) (metis zero_le, metis Suc_le_mono length_Cons zero_le, metis Suc_le_mono length_Cons)
qed simp

lemma deliver_loop_requests:
  "set (posts_of (fst (deliver_loop c nt m ev d ns))) \<subseteq> {delivery_request c ev d}
   \<and> length (posts_of (fst (deliver_loop c nt m ev d ns))) \<le> length (attempts_of (fst (deliver_loop c nt m ev d ns)))
   \<and> (\<forall>a \<in> set (attempts_of (fst (deliver_loop c nt m ev d ns))).
        da_EventID a = ev_ID ev \<and> da_DestinationID a = dest_ID d)"
proof (induction ns)
  case (Cons n ns)
  have "length (posts_of (fst (attemptDelivery c (nt_answer nt n) ev d))) \<le> 1"
    by (auto simp: attemptDelivery_def split: http_outcome.splits)
  with Cons.IH show ?case
    unfolding deliver_loop_round
    using posts_post [of c "nt_answer nt n" ev d] by (auto simp: Let_def case_prod_unfold)
qed simp

lemma delivery_goroutine':
  assumes "deliverToDestination c nt m ev d = (as, r)"
  shows "(\<exists>k. k \<le> max 0 m \<and> map da_AttemptNumber (attempts_of as) = [1..k])
    \<and> set (posts_of as) \<subseteq> {delivery_request c ev d}
    \<and> (\<forall>a \<in> set (attempts_of as). da_EventID a = ev_ID ev \<and> da_DestinationID a = dest_ID d)
    \<and> (r = Delivered \<longleftrightarrow> (\<exists>a \<in> set (attempts_of as). da_Success a))
    \<and> length (filter da_Success (attempts_of as)) \<le> 1
    \<and> pushed_of as = (if r \<in> {Rejected, Exhausted} then [ev] else [])
    \<and> map (\<lambda>e. (dl_EventID e, dl_DestinationID e)) (dead_of as)
        = (if r \<in> {Rejected, Exhausted} then [(ev_ID ev, dest_ID d)] else [])"
proof -
  have as: "as = fst (deliver_loop c nt m ev d [1..m])" and r: "r = snd (deliver_loop c nt m ev d [1..m])"
    using assms by (simp_all add: deliverToDestination_def)
  obtain k where k: "k \<le> length [1..m]" "map da_AttemptNumber (attempts_of as) = take k [1..m]"
    using deliver_loop_numbers [of "[1..m]" c nt m ev d] as by blast
  have "take k [1..m] = [1..int k]"
    using k(1) by (intro nth_equalityI) (auto simp: nth_upto)
  with k have "\<exists>k. k \<le> max 0 m \<and> map da_AttemptNumber (attempts_of as) = [1..k]"
    by (intro exI [of _ "int k"]) auto
  moreover have "map (\<lambda>e. (dl_EventID e, dl_DestinationID e)) (dead_of as)
      = zip (map dl_EventID (dead_of as)) (map dl_DestinationID (dead_of as))"
    by (simp add: zip_map_map zip_same_conv_map)
  ultimately show ?thesis
    using deliver_loop_always [of c nt m ev d "[1..m]"] deliver_loop_requests [of c nt m ev d "[1..m]"]
    unfolding as [symmetric] r [symmetric] by simp
qed

text \<open>
  One goroutine keeps its books. Whatever the destination answers and whenever it is cancelled, its
  attempts are numbered 1, 2, 3 and so on without a gap and never beyond the configured maximum, every
  request carries the body and headers of the event, at most one attempt is a success and it is the
  last word; the event goes to the dead letter queue, once in Redis and once in Postgres, exactly when
  the goroutine ends rejected or exhausted.
\<close>

theorem delivery_goroutine:
  assumes "deliverToDestination c nt m ev d = (as, r)"
  shows "(\<exists>k. k \<le> max 0 m \<and> map da_AttemptNumber (attempts_of as) = [1..k])
    \<and> set (posts_of as) \<subseteq> {delivery_request c ev d}
    \<and> (\<forall>a \<in> set (attempts_of as). da_EventID a = ev_ID ev \<and> da_DestinationID a = dest_ID d)
    \<and> (r = Delivered \<longleftrightarrow> (\<exists>a \<in> set (attempts_of as). da_Success a))
    \<and> length (filter da_Success (attempts_of as)) \<le> 1
    \<and> pushed_of as = (if r \<in> {Rejected, Exhausted} then [ev] else [])
    \<and> map (\<lambda>e. (dl_EventID e, dl_DestinationID e)) (dead_of as)
        = (if r \<in> {Rejected, Exhausted} then [(ev_ID ev, dest_ID d)] else [])"
  by (rule delivery_goroutine' [OF assms])

text \<open>An engine's outside that always answers the same.\<close>

definition steady :: "http_outcome \<Rightarrow> net" where
  "steady a = \<lparr>nt_answer = (\<lambda>_. a), nt_cancelled = (\<lambda>_. False), nt_now = (\<lambda>n. n), nt_failed_at = 9\<rparr>"

theorem delivery_goroutine_witness:
  "\<exists>as r. deliverToDestination id (steady (Responded 500 7)) 2 (plain ''e'' ''s'' []) (dest_row ''d1'' ''s'') = (as, r)
    \<and> length (filter da_Success (attempts_of as)) \<le> 1"
proof -
  obtain as r where e: "deliverToDestination id (steady (Responded 500 7)) 2 (plain ''e'' ''s'' [])
      (dest_row ''d1'' ''s'') = (as, r)" by fastforce
  from delivery_goroutine [OF e] show ?thesis using e by auto
qed

text \<open>
  C5: the loop against its reference. With at most four attempts and no shutdown, the goroutine makes
  exactly the attempts up to the first answer that decides (2xx or 4xx) and that answer decides the
  result; with no such answer it makes all of them and gives up.
\<close>

theorem delivery_reference:
  assumes "m \<le> 4" "\<forall>n. \<not> nt_cancelled nt n"
  shows "snd (deliverToDestination c nt m ev d) =
      (case find (\<lambda>n. decisive (nt_answer nt n)) [1..m] of
         None \<Rightarrow> Exhausted | Some n \<Rightarrow> if accepted (nt_answer nt n) then Delivered else Rejected)
    \<and> attempts_of (fst (deliverToDestination c nt m ev d)) = map (record_for nt ev d)
      (takeWhile (\<lambda>n. \<not> decisive (nt_answer nt n)) [1..m]
       @ (case find (\<lambda>n. decisive (nt_answer nt n)) [1..m] of None \<Rightarrow> [] | Some n \<Rightarrow> [n]))"
  unfolding deliverToDestination_def by (rule deliver_loop_reference) (use assms in auto)

theorem delivery_reference_witness:
  "snd (deliverToDestination id (steady (Responded 404 7)) 4 (plain ''e'' ''s'' []) (dest_row ''d1'' ''s'')) = Rejected"
  using delivery_reference [of 4 "steady (Responded 404 7)" id "plain ''e'' ''s'' []" "dest_row ''d1'' ''s''"]
  by (simp add: steady_def upto_rec1 decisive_def accepted_def refused_def)

text \<open>
  The table of delays has four entries, and the loop reads it at the number of the attempt. With
  more than four attempts configured, a destination that fails four times without deciding stops the
  process with an index out of range: the event is neither delivered nor in the dead letter queue.
\<close>

lemma fifth_attempt_panics:
  assumes "4 < m" "\<forall>n \<in> {1..4}. \<not> decisive (nt_answer nt n) \<and> \<not> nt_cancelled nt n"
  shows "snd (deliverToDestination c nt m ev d) = Panicked
    \<and> pushed_of (fst (deliverToDestination c nt m ev d)) = []
    \<and> length (attempts_of (fst (deliverToDestination c nt m ev d))) = 4"
proof -
  have u: "[1..m] = 1 # 2 # 3 # 4 # 5 # [6..m]" using assms(1) by (simp add: upto_rec1)
  have n: "\<not> accepted (nt_answer nt 1)" "\<not> accepted (nt_answer nt 2)" "\<not> accepted (nt_answer nt 3)"
    "\<not> accepted (nt_answer nt 4)" "\<not> refused (nt_answer nt 1)" "\<not> refused (nt_answer nt 2)"
    "\<not> refused (nt_answer nt 3)" "\<not> refused (nt_answer nt 4)" "\<not> nt_cancelled nt 2"
    "\<not> nt_cancelled nt 3" "\<not> nt_cancelled nt 4"
    using assms(2) by (auto simp: decisive_def)
  have l: "length retryDelays = 4" by (simp add: retryDelays_def)
  show ?thesis
    unfolding deliverToDestination_def u deliver_loop_round l
    by (simp add: n Let_def case_prod_unfold)
qed

end
