(* ===== verification/Fanout.thy ===== *)
theory Fanout
  imports Delivery
begin

text \<open>
  Delivery of one event to all of its destinations: what the interleaved goroutines of \<open>deliverEvent\<close>
  leave in the stores, the comparison with the previous event and the recovery after a restart.
\<close>

section \<open>All destinations of an event\<close>

inductive_cases interleaved_nilE: "interleaved ts []"
inductive_cases interleaved_consE: "interleaved ts (a # as)"

text \<open>What concerns one goroutine only is left in its order.\<close>

lemma interleaved_filter:
  assumes "interleaved ts as" "i < length ts"
    and "\<forall>j < length ts. j \<noteq> i \<longrightarrow> (\<forall>x \<in> set (ts ! j). \<not> P x)"
  shows "filter P as = filter P (ts ! i)"
  using assms
proof (induction rule: interleaved.induct)
  case (finished ts)
  then have "ts ! i = []" by simp
  then show ?case by simp
next
  case (turn j ts a t as)
  have rest: "\<forall>k < length (ts[j := t]). k \<noteq> i \<longrightarrow> (\<forall>x \<in> set (ts[j := t] ! k). \<not> P x)"
    using turn.prems(2) turn.hyps(1,2)
    by (auto simp: nth_list_update)
  have "filter P as = filter P (ts[j := t] ! i)"
    by (rule turn.IH) (use turn.prems(1) rest in auto)
  then show ?case
    using turn.prems turn.hyps(1,2) by (cases "i = j") (auto simp: nth_list_update)
qed

lemma mset_concat_update:
  "i < length ts \<Longrightarrow> ts ! i = a # t \<Longrightarrow> mset (concat ts) = add_mset a (mset (concat (ts[i := t])))"
proof (induction ts arbitrary: i)
  case (Cons x ts)
  then show ?case by (cases i) auto
qed simp

lemma interleaved_mset: "interleaved ts as \<Longrightarrow> mset as = mset (concat ts)"
proof (induction rule: interleaved.induct)
  case (finished ts)
  then have "concat ts = []" by simp
  then show ?case by simp
next
  case (turn i ts a t as)
  then show ?case by (simp add: mset_concat_update)
qed

lemma interleaved_exists: "\<exists>as. interleaved ts as"
proof (induction "size (concat ts)" arbitrary: ts)
  case 0
  then show ?case by (intro exI [of _ "[]"] finished) auto
next
  case (Suc n)
  then obtain t where "t \<in> set ts" "t \<noteq> []" by (metis concat_eq_Nil_conv length_0_conv nat.distinct(1))
  then obtain i a u where i: "i < length ts" "ts ! i = a # u" by (metis in_set_conv_nth neq_Nil_conv)
  have "size (concat (ts[i := u])) = n"
    using mset_concat_update [OF i] Suc.hyps(2) by (metis size_add_mset size_mset Suc_inject)
  with Suc.hyps(1) i show ?case by (metis turn)
qed

text \<open>The effect of a trace on stores that answer.\<close>

definition all_up :: "services \<Rightarrow> bool" where
  "all_up s \<longleftrightarrow> pg_up (sv_pg s) \<and> queue_up (sv_rd s)"

definition targets_known :: "services \<Rightarrow> action list \<Rightarrow> bool" where
  "targets_known s as \<longleftrightarrow>
    (\<forall>a \<in> set (attempts_of as). dest_known (sv_pg s) (da_DestinationID a))
    \<and> (\<forall>e \<in> set (dead_of as). dest_known (sv_pg s) (dl_DestinationID e) \<and> \<not> dl_Resolved e
         \<and> dl_ResolvedAt e = None)"

lemma unresolved_id: "\<not> dl_Resolved e \<Longrightarrow> dl_ResolvedAt e = None \<Longrightarrow> e\<lparr>dl_Resolved := False, dl_ResolvedAt := None\<rparr> = e"
  by (cases e) simp

lemma perform_effect:
  assumes "all_up s" "targets_known s as"
  shows "let s' = fold perform as s in
    all_up s' \<and> pg_attempts (sv_pg s') = pg_attempts (sv_pg s) @ attempts_of as
    \<and> pg_dlq (sv_pg s') = pg_dlq (sv_pg s) @ dead_of as
    \<and> pg_dests (sv_pg s') = pg_dests (sv_pg s)
    \<and> rd_lists (sv_rd s') = (rd_lists (sv_rd s))(QueueDLQ := rd_lists (sv_rd s) QueueDLQ @ map marshal_event (pushed_of as))"
  using assms
proof (induction as arbitrary: s)
  case Nil
  then show ?case by simp
next
  case (Cons a as)
  let ?s = "perform a s"
  have up: "all_up ?s"
    using Cons.prems(1)
    by (auto simp: all_up_def perform_def InsertDeliveryAttempt_def InsertDeadLetterEntry_def Enqueue_def
        rpush_def split: action.split)
  have dests: "pg_dests (sv_pg ?s) = pg_dests (sv_pg s)"
    using Cons.prems(1)
    by (auto simp: all_up_def perform_def InsertDeliveryAttempt_def InsertDeadLetterEntry_def split: action.split)
  have "targets_known ?s as"
    using Cons.prems(2) dests by (auto simp: targets_known_def dest_known_def)
  moreover have "pg_attempts (sv_pg ?s) = pg_attempts (sv_pg s) @ attempts_of [a]"
    "pg_dlq (sv_pg ?s) = pg_dlq (sv_pg s) @ dead_of [a]"
    "rd_lists (sv_rd ?s) = (rd_lists (sv_rd s))(QueueDLQ := rd_lists (sv_rd s) QueueDLQ @ map marshal_event (pushed_of [a]))"
    using Cons.prems
    by (auto simp: all_up_def targets_known_def perform_def InsertDeliveryAttempt_def InsertDeadLetterEntry_def
        Enqueue_def rpush_def unresolved_id fun_eq_iff split: action.split)
  ultimately show ?case using Cons.IH [OF up] dests by (simp add: Let_def fun_eq_iff)
qed

text \<open>What delivery reads is not touched by inference and drift detection.\<close>

definition delivery_view ::
    "pg \<Rightarrow> (Destination \<times> bool) list \<times> DeliveryAttempt list \<times> DeadLetterEntry list \<times> RoutingRule list" where
  "delivery_view s = (pg_dests s, pg_attempts s, pg_dlq s, pg_rules s)"

lemma view_tick [simp]: "delivery_view (pg_tick s) = delivery_view s"
  by (simp add: delivery_view_def)

lemma UpsertPayloadSchema_view [simp]: "delivery_view (snd (UpsertPayloadSchema ps s)) = delivery_view s"
  by (simp add: UpsertPayloadSchema_def pg_exec_def delivery_view_def Let_def)

lemma InsertDriftEvent_view [simp]: "delivery_view (snd (InsertDriftEvent d s)) = delivery_view s"
  by (simp add: InsertDriftEvent_def pg_exec_def delivery_view_def)

lemma UpsertPayloadSchema_up [simp]: "pg_up s \<Longrightarrow> pg_up (snd (UpsertPayloadSchema ps s))"
  by (simp add: UpsertPayloadSchema_def Let_def)

lemma InsertDriftEvent_up [simp]: "pg_up s \<Longrightarrow> pg_up (snd (InsertDriftEvent d s))"
  by (simp add: InsertDriftEvent_def)

lemma GetPayloadSchema_snd [simp]: "snd (GetPayloadSchema src s) = pg_tick s"
  by (simp add: GetPayloadSchema_def)

lemma UpdateSchema_frame:
  "delivery_view (UpdateSchema GetPayloadSchema UpsertPayloadSchema src p m now s) = delivery_view s
   \<and> (pg_up s \<longrightarrow> pg_up (UpdateSchema GetPayloadSchema UpsertPayloadSchema src p m now s))"
proof -
  obtain r where g: "GetPayloadSchema src s = (r, pg_tick s)" by (metis GetPayloadSchema_snd prod.collapse)
  show ?thesis by (simp add: UpdateSchema_def g Let_def)
qed

lemma insert_drifts_frame:
  "delivery_view (fold (\<lambda>d st. snd (InsertDriftEvent d st)) ds s) = delivery_view s
   \<and> (pg_up s \<longrightarrow> pg_up (fold (\<lambda>d st. snd (InsertDriftEvent d st)) ds s))"
  by (induction ds arbitrary: s) auto

lemma CheckDrift_frame:
  "delivery_view (snd (CheckDrift GetPayloadSchema InsertDriftEvent src ev p now s)) = delivery_view s
   \<and> (pg_up s \<longrightarrow> pg_up (snd (CheckDrift GetPayloadSchema InsertDriftEvent src ev p now s)))"
proof -
  obtain r where g: "GetPayloadSchema src s = (r, pg_tick s)" by (metis GetPayloadSchema_snd prod.collapse)
  show ?thesis using insert_drifts_frame by (simp add: CheckDrift_def g Let_def split: sum.split)
qed

lemma inspect_frame:
  assumes "inspect_event en now ev s = (drifts, s1)"
  shows "delivery_view (sv_pg s1) = delivery_view (sv_pg s) \<and> sv_rd s1 = sv_rd s
    \<and> (all_up s \<longrightarrow> all_up s1)"
proof (cases "unmarshal_map (en_parse en) (ev_RawBody ev)")
  case None
  with assms show ?thesis by (auto simp: inspect_event_def Let_def all_up_def)
next
  case (Some payload)
  with assms UpdateSchema_frame [of "ev_SourceID ev" "map_entries payload" "en_minSamples en" now "sv_pg s"]
    CheckDrift_frame [of "ev_SourceID ev" "ev_ID ev" "map_entries payload" now
      "UpdateSchema GetPayloadSchema UpsertPayloadSchema (ev_SourceID ev) (map_entries payload) (en_minSamples en) now (sv_pg s)"]
  show ?thesis by (auto simp: inspect_event_def Let_def all_up_def case_prod_unfold)
qed

lemma chosen_dests_view:
  assumes "delivery_view s = delivery_view t"
  shows "chosen_dests parse pc ff pf s src body = chosen_dests parse pc ff pf t src body"
proof -
  have "source_rules s src = source_rules t src" "active_dests s src = active_dests t src"
    "default_dests s src = default_dests t src"
    using assms by (simp_all add: delivery_view_def source_rules_def active_dests_def default_dests_def)
  then show ?thesis by (simp only: chosen_dests_def)
qed

lemma active_distinct: "distinct (map (dest_ID \<circ> fst) (pg_dests s)) \<Longrightarrow> distinct (map dest_ID (active_dests s src))"
  by (simp add: active_dests_def distinct_map_filter)

lemma default_distinct: "distinct (map (dest_ID \<circ> fst) (pg_dests s)) \<Longrightarrow> distinct (map dest_ID (default_dests s src))"
  unfolding default_dests_def map_map by (rule distinct_map_filter)

lemma chosen_distinct:
  "distinct (map (dest_ID \<circ> fst) (pg_dests s)) \<Longrightarrow> distinct (map dest_ID (chosen_dests parse pc ff pf s src body))"
  using active_distinct default_distinct
  by (simp add: chosen_dests_def Let_def distinct_map_filter split: option.split)

lemma chosen_known: "d \<in> set (chosen_dests parse pc ff pf s src body) \<Longrightarrow> dest_known s (dest_ID d)"
  by (force simp: chosen_dests_def active_dests_def default_dests_def dest_known_def Let_def
      split: option.splits if_splits)

lemma ResolveDestinations_frame:
  "pg_up s \<Longrightarrow> pg_up (snd (ResolveDestinations parse pc ff pf src body s))
    \<and> delivery_view (snd (ResolveDestinations parse pc ff pf src body s)) = delivery_view s"
  using rules_of_source [of s src]
  by (auto simp: ResolveDestinations_def Let_def split: option.split)

lemma settled_destinations:
  assumes "event_destinations en ev s = (ds, s')" "all_up s"
  shows "ds = chosen_dests (en_parse en) (en_parse_conds en) (en_ff en) (en_pf en) (sv_pg s)
                (ev_SourceID ev) (ev_RawBody ev)
    \<and> delivery_view (sv_pg s') = delivery_view (sv_pg s) \<and> all_up s' \<and> sv_rd s' = sv_rd s"
proof -
  let ?r = "ResolveDestinations (en_parse en) (en_parse_conds en) (en_ff en) (en_pf en) (ev_SourceID ev)
            (ev_RawBody ev) (sv_pg s)"
  have up: "pg_up (sv_pg s)" using assms(2) by (simp add: all_up_def)
  obtain pg where r: "?r = (Inr (chosen_dests (en_parse en) (en_parse_conds en) (en_ff en) (en_pf en) (sv_pg s)
                (ev_SourceID ev) (ev_RawBody ev)), pg)"
    using ResolveDestinations_chosen [OF up] by (metis prod.collapse)
  moreover have "pg_up pg \<and> delivery_view pg = delivery_view (sv_pg s)"
    using ResolveDestinations_frame [OF up] by (metis r snd_conv)
  ultimately show ?thesis using assms by (auto simp: event_destinations_def all_up_def)
qed

text \<open>The actions that concern a destination in the tables.\<close>

definition concerns :: "string \<Rightarrow> action \<Rightarrow> bool" where
  "concerns i a =
    (case a of RecordAttempt r \<Rightarrow> da_DestinationID r = i | RecordDLQ e \<Rightarrow> dl_DestinationID e = i | _ \<Rightarrow> False)"

lemma attempts_concern: "attempts_of (filter (concerns i) as) = filter (\<lambda>a. da_DestinationID a = i) (attempts_of as)"
  by (induction as) (auto simp: concerns_def split: action.splits)

lemma dead_concern: "dead_of (filter (concerns i) as) = filter (\<lambda>e. dl_DestinationID e = i) (dead_of as)"
  by (induction as) (auto simp: concerns_def split: action.splits)

lemma concerns_iff:
  "(\<exists>a \<in> set as. concerns i a) \<longleftrightarrow>
    (\<exists>a \<in> set (attempts_of as). da_DestinationID a = i) \<or> (\<exists>e \<in> set (dead_of as). dl_DestinationID e = i)"
  by (induction as) (auto simp: concerns_def split: action.splits)

lemma interleaved_sum:
  fixes w :: "'a \<Rightarrow> nat"
  assumes "interleaved ts as"
  shows "sum_list (map w as) = sum_list (map (\<lambda>t. sum_list (map w t)) ts)"
proof -
  have "sum_list (map w as) = sum_list (map w (concat ts))"
    using interleaved_mset [OF assms] by (metis mset_map sum_mset_sum_list)
  also have "\<dots> = sum_list (map (\<lambda>t. sum_list (map w t)) ts)" by (induction ts) auto
  finally show ?thesis .
qed

lemma length_pushed: "length (pushed_of as) = sum_list (map (\<lambda>a. case a of PushDLQ _ \<Rightarrow> 1 | _ \<Rightarrow> 0) as)"
  by (induction as) (auto split: action.split)

lemma length_dead: "length (dead_of as) = sum_list (map (\<lambda>a. case a of RecordDLQ _ \<Rightarrow> 1 | _ \<Rightarrow> 0) as)"
  by (induction as) (auto split: action.split)

lemma set_pushed: "e \<in> set (pushed_of as) \<longleftrightarrow> PushDLQ e \<in> set as"
  by (induction as) (auto split: action.splits)

lemma set_attempts: "r \<in> set (attempts_of as) \<longleftrightarrow> RecordAttempt r \<in> set as"
  by (induction as) (auto split: action.splits)

lemma set_dead: "e \<in> set (dead_of as) \<longleftrightarrow> RecordDLQ e \<in> set as"
  by (induction as) (auto split: action.splits)

text \<open>Traces that concern a destination each, with distinct destinations.\<close>

definition own_rows :: "string \<Rightarrow> string \<Rightarrow> action list \<Rightarrow> bool" where
  "own_rows ev i t \<longleftrightarrow>
    (\<forall>a \<in> set (attempts_of t). da_EventID a = ev \<and> da_DestinationID a = i)
    \<and> (\<forall>e \<in> set (dead_of t). dl_EventID e = ev \<and> dl_DestinationID e = i)"

lemma interleaved_rows:
  assumes il: "interleaved (map t ds) as" and ids: "distinct (map dest_ID ds)"
    and own: "\<forall>d \<in> set ds. own_rows ev (dest_ID d) (t d)" and d: "d \<in> set ds"
  shows "filter (\<lambda>a. da_DestinationID a = dest_ID d) (attempts_of as) = attempts_of (t d)"
    and "filter (\<lambda>e. dl_DestinationID e = dest_ID d) (dead_of as) = dead_of (t d)"
proof -
  obtain i where i: "i < length ds" "ds ! i = d" using d by (metis in_set_conv_nth)
  have "\<forall>x \<in> set (map t ds ! j). \<not> concerns (dest_ID d) x" if "j < length (map t ds)" "j \<noteq> i" for j
  proof -
    have "dest_ID (ds ! j) \<noteq> dest_ID d"
      using ids i that by (metis length_map nth_eq_iff_index_eq nth_map)
    moreover have "own_rows ev (dest_ID (ds ! j)) (t (ds ! j))" using own that(1) by simp
    ultimately show ?thesis
      using that(1) concerns_iff [of "t (ds ! j)" "dest_ID d"] by (auto simp: own_rows_def)
  qed
  then have "filter (concerns (dest_ID d)) as = filter (concerns (dest_ID d)) (map t ds ! i)"
    by (intro interleaved_filter [OF il]) (use i in auto)
  then have f: "filter (concerns (dest_ID d)) as = filter (concerns (dest_ID d)) (t d)" using i by simp
  have o': "own_rows ev (dest_ID d) (t d)" using own d by blast
  show "filter (\<lambda>a. da_DestinationID a = dest_ID d) (attempts_of as) = attempts_of (t d)"
    using arg_cong [OF f, of attempts_of] o' unfolding attempts_concern
    by (simp add: own_rows_def)
  show "filter (\<lambda>e. dl_DestinationID e = dest_ID d) (dead_of as) = dead_of (t d)"
    using arg_cong [OF f, of dead_of] o' unfolding dead_concern
    by (simp add: own_rows_def)
qed

lemma interleaved_own:
  assumes il: "interleaved (map t ds) as" and own: "\<forall>d \<in> set ds. own_rows ev (dest_ID d) (t d)"
  shows "\<forall>a \<in> set (attempts_of as). da_EventID a = ev \<and> da_DestinationID a \<in> dest_ID ` set ds"
    and "\<forall>e \<in> set (dead_of as). dl_EventID e = ev \<and> dl_DestinationID e \<in> dest_ID ` set ds"
proof -
  have "set as = set (concat (map t ds))" using interleaved_mset [OF il] by (rule mset_eq_setD)
  then have s: "x \<in> set as \<longleftrightarrow> (\<exists>d \<in> set ds. x \<in> set (t d))" for x by auto
  show "\<forall>a \<in> set (attempts_of as). da_EventID a = ev \<and> da_DestinationID a \<in> dest_ID ` set ds"
    using own unfolding Ball_def set_attempts s own_rows_def by blast
  show "\<forall>e \<in> set (dead_of as). dl_EventID e = ev \<and> dl_DestinationID e \<in> dest_ID ` set ds"
    using own unfolding Ball_def set_dead s own_rows_def by blast
qed

lemma interleaved_pushed:
  assumes "interleaved ts as"
    and "\<forall>t \<in> set ts. length (pushed_of t) = length (dead_of t) \<and> set (pushed_of t) \<subseteq> {ev}"
  shows "pushed_of as = replicate (length (dead_of as)) ev"
proof -
  have "length (pushed_of as) = length (dead_of as)"
    unfolding length_pushed length_dead interleaved_sum [OF assms(1)]
    using assms(2) by (simp add: length_pushed length_dead cong: map_cong)
  moreover have "set as = set (concat ts)" using interleaved_mset [OF assms(1)] by (rule mset_eq_setD)
  then have "set (pushed_of as) \<subseteq> {ev}" using assms(2) by (auto simp: set_pushed subset_iff)
  then have "pushed_of as = replicate (length (pushed_of as)) ev" by (metis replicate_eqI singletonD subsetD)
  ultimately show ?thesis by simp
qed

lemma deliver_loop_unresolved:
  "\<forall>e \<in> set (dead_of (fst (deliver_loop c nt m ev d ns))). \<not> dl_Resolved e \<and> dl_ResolvedAt e = None"
proof (induction ns)
  case (Cons n ns)
  then show ?case
    unfolding deliver_loop_round by (auto simp: Let_def case_prod_unfold moveToDLQ_def)
qed (simp add: moveToDLQ_def)

lemma trace_facts:
  assumes "m \<le> 4" "\<forall>n. \<not> nt_cancelled nt n" and t: "t = fst (deliverToDestination c nt m ev d)"
  shows "length (pushed_of t) = length (dead_of t) \<and> set (pushed_of t) \<subseteq> {ev}
    \<and> own_rows (ev_ID ev) (dest_ID d) t
    \<and> (\<forall>e \<in> set (dead_of t). \<not> dl_Resolved e \<and> dl_ResolvedAt e = None)
    \<and> (\<exists>a \<in> set (attempts_of t). da_Success a) \<noteq> (dead_of t \<noteq> [])"
proof -
  obtain r where e: "deliverToDestination c nt m ev d = (t, r)" using t by (metis prod.collapse)
  note g = delivery_goroutine' [OF e]
  have "r \<in> {Delivered, Rejected, Exhausted}"
    using deliver_loop_reference [of "[1..m]" nt c m ev d] assms(1,2) e
    by (auto simp: deliverToDestination_def split: option.splits)
  moreover have dl: "map (\<lambda>e. (dl_EventID e, dl_DestinationID e)) (dead_of t)
      = (if r \<in> {Rejected, Exhausted} then [(ev_ID ev, dest_ID d)] else [])"
    using g by blast
  moreover have "length (dead_of t) = (if r \<in> {Rejected, Exhausted} then 1 else 0)"
    using arg_cong [OF dl, of length] by (simp split: if_splits)
  moreover have "(dl_EventID e, dl_DestinationID e) = (ev_ID ev, dest_ID d)" if "e \<in> set (dead_of t)" for e
  proof -
    have "(dl_EventID e, dl_DestinationID e) \<in> set (map (\<lambda>e. (dl_EventID e, dl_DestinationID e)) (dead_of t))"
      using that by force
    then show ?thesis unfolding dl by (simp split: if_splits)
  qed
  then have "own_rows (ev_ID ev) (dest_ID d) t" using g by (auto simp: own_rows_def)
  moreover have "\<forall>e \<in> set (dead_of t). \<not> dl_Resolved e \<and> dl_ResolvedAt e = None"
    using t deliver_loop_unresolved by (simp add: deliverToDestination_def)
  ultimately show ?thesis using g by auto
qed

lemma settled_rows:
  assumes "filter (\<lambda>a. da_DestinationID a = i) new = xs" "filter (\<lambda>e. dl_DestinationID e = i) dead = ys"
    and "(\<exists>a \<in> set xs. da_Success a) \<noteq> (ys \<noteq> [])" "\<forall>e \<in> set dead. dl_EventID e = ev"
  shows "(\<exists>a \<in> set new. da_DestinationID a = i \<and> da_Success a)
    \<noteq> (\<exists>e \<in> set dead. dl_EventID e = ev \<and> dl_DestinationID e = i)"
proof -
  have "(\<exists>a \<in> set new. da_DestinationID a = i \<and> da_Success a) \<longleftrightarrow> (\<exists>a \<in> set xs. da_Success a)"
    using assms(1) by auto
  moreover have "(\<exists>e \<in> set dead. dl_EventID e = ev \<and> dl_DestinationID e = i) \<longleftrightarrow> ys \<noteq> []"
    using assms(2,4) by (auto simp: filter_empty_conv)
  ultimately show ?thesis using assms(3) by simp
qed

lemma fan_out_effect:
  assumes il: "interleaved (map t ds) as" and up: "all_up s" and known: "\<forall>d \<in> set ds. dest_known (sv_pg s) (dest_ID d)"
    and facts: "\<forall>d \<in> set ds. length (pushed_of (t d)) = length (dead_of (t d)) \<and> set (pushed_of (t d)) \<subseteq> {ev}
        \<and> own_rows (ev_ID ev) (dest_ID d) (t d)
        \<and> (\<forall>e \<in> set (dead_of (t d)). \<not> dl_Resolved e \<and> dl_ResolvedAt e = None)"
  shows "pg_attempts (sv_pg (fold perform as s)) = pg_attempts (sv_pg s) @ attempts_of as
    \<and> pg_dlq (sv_pg (fold perform as s)) = pg_dlq (sv_pg s) @ dead_of as
    \<and> rd_lists (sv_rd (fold perform as s)) QueueDLQ
        = rd_lists (sv_rd s) QueueDLQ @ replicate (length (dead_of as)) (marshal_event ev)"
proof -
  have own: "\<forall>d \<in> set ds. own_rows (ev_ID ev) (dest_ID d) (t d)" using facts by blast
  have "set as = set (concat (map t ds))" using interleaved_mset [OF il] by (rule mset_eq_setD)
  then have s: "x \<in> set as \<longleftrightarrow> (\<exists>d \<in> set ds. x \<in> set (t d))" for x by auto
  have "\<forall>e \<in> set (dead_of as). \<not> dl_Resolved e \<and> dl_ResolvedAt e = None"
    using facts unfolding Ball_def set_dead s by blast
  moreover have "\<forall>a \<in> set (attempts_of as). dest_known (sv_pg s) (da_DestinationID a)"
    "\<forall>e \<in> set (dead_of as). dest_known (sv_pg s) (dl_DestinationID e)"
    using interleaved_own [OF il own] known by auto
  ultimately have "targets_known s as" by (simp add: targets_known_def)
  from perform_effect [OF up this] interleaved_pushed [OF il, of ev] facts
  show ?thesis by (simp add: Let_def)
qed

text \<open>Every goroutine of an event settles its destination, in any interleaving.\<close>

lemma deliverEvent_settles:
  assumes run: "deliverEvent en nets now ev s s'" and up: "all_up s"
    and ids: "distinct (map (dest_ID \<circ> fst) (pg_dests (sv_pg s)))"
    and m: "en_maxRetries en \<le> 4" and going: "\<forall>i n. \<not> nt_cancelled (nets i) n"
    and dests: "dests = chosen_dests (en_parse en) (en_parse_conds en) (en_ff en) (en_pf en) (sv_pg s)
                  (ev_SourceID ev) (ev_RawBody ev)"
  shows "\<exists>new dead. pg_attempts (sv_pg s') = pg_attempts (sv_pg s) @ new
    \<and> pg_dlq (sv_pg s') = pg_dlq (sv_pg s) @ dead
    \<and> rd_lists (sv_rd s') QueueDLQ = rd_lists (sv_rd s) QueueDLQ @ replicate (length dead) (marshal_event ev)
    \<and> (\<forall>a \<in> set new. da_EventID a = ev_ID ev \<and> da_DestinationID a \<in> dest_ID ` set dests)
    \<and> (\<forall>d \<in> set dests.
         filter (\<lambda>a. da_DestinationID a = dest_ID d) new
           = attempts_of (fst (deliverToDestination (en_canonical en) (nets (dest_ID d)) (en_maxRetries en) ev d))
         \<and> (\<exists>a \<in> set new. da_DestinationID a = dest_ID d \<and> da_Success a)
            \<noteq> (\<exists>e \<in> set dead. dl_EventID e = ev_ID ev \<and> dl_DestinationID e = dest_ID d))"
proof -
  from run obtain drifts s1 ds s2 as where
    i: "inspect_event en now ev s = (drifts, s1)" and e: "event_destinations en ev s1 = (ds, s2)"
    and il: "interleaved (fan_out en nets ev ds) as" and s': "s' = fold perform as s2"
    by (auto elim: deliverEvent.cases)
  let ?t = "\<lambda>d. fst (deliverToDestination (en_canonical en) (nets (dest_ID d)) (en_maxRetries en) ev d)"
  note f1 = inspect_frame [OF i]
  have up1: "all_up s1" using f1 up by blast
  have ds: "ds = dests" and s2: "delivery_view (sv_pg s2) = delivery_view (sv_pg s)" "all_up s2"
    "sv_rd s2 = sv_rd s"
    using settled_destinations [OF e up1] f1 up1 chosen_dests_view [of "sv_pg s1" "sv_pg s"] dests
    by auto
  have ts: "fan_out en nets ev ds = map ?t dests" by (simp add: fan_out_def ds)
  have m': "\<forall>n. \<not> nt_cancelled (nets (dest_ID d)) n" for d :: Destination using going by blast
  note facts = trace_facts [OF m m' refl, where c = "en_canonical en" and ev = ev]
  have own: "\<forall>d \<in> set dests. own_rows (ev_ID ev) (dest_ID d) (?t d)" using facts by blast
  have il': "interleaved (map ?t dests) as" using il by (simp only: ts)
  have ids': "distinct (map dest_ID dests)" unfolding dests by (rule chosen_distinct [OF ids])
  have known: "\<forall>d \<in> set dests. dest_known (sv_pg s2) (dest_ID d)"
    using chosen_known s2(1) unfolding dests by (fastforce simp: delivery_view_def dest_known_def)
  have eff: "pg_attempts (sv_pg s') = pg_attempts (sv_pg s) @ attempts_of as
    \<and> pg_dlq (sv_pg s') = pg_dlq (sv_pg s) @ dead_of as
    \<and> rd_lists (sv_rd s') QueueDLQ = rd_lists (sv_rd s) QueueDLQ @ replicate (length (dead_of as)) (marshal_event ev)"
    using fan_out_effect [OF il' s2(2) known, of ev] facts s2(1,3) unfolding s'
    by (simp add: delivery_view_def)
  have each: "filter (\<lambda>a. da_DestinationID a = dest_ID d) (attempts_of as) = attempts_of (?t d)
      \<and> (\<exists>a \<in> set (attempts_of as). da_DestinationID a = dest_ID d \<and> da_Success a)
            \<noteq> (\<exists>e \<in> set (dead_of as). dl_EventID e = ev_ID ev \<and> dl_DestinationID e = dest_ID d)"
    if d: "d \<in> set dests" for d
    using settled_rows [OF interleaved_rows [OF il' ids' own d], of "ev_ID ev"] facts [of d]
      interleaved_own(2) [OF il' own] interleaved_rows(1) [OF il' ids' own d]
    by simp
  show ?thesis
    using eff interleaved_own(1) [OF il' own] each by (intro exI [of _ "attempts_of as"] exI [of _ "dead_of as"]) blast
qed

text \<open>
  C4: no destination is forgotten. When the stores answer, at most four attempts are configured and
  the service is not being shut down, then however the goroutines of an event interleave: every
  destination that routing chose ends with exactly one of a successful attempt and a dead letter, its
  rows in the attempt log are those of its own goroutine in their order, rows of other destinations
  do not appear, and the Redis dead letter list has grown by one copy of the event for each dead letter
  row.
\<close>

theorem event_settled:
  assumes run: "deliverEvent en nets now ev s s'" and up: "all_up s"
    and ids: "distinct (map (dest_ID \<circ> fst) (pg_dests (sv_pg s)))"
    and m: "en_maxRetries en \<le> 4" and going: "\<forall>i n. \<not> nt_cancelled (nets i) n"
    and dests: "dests = chosen_dests (en_parse en) (en_parse_conds en) (en_ff en) (en_pf en) (sv_pg s)
                  (ev_SourceID ev) (ev_RawBody ev)"
  shows "\<exists>new dead. pg_attempts (sv_pg s') = pg_attempts (sv_pg s) @ new
    \<and> pg_dlq (sv_pg s') = pg_dlq (sv_pg s) @ dead
    \<and> rd_lists (sv_rd s') QueueDLQ = rd_lists (sv_rd s) QueueDLQ @ replicate (length dead) (marshal_event ev)
    \<and> (\<forall>a \<in> set new. da_EventID a = ev_ID ev \<and> da_DestinationID a \<in> dest_ID ` set dests)
    \<and> (\<forall>d \<in> set dests.
         filter (\<lambda>a. da_DestinationID a = dest_ID d) new
           = attempts_of (fst (deliverToDestination (en_canonical en) (nets (dest_ID d)) (en_maxRetries en) ev d))
         \<and> (\<exists>a \<in> set new. da_DestinationID a = dest_ID d \<and> da_Success a)
            \<noteq> (\<exists>e \<in> set dead. dl_EventID e = ev_ID ev \<and> dl_DestinationID e = dest_ID d))"
  by (rule deliverEvent_settles [OF assms])

text \<open>Some order of the goroutines always exists: the handler returns.\<close>

lemma deliverEvent_returns: "\<exists>s'. deliverEvent en nets now ev s s'"
proof -
  obtain drifts s1 where i: "inspect_event en now ev s = (drifts, s1)" by fastforce
  obtain ds s2 where e: "event_destinations en ev s1 = (ds, s2)" by fastforce
  obtain as where "interleaved (fan_out en nets ev ds) as" using interleaved_exists by blast
  with i e show ?thesis by (blast intro: deliverEvent.intros)
qed

definition demo_engine :: engine where
  "demo_engine =
    \<lparr>en_parse = (\<lambda>_. None), en_parse_conds = (\<lambda>_. None), en_print = (\<lambda>_. []), en_ff = (\<lambda>_. []),
     en_pf = (\<lambda>_. None), en_uuid = Some, en_canonical = id, en_maxRetries = 3, en_minSamples = 20\<rparr>"

definition demo_services :: services where
  "demo_services = \<lparr>sv_pg = ruled_pg, sv_rd = redis_of [], sv_sc = \<lparr>sc_rows = [], sc_faults = []\<rparr>\<rparr>"

theorem event_settled_witness:
  "\<exists>s' new dead. deliverEvent demo_engine (\<lambda>_. steady (Responded 503 1)) 0 (plain ''e'' ''s'' []) demo_services s'
    \<and> pg_attempts (sv_pg s') = new \<and> pg_dlq (sv_pg s') = dead
    \<and> (\<exists>a \<in> set new. da_DestinationID a = ''d1'' \<and> da_Success a)
       \<noteq> (\<exists>e \<in> set dead. dl_EventID e = ''e'' \<and> dl_DestinationID e = ''d1'')"
proof -
  let ?en = demo_engine and ?n = "\<lambda>_. steady (Responded 503 1)" and ?ev = "plain ''e'' ''s'' []"
  let ?ds = "chosen_dests (en_parse ?en) (en_parse_conds ?en) (en_ff ?en) (en_pf ?en) (sv_pg demo_services)
      (ev_SourceID ?ev) (ev_RawBody ?ev)"
  obtain s' where run: "deliverEvent ?en ?n 0 ?ev demo_services s'" using deliverEvent_returns by blast
  have up: "all_up demo_services"
    by (simp add: all_up_def demo_services_def ruled_pg_def pg_up_def)
  have ids: "distinct (map (dest_ID \<circ> fst) (pg_dests (sv_pg demo_services)))"
    by (simp add: demo_services_def ruled_pg_def dest_row_def)
  have m: "en_maxRetries ?en \<le> 4" by (simp add: demo_engine_def)
  have go: "\<forall>i n. \<not> nt_cancelled (?n i) n" by (simp add: steady_def)
  have none: "pg_attempts (sv_pg demo_services) = []" "pg_dlq (sv_pg demo_services) = []"
    by (simp_all add: demo_services_def ruled_pg_def)
  have "dest_row ''d1'' ''s'' \<in> set ?ds"
    by (simp add: chosen_dests_def demo_engine_def unmarshal_map_def default_dests_def active_dests_def source_rules_def
        demo_services_def ruled_pg_def dest_row_def plain_def)
  with event_settled [OF run up ids m go refl] none run show ?thesis
    by (intro exI [of _ s'] exI [of _ "pg_attempts (sv_pg s')"] exI [of _ "pg_dlq (sv_pg s')"])
       (fastforce simp: dest_row_def plain_def)
qed

section \<open>The key of a request in the dead letter list\<close>

lemma perform_queue:
  "queue_up (sv_rd s) \<Longrightarrow>
    rd_lists (sv_rd (fold perform as s)) QueueDLQ = rd_lists (sv_rd s) QueueDLQ @ map marshal_event (pushed_of as)"
proof (induction as arbitrary: s)
  case (Cons a as)
  have "queue_up (sv_rd (perform a s))"
    "rd_lists (sv_rd (perform a s)) QueueDLQ = rd_lists (sv_rd s) QueueDLQ @ map marshal_event (pushed_of [a])"
    using Cons.prems by (auto simp: perform_def Enqueue_def rpush_def split: action.split)
  with Cons.IH show ?case by simp
qed simp

text \<open>
  The API key that a request brought does not stay in the in-flight queues. A goroutine that gives
  up appends the event to the Redis dead letter list, which nothing expires, with the key in it.
\<close>

theorem dead_letter_keeps_key:
  assumes "deliverToDestination c nt m ev d = (as, r)" "r = Rejected \<or> r = Exhausted" "queue_up (sv_rd s)"
  shows "\<exists>e'. rd_lists (sv_rd (fold perform as s)) QueueDLQ = rd_lists (sv_rd s) QueueDLQ @ [EventText e']
    \<and> ev_APIKeyOverride e' = to_valid (ev_APIKeyOverride ev)"
proof -
  have "pushed_of as = [ev]" using delivery_goroutine' [OF assms(1)] assms(2) by auto
  with perform_queue [OF assms(3), of as] show ?thesis by (simp add: marshal_event_def wire_def)
qed

theorem dead_letter_keeps_key_witness:
  "\<exists>e'. rd_lists (sv_rd (fold perform
      (fst (deliverToDestination id (steady (Responded 404 7)) 4
        ((plain ''e'' ''s'' [])\<lparr>ev_APIKeyOverride := ''sk-1''\<rparr>) (dest_row ''d1'' ''s''))) demo_services)) QueueDLQ
      = [EventText e']
    \<and> ev_APIKeyOverride e' = ''sk-1''"
proof -
  let ?e = "(plain ''e'' ''s'' [])\<lparr>ev_APIKeyOverride := ''sk-1''\<rparr>"
  have r: "snd (deliverToDestination id (steady (Responded 404 7)) 4 ?e (dest_row ''d1'' ''s'')) = Rejected"
    using deliver_loop_reference [of "[1..4]" "steady (Responded 404 7)" id 4 ?e "dest_row ''d1'' ''s''"]
    by (simp add: deliverToDestination_def steady_def upto_rec1 decisive_def accepted_def refused_def)
  have "queue_up (sv_rd demo_services)" by (simp add: demo_services_def)
  from dead_letter_keeps_key [OF surjective_pairing _ this, of id "steady (Responded 404 7)" 4 ?e "dest_row ''d1'' ''s''"] r
  show ?thesis by (auto simp: demo_services_def redis_of_def ascii_def)
qed

section \<open>The difference of two payloads\<close>

lemma diff_split:
  assumes ok: "gm_ok f1" "gm_ok f2"
  shows "(gm_get (diff_entries f1 f2) k = Some v \<longleftrightarrow> gm_get f1 k = Some v \<and> gm_get f2 k = None)
    \<and> (gm_get (diff_entries f2 f1) k = Some v \<longleftrightarrow> gm_get f2 k = Some v \<and> gm_get f1 k = None)
    \<and> ((k, w, v) \<in> set (diff_changed ff f1 f2) \<longleftrightarrow>
         gm_get f1 k = Some v \<and> gm_get f2 k = Some w \<and> fmt_v ff v \<noteq> fmt_v ff w)
    \<and> distinct (map fst (diff_changed ff f1 f2))"
proof -
  have e: "gm_get (diff_entries a b) k = (if gm_get b k = None then gm_get a k else None)" for a b
    using map_of_filter_fst [of "\<lambda>k. gm_get b k = None" a k] by (simp add: diff_entries_def case_prod_unfold)
  have c: "(k, w, v) \<in> set (diff_changed ff f1 f2) \<longleftrightarrow>
      gm_get f1 k = Some v \<and> gm_get f2 k = Some w \<and> fmt_v ff v \<noteq> fmt_v ff w"
    unfolding gm_get_Some_iff [OF ok(1)] by (auto simp: diff_changed_def split: option.splits if_splits)
  have "map fst (diff_changed ff a b) = map fst (filter (\<lambda>p. \<exists>pv. gm_get b (fst p) = Some pv
      \<and> fmt_v ff (snd p) \<noteq> fmt_v ff pv) a)" for a b
    by (induction a) (auto simp: diff_changed_def split: option.splits)
  then have "distinct (map fst (diff_changed ff f1 f2))"
    using ok(1) by (simp add: gm_ok_def distinct_map_filter)
  with c show ?thesis by (auto simp: e)
qed

text \<open>
  The difference of two payloads. Each path of either payload is in exactly one place: \<open>added\<close> with
  its new value, \<open>removed\<close> with its old one, or common to both; of the common ones \<open>changed\<close> lists, once
  and with both values, those whose printed forms differ.
\<close>

theorem diff_partition:
  "(gm_get (diff_entries (FlattenJSON new) (FlattenJSON old)) k = Some v \<longleftrightarrow> gm_get (FlattenJSON new) k = Some v \<and> gm_get (FlattenJSON old) k = None)
    \<and> (gm_get (diff_entries (FlattenJSON old) (FlattenJSON new)) k = Some v \<longleftrightarrow> gm_get (FlattenJSON old) k = Some v \<and> gm_get (FlattenJSON new) k = None)
    \<and> ((k, w, v) \<in> set (diff_changed ff (FlattenJSON new) (FlattenJSON old)) \<longleftrightarrow>
         gm_get (FlattenJSON new) k = Some v \<and> gm_get (FlattenJSON old) k = Some w \<and> fmt_v ff v \<noteq> fmt_v ff w)
    \<and> distinct (map fst (diff_changed ff (FlattenJSON new) (FlattenJSON old)))"
  by (rule diff_split) simp_all

section \<open>Recovery after a restart\<close>

definition due :: "int \<Rightarrow> IncompleteDelivery \<Rightarrow> bool" where
  "due now d \<longleftrightarrow> recovery_delay (id_AttemptNumber d) \<le> now - id_LastAttemptAt d"

definition recoverable :: "engine \<Rightarrow> int \<Rightarrow> scylla \<Rightarrow> IncompleteDelivery list \<Rightarrow> WebhookEvent list" where
  "recoverable en now sc ds =
    List.map_filter (\<lambda>d. fst (GetEvent (en_uuid en) (id_SourceID d) (id_EventID d) sc)) (filter (due now) ds)"

lemma GetEvent_up: "sc_faults sc = [] \<Longrightarrow> snd (GetEvent u src i sc) = sc"
  by (cases sc) (simp add: GetEvent_def sc_tick_def split: option.split)

lemma recover_one_effect:
  assumes "queue_up (sv_rd s)" "sc_faults (sv_sc s) = []"
  shows "queue_up (sv_rd (recover_one en now d s)) \<and> sv_sc (recover_one en now d s) = sv_sc s
    \<and> sv_pg (recover_one en now d s) = sv_pg s
    \<and> rd_lists (sv_rd (recover_one en now d s)) = (rd_lists (sv_rd s))(QueueDelivery :=
        rd_lists (sv_rd s) QueueDelivery @ map marshal_event (recoverable en now (sv_sc s) [d]))"
proof (cases "due now d")
  case False
  with assms show ?thesis by (simp add: recover_one_def due_def recoverable_def map_filter_simps)
next
  case True
  obtain r where g: "GetEvent (en_uuid en) (id_SourceID d) (id_EventID d) (sv_sc s) = (r, sv_sc s)"
    using GetEvent_up [OF assms(2)] by (metis prod.collapse)
  with True assms show ?thesis
    by (auto simp: recover_one_def due_def recoverable_def map_filter_simps Enqueue_def rpush_def split: option.split)
qed

lemma recover_all_effect:
  assumes "queue_up (sv_rd s)" "sc_faults (sv_sc s) = []"
  shows "sv_sc (fold (recover_one en now) ds s) = sv_sc s \<and> sv_pg (fold (recover_one en now) ds s) = sv_pg s
    \<and> rd_lists (sv_rd (fold (recover_one en now) ds s)) = (rd_lists (sv_rd s))(QueueDelivery :=
        rd_lists (sv_rd s) QueueDelivery @ map marshal_event (recoverable en now (sv_sc s) ds))"
  using assms
proof (induction ds arbitrary: s)
  case Nil
  then show ?case by (simp add: recoverable_def map_filter_simps)
next
  case (Cons d ds)
  note one = recover_one_effect [OF Cons.prems, of en now d]
  have "recoverable en now (sv_sc s) (d # ds) = recoverable en now (sv_sc s) [d] @ recoverable en now (sv_sc s) ds"
    by (simp add: recoverable_def map_filter_simps split: option.split)
  with Cons.IH [of "recover_one en now d s"] one Cons.prems(2) show ?case
    by (simp add: fun_eq_iff)
qed

text \<open>
  Recovery after a restart. While the stores answer, each incomplete delivery whose backoff has
  elapsed and whose event is in the archive puts that event back at the end of the delivery queue, in
  the order of the query; no other queue and no table changes.
\<close>

theorem recovery_requeues:
  assumes "all_up s" "sc_faults (sv_sc s) = []" "fst (GetIncompleteDeliveries (sv_pg s)) = Inr ds"
  shows "rd_lists (sv_rd (RecoverIncomplete en now s)) = (rd_lists (sv_rd s))(QueueDelivery :=
      rd_lists (sv_rd s) QueueDelivery @ map marshal_event (recoverable en now (sv_sc s) ds))
    \<and> delivery_view (sv_pg (RecoverIncomplete en now s)) = delivery_view (sv_pg s)
    \<and> sv_sc (RecoverIncomplete en now s) = sv_sc s"
proof -
  have q: "queue_up (sv_rd s)" using assms(1) by (simp add: all_up_def)
  have "GetIncompleteDeliveries (sv_pg s) = (Inr ds, pg_tick (sv_pg s))"
    using assms(3) by (simp add: GetIncompleteDeliveries_def pg_query_def split: if_splits)
  then show ?thesis
    using recover_all_effect [of "s\<lparr>sv_pg := pg_tick (sv_pg s)\<rparr>" en now ds] q assms(2)
    by (simp add: RecoverIncomplete_def)
qed

definition restarted :: services where
  "restarted = demo_services\<lparr>sv_pg := ruled_pg\<lparr>pg_attempts := [attempt_row ''e'' ''d1'' 1 False]\<rparr>,
     sv_sc := \<lparr>sc_rows = [\<lparr>ar_SourceID = ''s'', ar_ReceivedAt = 0, ar_EventID = ''e'', ar_RawBody = ''hi'',
                             ar_Headers = []\<rparr>], sc_faults = []\<rparr>\<rparr>"

theorem recovery_requeues_witness:
  "rd_lists (sv_rd (RecoverIncomplete demo_engine 6000000000 restarted)) QueueDelivery
    = [EventText (plain ''e'' ''s'' ''hi'')]"
proof -
  have up: "all_up restarted" "sc_faults (sv_sc restarted) = []"
    by (simp_all add: all_up_def restarted_def demo_services_def)
  have g: "fst (GetIncompleteDeliveries (sv_pg restarted)) = Inr [incomplete_of (attempt_row ''e'' ''d1'' 1 False)]"
    by (simp add: GetIncompleteDeliveries_def pg_query_def pg_fails_def incomplete_row_def attempt_row_def
        restarted_def ruled_pg_def)
  have w: "wire (plain ''e'' ''s'' ''hi'') = plain ''e'' ''s'' ''hi''"
    by (rule wire_plain) (simp add: plain_event_def plain_def ascii_def)
  have "recoverable demo_engine 6000000000 (sv_sc restarted) [incomplete_of (attempt_row ''e'' ''d1'' 1 False)]
      = [plain ''e'' ''s'' ''hi'']"
    by (simp add: recoverable_def map_filter_simps due_def recovery_delay_def retryDelays_def seconds_def
        incomplete_of_def attempt_row_def GetEvent_def demo_engine_def restarted_def sc_fails_def partition_def
        archived_event_def plain_def)
  with recovery_requeues [OF up g, of demo_engine 6000000000] w show ?thesis
    by (simp add: marshal_event_def restarted_def demo_services_def redis_of_def)
qed

end
