(* ===== verification/Diffs.thy ===== *)
theory Diffs
  imports Fanout
begin

text \<open>
  The comparison of an event with the previous one of its source (\<open>computeDiffAsync\<close> of
  \<open>internal/delivery/engine.go\<close>): what the stored difference says, and the goroutine that computes it
  beside the delivery, step by step.
\<close>

section \<open>Reading a difference\<close>

definition diff_member :: "string \<Rightarrow> json \<Rightarrow> json" where
  "diff_member k j = (case j of JObj m \<Rightarrow> (case gm_get m k of Some v \<Rightarrow> v | None \<Rightarrow> JNull) | _ \<Rightarrow> JNull)"

definition diff_object :: "string \<Rightarrow> json \<Rightarrow> json gomap" where
  "diff_object k j = (case diff_member k j of JObj m \<Rightarrow> m | _ \<Rightarrow> [])"

definition diff_changes :: "json \<Rightarrow> json list" where
  "diff_changes j = (case diff_member ''changed'' j of JArr cs \<Rightarrow> cs | _ \<Rightarrow> [])"

definition changed_field :: "json \<Rightarrow> string" where
  "changed_field c = (case diff_member ''field'' c of JStr k \<Rightarrow> k | _ \<Rightarrow> [])"

text \<open>
  The flattened payload that a difference makes of the one before it: entries are added, dropped, and set
  to their new values; and the way back.
\<close>

definition patch :: "json gomap \<Rightarrow> json gomap \<Rightarrow> (string \<times> json) list \<Rightarrow> json gomap \<Rightarrow> json gomap" where
  "patch add drop' set' m = fold (\<lambda>(k, v). gm_set k v) (add @ set') (filter (\<lambda>(k, _). gm_get drop' k = None) m)"

definition apply_diff :: "json \<Rightarrow> json gomap \<Rightarrow> json gomap" where
  "apply_diff j = patch (diff_object ''added'' j) (diff_object ''removed'' j)
    (map (\<lambda>c. (changed_field c, diff_member ''new_value'' c)) (diff_changes j))"

definition revert_diff :: "json \<Rightarrow> json gomap \<Rightarrow> json gomap" where
  "revert_diff j = patch (diff_object ''removed'' j) (diff_object ''added'' j)
    (map (\<lambda>c. (changed_field c, diff_member ''old_value'' c)) (diff_changes j))"

lemma diff_json_members:
  "diff_object ''added'' (diff_json ff f1 f2) = diff_entries f1 f2"
  "diff_object ''removed'' (diff_json ff f1 f2) = diff_entries f2 f1"
  "map (\<lambda>c. (changed_field c, diff_member ''new_value'' c)) (diff_changes (diff_json ff f1 f2))
    = map (\<lambda>(k, old, new). (k, new)) (diff_changed ff f1 f2)"
  "map (\<lambda>c. (changed_field c, diff_member ''old_value'' c)) (diff_changes (diff_json ff f1 f2))
    = map (\<lambda>(k, old, new). (k, old)) (diff_changed ff f1 f2)"
  by (auto simp: diff_json_def diff_object_def diff_member_def diff_changes_def changed_field_def split: list.split)

lemma get_fold_set:
  "distinct (map fst ps) \<Longrightarrow> gm_get (fold (\<lambda>(k, v). gm_set k v) ps m) k
    = (case map_of ps k of Some v \<Rightarrow> Some v | None \<Rightarrow> gm_get m k)"
proof (induction ps arbitrary: m)
  case (Cons p ps)
  have "map_of ps (fst p) = None" using Cons.prems by (simp add: map_of_eq_None_iff)
  with Cons show ?case by (cases p) (auto split: option.split)
qed simp

lemma gm_get_filter_key: "gm_get (filter (\<lambda>(k, _). P k) m) k = (if P k then gm_get m k else None)"
  using map_of_filter_fst [of P m k] by (simp add: case_prod_unfold)

lemma gm_get_patch:
  assumes "distinct (map fst (add @ set'))"
  shows "gm_get (patch add drop' set' m) k =
    (case map_of (add @ set') k of Some v \<Rightarrow> Some v
     | None \<Rightarrow> if gm_get drop' k = None then gm_get m k else None)"
  unfolding patch_def get_fold_set [OF assms] gm_get_filter_key [of "\<lambda>k. gm_get drop' k = None" m k] by (rule refl)

text \<open>The printed value of a path.\<close>

definition printed :: "(float64 \<Rightarrow> string) \<Rightarrow> json gomap \<Rightarrow> string \<Rightarrow> string option" where
  "printed ff m k = map_option (fmt_v ff) (gm_get m k)"

lemma gm_get_entries: "gm_get (diff_entries f1 f2) k = (if gm_get f2 k = None then gm_get f1 k else None)"
  using gm_get_filter_key [of "\<lambda>k. gm_get f2 k = None" f1 k] by (simp add: diff_entries_def)

lemma option_agree: "(\<And>x. a = Some x \<longleftrightarrow> b = Some x) \<Longrightarrow> a = b"
  by (metis not_None_eq)

lemma changed_get:
  assumes ok: "gm_ok f1" "gm_ok f2"
  shows "map_of (map (\<lambda>(k, old, new). (k, h old new)) (diff_changed ff f1 f2)) k =
    (case (gm_get f1 k, gm_get f2 k) of
       (Some v, Some w) \<Rightarrow> if fmt_v ff v \<noteq> fmt_v ff w then Some (h w v) else None
     | _ \<Rightarrow> None)" (is "map_of ?cs k = ?r")
proof -
  have d: "distinct (map fst ?cs)"
    using diff_split [OF ok] by (simp add: case_prod_unfold comp_def)
  have "(k, x) \<in> set ?cs \<longleftrightarrow> (\<exists>w v. (k, w, v) \<in> set (diff_changed ff f1 f2) \<and> x = h w v)" for x by force
  then have m: "(k, x) \<in> set ?cs \<longleftrightarrow> (\<exists>w v. (gm_get f1 k = Some v \<and> gm_get f2 k = Some w \<and> fmt_v ff v \<noteq> fmt_v ff w) \<and> x = h w v)" for x
    using diff_split [OF ok, of k _ _ ff] by simp
  have "map_of ?cs k = Some x \<longleftrightarrow> ?r = Some x" for x
    unfolding map_of_eq_Some_iff [OF d] m by (cases "gm_get f1 k"; cases "gm_get f2 k") auto
  then show ?thesis by (rule option_agree)
qed

lemma changes_distinct:
  assumes ok: "gm_ok f1" "gm_ok f2"
  shows "distinct (map fst (diff_entries f1 f2 @ map (\<lambda>(k, old, new). (k, h old new)) (diff_changed ff f1 f2)))"
    and "distinct (map fst (diff_entries f2 f1 @ map (\<lambda>(k, old, new). (k, h old new)) (diff_changed ff f1 f2)))"
proof -
  have keys: "map fst (map (\<lambda>(k, old, new). (k, h old new)) (diff_changed ff f1 f2)) = map fst (diff_changed ff f1 f2)"
    by (simp add: case_prod_unfold)
  have entries: "distinct (map fst (diff_entries a b))" "fst ` set (diff_entries a b) = {k. gm_get a k \<noteq> None \<and> gm_get b k = None}"
    if "gm_ok a" for a b
    using that by (force simp: diff_entries_def gm_ok_def distinct_map_filter map_of_eq_None_iff image_iff)+
  have "fst ` set (diff_changed ff f1 f2) \<subseteq> {k. gm_get f1 k \<noteq> None \<and> gm_get f2 k \<noteq> None}"
    using diff_split [OF ok, of _ _ _ ff] by auto
  then show "distinct (map fst (diff_entries f1 f2 @ map (\<lambda>(k, old, new). (k, h old new)) (diff_changed ff f1 f2)))"
    "distinct (map fst (diff_entries f2 f1 @ map (\<lambda>(k, old, new). (k, h old new)) (diff_changed ff f1 f2)))"
    unfolding map_append keys distinct_append set_map
    using entries ok diff_split [OF ok, of _ _ _ ff] by auto
qed

text \<open>
  C31: a stored difference is complete. Read back as JSON, the difference of two payloads turns the flattened
  older one into the newer one and the newer one into the older one: at every path the patched payload has
  the value of the other one, up to the printed form in which the code compares values (the number 1 and
  the text \<open>1\<close> count as equal, and then the patched payload keeps the value it had).
\<close>

theorem diff_patches:
  "printed ff (apply_diff (diff_json ff (FlattenJSON new) (FlattenJSON old)) (FlattenJSON old)) k
      = printed ff (FlattenJSON new) k
   \<and> printed ff (revert_diff (diff_json ff (FlattenJSON new) (FlattenJSON old)) (FlattenJSON new)) k
      = printed ff (FlattenJSON old) k"
proof -
  have ok: "gm_ok (FlattenJSON new)" "gm_ok (FlattenJSON old)" by simp_all
  let ?new = "\<lambda>old new :: json. new" and ?old = "\<lambda>old new :: json. old"
  note dist = changes_distinct [OF ok, where h = ?new and ff = ff] changes_distinct [OF ok, where h = ?old and ff = ff]
  show ?thesis
    unfolding apply_diff_def revert_diff_def printed_def diff_json_members
      gm_get_patch [OF dist(1)] gm_get_patch [OF dist(4)]
    by (simp add: map_add_def gm_get_entries changed_get [OF ok, where h = ?new] changed_get [OF ok, where h = ?old]
        split: option.split)
qed

section \<open>The goroutine beside the delivery\<close>

text \<open>Where the goroutine stands: the stores answer it one by one, and others act in between.\<close>

datatype diff_phase = Sleeping | Chosen string | Fetched string "json gomap" | Ended

inductive diff_step ::
    "engine \<Rightarrow> WebhookEvent \<Rightarrow> json gomap \<Rightarrow> diff_phase \<Rightarrow> services \<Rightarrow> diff_phase \<Rightarrow> services \<Rightarrow> bool"
  for en event currentPayload where
  no_previous: "GetPreviousEventID (ev_SourceID event) (ev_ID event) (sv_pg s) = (Inl err, pg)
    \<Longrightarrow> diff_step en event currentPayload Sleeping s Ended (s\<lparr>sv_pg := pg\<rparr>)"
| previous: "GetPreviousEventID (ev_SourceID event) (ev_ID event) (sv_pg s) = (Inr prevEventID, pg)
    \<Longrightarrow> diff_step en event currentPayload Sleeping s (Chosen prevEventID) (s\<lparr>sv_pg := pg\<rparr>)"
| not_archived: "GetEvent (en_uuid en) (ev_SourceID event) prevEventID (sv_sc s) = (r, sc)
    \<Longrightarrow> Option.bind r (\<lambda>e. unmarshal_map (en_parse en) (ev_RawBody e)) = None
    \<Longrightarrow> diff_step en event currentPayload (Chosen prevEventID) s Ended (s\<lparr>sv_sc := sc\<rparr>)"
| archived: "GetEvent (en_uuid en) (ev_SourceID event) prevEventID (sv_sc s) = (Some prevEvent, sc)
    \<Longrightarrow> unmarshal_map (en_parse en) (ev_RawBody prevEvent) = Some m
    \<Longrightarrow> diff_step en event currentPayload (Chosen prevEventID) s (Fetched prevEventID (map_entries m)) (s\<lparr>sv_sc := sc\<rparr>)"
| store_diff: "diff_step en event currentPayload (Fetched prevEventID prevPayload) s Ended
    (s\<lparr>sv_pg := snd (InsertWebhookDiff (ev_ID event) (ev_SourceID event) prevEventID
        (en_print en (diff_json (en_ff en) (FlattenJSON currentPayload) (FlattenJSON prevPayload))) (sv_pg s))\<rparr>)"

text \<open>With nobody in between it is the function of the code.\<close>

inductive diff_run ::
    "engine \<Rightarrow> WebhookEvent \<Rightarrow> json gomap \<Rightarrow> diff_phase \<Rightarrow> services \<Rightarrow> diff_phase \<Rightarrow> services \<Rightarrow> bool"
  for en event currentPayload where
  stay: "diff_run en event currentPayload ph s ph s"
| go: "diff_step en event currentPayload ph s ph1 s1 \<Longrightarrow> diff_run en event currentPayload ph1 s1 ph2 s2
    \<Longrightarrow> diff_run en event currentPayload ph s ph2 s2"

inductive_simps diff_step_phases [simp]:
  "diff_step en event p Sleeping s ph s'" "diff_step en event p (Chosen i) s ph s'"
  "diff_step en event p (Fetched i q) s ph s'" "diff_step en event p Ended s ph s'"

lemma diff_run_alone: "diff_run en event p Sleeping s Ended (computeDiffAsync en event p s)"
proof -
  obtain r pg where prev: "GetPreviousEventID (ev_SourceID event) (ev_ID event) (sv_pg s) = (r, pg)" by fastforce
  show ?thesis
  proof (cases r)
    case (Inl err)
    with prev have "computeDiffAsync en event p s = s\<lparr>sv_pg := pg\<rparr>" by (simp add: computeDiffAsync_def)
    with prev Inl show ?thesis by (metis go no_previous stay)
  next
    case (Inr i)
    let ?s1 = "s\<lparr>sv_pg := pg\<rparr>"
    obtain e sc where get: "GetEvent (en_uuid en) (ev_SourceID event) i (sv_sc ?s1) = (e, sc)" by fastforce
    have first: "diff_step en event p Sleeping s (Chosen i) ?s1" using prev Inr by (simp add: diff_step.previous)
    have "diff_run en event p (Chosen i) ?s1 Ended (computeDiffAsync en event p s)"
    proof (cases "Option.bind e (\<lambda>x. unmarshal_map (en_parse en) (ev_RawBody x))")
      case None
      then have "computeDiffAsync en event p s = ?s1\<lparr>sv_sc := sc\<rparr>"
        using prev get Inr by (auto simp: computeDiffAsync_def split: option.splits)
      with not_archived [OF get None] show ?thesis by (metis go stay)
    next
      case (Some m)
      then obtain x where x: "e = Some x" "unmarshal_map (en_parse en) (ev_RawBody x) = Some m" by (cases e) auto
      let ?s2 = "?s1\<lparr>sv_sc := sc\<rparr>"
      have "diff_step en event p (Chosen i) ?s1 (Fetched i (map_entries m)) ?s2"
        using get x by (intro archived) simp_all
      moreover have "diff_step en event p (Fetched i (map_entries m)) ?s2 Ended (computeDiffAsync en event p s)"
        using prev get Inr x by (simp add: computeDiffAsync_def)
      ultimately show ?thesis by (metis go stay)
    qed
    with first show ?thesis by (rule go)
  qed
qed

section \<open>An event with all of its goroutines\<close>

text \<open>
  \<open>deliverEvent\<close> up to some moment: \<open>ts\<close> is what the delivery goroutines have still to do and \<open>ph\<close> where the
  comparison stands. It starts to sleep before the destinations are chosen.
\<close>

inductive beside ::
    "engine \<Rightarrow> WebhookEvent \<Rightarrow> json gomap \<Rightarrow> action list list \<Rightarrow> diff_phase \<Rightarrow> services
     \<Rightarrow> action list list \<Rightarrow> diff_phase \<Rightarrow> services \<Rightarrow> bool"
  for en event currentPayload where
  now_here: "beside en event currentPayload ts ph s ts ph s"
| deliver: "i < length ts \<Longrightarrow> ts ! i = a # t
    \<Longrightarrow> beside en event currentPayload (ts[i := t]) ph (perform a s) ts' ph' s'
    \<Longrightarrow> beside en event currentPayload ts ph s ts' ph' s'"
| compare: "diff_step en event currentPayload ph s ph1 s1
    \<Longrightarrow> beside en event currentPayload ts ph1 s1 ts' ph' s'
    \<Longrightarrow> beside en event currentPayload ts ph s ts' ph' s'"

definition diff_start :: "engine \<Rightarrow> WebhookEvent \<Rightarrow> diff_phase \<times> json gomap" where
  "diff_start en event =
    (case unmarshal_map (en_parse en) (ev_RawBody event) of
       None \<Rightarrow> (Ended, [])
     | Some payload \<Rightarrow> (Sleeping, map_entries payload))"

inductive event_run ::
    "engine \<Rightarrow> (string \<Rightarrow> net) \<Rightarrow> int \<Rightarrow> WebhookEvent \<Rightarrow> services
     \<Rightarrow> action list list \<Rightarrow> diff_phase \<Rightarrow> services \<Rightarrow> bool" where
  "inspect_event en now event s = (drifts, s1) \<Longrightarrow> diff_start en event = (ph0, currentPayload)
    \<Longrightarrow> diff_run en event currentPayload ph0 s1 ph1 s2
    \<Longrightarrow> event_destinations en event s2 = (dests, s3)
    \<Longrightarrow> beside en event currentPayload (fan_out en nets event dests) ph1 s3 ts ph s'
    \<Longrightarrow> event_run en nets now event s ts ph s'"

section \<open>What the comparison leaves alone\<close>

text \<open>Everything but the table of the differences and the scripts of the faults.\<close>

definition apart_from_diffs :: "services \<Rightarrow> services" where
  "apart_from_diffs s = s\<lparr>sv_pg := (sv_pg s)\<lparr>pg_diffs := [], pg_faults := []\<rparr>,
                          sv_sc := (sv_sc s)\<lparr>sc_faults := []\<rparr>\<rparr>"

definition stores_up :: "services \<Rightarrow> bool" where
  "stores_up s \<longleftrightarrow> all_up s \<and> True \<notin> set (sc_faults (sv_sc s))"

lemma perform_keeps:
  assumes "stores_up s"
  shows "stores_up (perform a s)" "apart_from_diffs (perform a s) = perform a (apart_from_diffs s)"
    "pg_diffs (sv_pg (perform a s)) = pg_diffs (sv_pg s)"
    "set (pg_attempts (sv_pg s)) \<subseteq> set (pg_attempts (sv_pg (perform a s)))" "sv_sc (perform a s) = sv_sc s"
proof -
  have up: "\<not> pg_fails (sv_pg s)" using assms by (simp add: stores_up_def all_up_def)
  have clean: "\<not> pg_fails ((sv_pg s)\<lparr>pg_diffs := [], pg_faults := []\<rparr>)" by (simp add: pg_fails_def)
  show "stores_up (perform a s)"
    using assms by (auto simp: stores_up_def all_up_def perform_def InsertDeliveryAttempt_def
        InsertDeadLetterEntry_def Enqueue_def rpush_def split: action.split)
  show "apart_from_diffs (perform a s) = perform a (apart_from_diffs s)"
    using up clean
    by (cases a) (simp_all add: apart_from_diffs_def perform_def InsertDeliveryAttempt_def InsertDeadLetterEntry_def
        pg_exec_def pg_tick_def dest_known_def)
  show "pg_diffs (sv_pg (perform a s)) = pg_diffs (sv_pg s)" "sv_sc (perform a s) = sv_sc s"
    "set (pg_attempts (sv_pg s)) \<subseteq> set (pg_attempts (sv_pg (perform a s)))"
    by (auto simp: perform_def InsertDeliveryAttempt_def InsertDeadLetterEntry_def pg_exec_def split: action.split)
qed

text \<open>The row that a comparison may leave.\<close>

definition succeeded_before :: "WebhookEvent \<Rightarrow> services \<Rightarrow> string \<Rightarrow> bool" where
  "succeeded_before event s i \<longleftrightarrow> i \<noteq> ev_ID event \<and> (\<exists>a \<in> set (pg_attempts (sv_pg s)).
    da_SourceID a = ev_SourceID event \<and> da_Success a \<and> da_EventID a = i)"

definition payload_of :: "engine \<Rightarrow> WebhookEvent \<Rightarrow> scylla \<Rightarrow> string \<Rightarrow> json gomap option" where
  "payload_of en event sc i =
    Option.bind (fst (GetEvent (en_uuid en) (ev_SourceID event) i (sc\<lparr>sc_faults := []\<rparr>)))
      (\<lambda>e. map_option map_entries (unmarshal_map (en_parse en) (ev_RawBody e)))"

definition diff_row :: "engine \<Rightarrow> WebhookEvent \<Rightarrow> json gomap \<Rightarrow> string \<Rightarrow> json gomap \<Rightarrow> WebhookDiff" where
  "diff_row en event new i old =
    \<lparr>wd_EventID = ev_ID event, wd_SourceID = ev_SourceID event, wd_PrevEventID = i,
     wd_DiffData = en_print en (diff_json (en_ff en) (FlattenJSON new) (FlattenJSON old))\<rparr>"

fun phase_ok :: "engine \<Rightarrow> WebhookEvent \<Rightarrow> services \<Rightarrow> diff_phase \<Rightarrow> bool" where
  "phase_ok en event s (Chosen i) = succeeded_before event s i"
| "phase_ok en event s (Fetched i old) =
    (succeeded_before event s i \<and> payload_of en event (sv_sc s) i = Some old)"
| "phase_ok en event s _ = True"

definition rows_ok :: "engine \<Rightarrow> WebhookEvent \<Rightarrow> json gomap \<Rightarrow> diff_phase \<Rightarrow> diff_phase \<Rightarrow> services \<Rightarrow> WebhookDiff list \<Rightarrow> bool" where
  "rows_ok en event new ph ph' s rows \<longleftrightarrow> rows = [] \<or>
    (ph \<noteq> Ended \<and> ph' = Ended \<and> (\<exists>i old. rows = [diff_row en event new i old]
      \<and> succeeded_before event s i \<and> payload_of en event (sv_sc s) i = Some old))"

lemma GetPreviousEventID_sound:
  "GetPreviousEventID src i s = (r, s') \<Longrightarrow> s' = pg_tick s
    \<and> (\<forall>p. r = Inr p \<longrightarrow> p \<noteq> i \<and> (\<exists>a \<in> set (pg_attempts s). da_SourceID a = src \<and> da_Success a \<and> da_EventID a = p))"
proof -
  let ?rows = "sort_key (\<lambda>a. - da_AttemptedAt a)
    (filter (\<lambda>a. da_SourceID a = src \<and> da_Success a \<and> da_EventID a \<noteq> i) (pg_attempts s))"
  have set: "set ?rows = {a \<in> set (pg_attempts s). da_SourceID a = src \<and> da_Success a \<and> da_EventID a \<noteq> i}"
    by auto
  assume "GetPreviousEventID src i s = (r, s')"
  with set show ?thesis
    by (cases ?rows) (auto simp: GetPreviousEventID_def pg_query_def split: if_splits)
qed

lemma GetEvent_quiet:
  assumes "True \<notin> set (sc_faults sc)"
  shows "fst (GetEvent u src i sc) = fst (GetEvent u src i (sc\<lparr>sc_faults := []\<rparr>))"
    "(snd (GetEvent u src i sc))\<lparr>sc_faults := []\<rparr> = sc\<lparr>sc_faults := []\<rparr>"
    "True \<notin> set (sc_faults (snd (GetEvent u src i sc)))"
proof -
  have "\<not> sc_fails sc" using assms by (cases "sc_faults sc") (auto simp: sc_fails_def)
  then show "fst (GetEvent u src i sc) = fst (GetEvent u src i (sc\<lparr>sc_faults := []\<rparr>))"
    by (auto simp: GetEvent_def sc_fails_def partition_def split: option.split)
  show "(snd (GetEvent u src i sc))\<lparr>sc_faults := []\<rparr> = sc\<lparr>sc_faults := []\<rparr>"
    "True \<notin> set (sc_faults (snd (GetEvent u src i sc)))"
    using assms by (cases "sc_faults sc"; auto simp: GetEvent_def sc_tick_def split: option.split)+
qed

lemma rows_later:
  assumes "rows_ok en event new ph ph' s rows" "sv_sc s' = sv_sc s"
    and "set (pg_attempts (sv_pg s)) \<subseteq> set (pg_attempts (sv_pg s'))"
  shows "rows_ok en event new ph ph' s' rows"
  using assms by (auto simp: rows_ok_def succeeded_before_def)

lemma phase_later:
  assumes "phase_ok en event s ph" "sv_sc s' = sv_sc s"
    and "set (pg_attempts (sv_pg s)) \<subseteq> set (pg_attempts (sv_pg s'))"
  shows "phase_ok en event s' ph"
  using assms by (cases ph) (auto simp: succeeded_before_def)

lemma diff_step_keeps:
  assumes "diff_step en event new ph s ph' s'" "stores_up s" "phase_ok en event s ph"
  shows "stores_up s'" "phase_ok en event s' ph'" "apart_from_diffs s' = apart_from_diffs s"
    "set (pg_attempts (sv_pg s)) = set (pg_attempts (sv_pg s'))"
    "ph \<noteq> Ended" "\<exists>rows. pg_diffs (sv_pg s') = pg_diffs (sv_pg s) @ rows \<and> rows_ok en event new ph ph' s' rows"
proof -
  have up: "stores_up (s\<lparr>sv_pg := pg_tick (sv_pg s)\<rparr>)" "pg_up (sv_pg s)"
    "apart_from_diffs (s\<lparr>sv_pg := pg_tick (sv_pg s)\<rparr>) = apart_from_diffs s"
    using assms(2) by (simp_all add: stores_up_def all_up_def apart_from_diffs_def pg_tick_def)
       (metis pg_tick_def pg_up_tick)
  note quiet = GetEvent_quiet [of "sv_sc s"]
  have "stores_up s' \<and> phase_ok en event s' ph' \<and> apart_from_diffs s' = apart_from_diffs s
    \<and> set (pg_attempts (sv_pg s)) = set (pg_attempts (sv_pg s')) \<and> ph \<noteq> Ended
    \<and> (\<exists>rows. pg_diffs (sv_pg s') = pg_diffs (sv_pg s) @ rows \<and> rows_ok en event new ph ph' s' rows)"
    using assms(1)
  proof cases
    case (no_previous err pg)
    with GetPreviousEventID_sound [OF no_previous(4)] up show ?thesis by (simp add: rows_ok_def)
  next
    case (previous i pg)
    with GetPreviousEventID_sound [OF previous(4)] up show ?thesis
      by (auto simp: rows_ok_def succeeded_before_def)
  next
    case (not_archived i r sc)
    have "apart_from_diffs s' = apart_from_diffs s" "stores_up s'"
      using quiet(2,3) [of "en_uuid en" "ev_SourceID event" i] not_archived assms(2)
      by (auto simp: apart_from_diffs_def stores_up_def all_up_def)
    with not_archived show ?thesis by (simp add: rows_ok_def)
  next
    case (archived i e sc m)
    have sc: "True \<notin> set (sc_faults (sv_sc s))" using assms(2) by (simp add: stores_up_def)
    have "apart_from_diffs s' = apart_from_diffs s" "stores_up s'"
      using quiet(2,3) [OF sc, of "en_uuid en" "ev_SourceID event" i] archived assms(2)
      by (auto simp: apart_from_diffs_def stores_up_def all_up_def)
    moreover from quiet(1) [OF sc, of "en_uuid en" "ev_SourceID event" i] archived
    have "fst (GetEvent (en_uuid en) (ev_SourceID event) i ((sv_sc s)\<lparr>sc_faults := []\<rparr>)) = Some e" by simp
    then have "payload_of en event sc i = Some (map_entries m)"
      using quiet(2) [OF sc, of "en_uuid en" "ev_SourceID event" i] archived by (simp add: payload_of_def)
    ultimately show ?thesis using archived assms(3) by (simp add: rows_ok_def succeeded_before_def)
  next
    case (store_diff i old)
    have "apart_from_diffs s' = apart_from_diffs s" "stores_up s'" "pg_diffs (sv_pg s') = pg_diffs (sv_pg s) @ [diff_row en event new i old]"
      "pg_attempts (sv_pg s') = pg_attempts (sv_pg s)" "sv_sc s' = sv_sc s"
      using store_diff assms(2) up(2)
      by (simp_all add: apart_from_diffs_def stores_up_def all_up_def InsertWebhookDiff_def pg_exec_def diff_row_def pg_tick_def)
         (metis pg_tick_def pg_up_other(7) pg_up_tick)
    with store_diff assms(3) show ?thesis by (simp add: rows_ok_def succeeded_before_def) blast
  qed
  then show "stores_up s'" "phase_ok en event s' ph'" "apart_from_diffs s' = apart_from_diffs s"
    "set (pg_attempts (sv_pg s)) = set (pg_attempts (sv_pg s'))"
    "ph \<noteq> Ended" "\<exists>rows. pg_diffs (sv_pg s') = pg_diffs (sv_pg s) @ rows \<and> rows_ok en event new ph ph' s' rows"
    by blast+
qed

text \<open>Any stretch of the run: what the goroutines of the delivery did, and at most one row.\<close>

lemma rows_compose:
  assumes "rows_ok en event new ph ph1 s rows1" "rows_ok en event new ph1 ph2 s rows2"
    and "ph1 = Ended \<longrightarrow> ph2 = Ended" "ph \<noteq> Ended"
  shows "rows_ok en event new ph ph2 s (rows1 @ rows2)"
  using assms by (cases "rows1 = []") (auto simp: rows_ok_def)

lemma beside_keeps:
  assumes "beside en event new ts ph s ts' ph' s'" "stores_up s" "phase_ok en event s ph"
  shows "stores_up s' \<and> phase_ok en event s' ph' \<and> (ph = Ended \<longrightarrow> ph' = Ended)
    \<and> set (pg_attempts (sv_pg s)) \<subseteq> set (pg_attempts (sv_pg s'))
    \<and> (sv_sc s')\<lparr>sc_faults := []\<rparr> = (sv_sc s)\<lparr>sc_faults := []\<rparr>
    \<and> (\<exists>as. apart_from_diffs s' = fold perform as (apart_from_diffs s)
        \<and> (\<forall>bs. interleaved ts' bs \<longrightarrow> interleaved ts (as @ bs)))
    \<and> (\<exists>rows. pg_diffs (sv_pg s') = pg_diffs (sv_pg s) @ rows \<and> rows_ok en event new ph ph' s' rows)"
  using assms
proof (induction rule: beside.induct)
  case (now_here ts ph s)
  then show ?case by (auto simp: rows_ok_def intro!: exI [of _ "[]"])
next
  case (deliver i ts a t ph s ts' ph' s')
  note keep = perform_keeps [OF deliver.prems(1), of a]
  from deliver.IH [OF keep(1) phase_later [OF deliver.prems(2) keep(5,4)]] obtain as rows
    where IH: "stores_up s'" "phase_ok en event s' ph'" "ph = Ended \<longrightarrow> ph' = Ended"
      "set (pg_attempts (sv_pg (perform a s))) \<subseteq> set (pg_attempts (sv_pg s'))"
      "(sv_sc s')\<lparr>sc_faults := []\<rparr> = (sv_sc (perform a s))\<lparr>sc_faults := []\<rparr>"
      "apart_from_diffs s' = fold perform as (apart_from_diffs (perform a s))"
      "\<forall>bs. interleaved ts' bs \<longrightarrow> interleaved (ts[i := t]) (as @ bs)"
      "pg_diffs (sv_pg s') = pg_diffs (sv_pg (perform a s)) @ rows" "rows_ok en event new ph ph' s' rows" by blast
  have "apart_from_diffs s' = fold perform (a # as) (apart_from_diffs s)" by (simp add: IH(6) keep(2))
  moreover have "\<forall>bs. interleaved ts' bs \<longrightarrow> interleaved ts ((a # as) @ bs)"
    using IH(7) turn [OF deliver.hyps(1,2)] by simp
  ultimately show ?case using IH(1-5,8,9) keep(3-5) by (metis order_trans)
next
  case (compare ph s ph1 s1 ts ts' ph' s')
  note keep = diff_step_keeps [OF compare.hyps(1) compare.prems]
  have sc: "(sv_sc s1)\<lparr>sc_faults := []\<rparr> = (sv_sc s)\<lparr>sc_faults := []\<rparr>"
    using arg_cong [OF keep(3), of sv_sc] by (simp add: apart_from_diffs_def)
  from keep(6) obtain rows1 where r1: "pg_diffs (sv_pg s1) = pg_diffs (sv_pg s) @ rows1" "rows_ok en event new ph ph1 s1 rows1" by blast
  from compare.IH [OF keep(1,2)] obtain as rows
    where IH: "stores_up s'" "phase_ok en event s' ph'" "ph1 = Ended \<longrightarrow> ph' = Ended"
      "set (pg_attempts (sv_pg s1)) \<subseteq> set (pg_attempts (sv_pg s'))"
      "(sv_sc s')\<lparr>sc_faults := []\<rparr> = (sv_sc s1)\<lparr>sc_faults := []\<rparr>"
      "apart_from_diffs s' = fold perform as (apart_from_diffs s1)"
      "\<forall>bs. interleaved ts' bs \<longrightarrow> interleaved ts (as @ bs)"
      "pg_diffs (sv_pg s') = pg_diffs (sv_pg s1) @ rows" "rows_ok en event new ph1 ph' s' rows" by blast
  have "rows_ok en event new ph ph1 s' rows1"
    using r1(2) IH(4,5) by (auto simp: rows_ok_def succeeded_before_def payload_of_def)
  from rows_compose [OF this IH(9,3) keep(5)] have "rows_ok en event new ph ph' s' (rows1 @ rows)" .
  moreover have "pg_diffs (sv_pg s') = pg_diffs (sv_pg s) @ rows1 @ rows" by (simp add: IH(8) r1(1))
  ultimately show ?case using IH(1,2,4-7) keep(3-5) sc by metis
qed

lemma diff_run_beside: "diff_run en event new ph s ph' s' \<Longrightarrow> beside en event new [] ph s [] ph' s'"
  by (induction rule: diff_run.induct) (auto intro: now_here compare)

lemma beside_trans:
  "beside en event new ts ph s ts1 ph1 s1 \<Longrightarrow> beside en event new ts1 ph1 s1 ts2 ph2 s2
    \<Longrightarrow> beside en event new ts ph s ts2 ph2 s2"
  by (induction rule: beside.induct) (auto intro: deliver compare)

lemma interleaved_beside:
  "interleaved ts bs \<Longrightarrow> \<exists>ts'. beside en event new ts ph s ts' ph (fold perform bs s) \<and> (\<forall>t \<in> set ts'. t = [])"
proof (induction arbitrary: s rule: interleaved.induct)
  case (finished ts)
  then show ?case by (metis fold_simps(1) now_here)
next
  case (turn i ts a t bs)
  from turn.IH [of "perform a s"] turn.hyps(1,2) show ?case by (metis deliver fold_simps(2))
qed

lemma pg_query_tick: "pg_query q s = (r, s') \<Longrightarrow> s' = pg_tick s"
  by (simp add: pg_query_def)

lemma queries_tick [simp]:
  "snd (GetRoutingRules src s) = pg_tick s" "snd (GetDestinationsBySourceID src s) = pg_tick s"
  "snd (GetDefaultDestinations src s) = pg_tick s"
  by (simp_all add: GetRoutingRules_def GetDestinationsBySourceID_def GetDefaultDestinations_def pg_query_def)

lemma ResolveDestinations_reads:
  "\<exists>f. snd (ResolveDestinations parse pc ff pf src body s) = s\<lparr>pg_faults := f\<rparr>"
proof -
  obtain r where rules: "GetRoutingRules src s = (r, pg_tick s)" by (metis queries_tick(1) prod.collapse)
  obtain a where all': "GetDestinationsBySourceID src (pg_tick s) = (a, pg_tick (pg_tick s))"
    by (metis queries_tick(2) prod.collapse)
  have "snd (ResolveDestinations parse pc ff pf src body s) \<in> {pg_tick (pg_tick s), pg_tick (pg_tick (pg_tick s))}"
    unfolding ResolveDestinations_def rules
    by (cases r; cases "unmarshal_map parse body"; cases a) (simp_all add: all' Let_def)
  then show ?thesis by (auto simp: pg_tick_def)
qed

lemma destinations_keep:
  assumes "event_destinations en event s = (dests, s')" "stores_up s"
  shows "stores_up s'" "apart_from_diffs s' = apart_from_diffs s" "sv_sc s' = sv_sc s"
    "pg_diffs (sv_pg s') = pg_diffs (sv_pg s)" "pg_attempts (sv_pg s') = pg_attempts (sv_pg s)"
proof -
  obtain f where "sv_pg s' = (sv_pg s)\<lparr>pg_faults := f\<rparr>" "s' = s\<lparr>sv_pg := sv_pg s'\<rparr>"
    using assms(1) ResolveDestinations_reads [of "en_parse en" "en_parse_conds en" "en_ff en" "en_pf en"
        "ev_SourceID event" "ev_RawBody event" "sv_pg s"]
    by (auto simp: event_destinations_def split: prod.splits sum.splits)
  then obtain f where s': "s' = s\<lparr>sv_pg := (sv_pg s)\<lparr>pg_faults := f\<rparr>\<rparr>" by metis
  then show "apart_from_diffs s' = apart_from_diffs s" "sv_sc s' = sv_sc s"
    "pg_diffs (sv_pg s') = pg_diffs (sv_pg s)" "pg_attempts (sv_pg s') = pg_attempts (sv_pg s)"
    by (simp_all add: apart_from_diffs_def)
  show "stores_up s'"
    using assms(2) settled_destinations [OF assms(1)] s' by (simp add: stores_up_def)
qed

lemma inspect_diffs:
  assumes "inspect_event en now event s = (drifts, s')"
  shows "pg_diffs (sv_pg s') = pg_diffs (sv_pg s)" "stores_up s \<Longrightarrow> stores_up s'"
proof -
  have up: "pg_diffs (snd (UpsertPayloadSchema ps p)) = pg_diffs p" "pg_diffs (snd (InsertDriftEvent d p)) = pg_diffs p" for ps d p
    by (simp_all add: UpsertPayloadSchema_def InsertDriftEvent_def pg_exec_def Let_def)
  have update: "pg_diffs (UpdateSchema GetPayloadSchema UpsertPayloadSchema src pl m t p) = pg_diffs p" for src pl m t p
    by (cases "GetPayloadSchema src p") (auto simp: UpdateSchema_def up Let_def GetPayloadSchema_def
        dest: pg_query_tick split: sum.split)
  have drifts: "pg_diffs (fold (\<lambda>d st. snd (InsertDriftEvent d st)) ds p) = pg_diffs p" for ds p
    by (induction ds arbitrary: p) (simp_all add: up)
  have check: "pg_diffs (snd (CheckDrift GetPayloadSchema InsertDriftEvent src i pl t p)) = pg_diffs p" for src i pl t p
    by (cases "GetPayloadSchema src p") (auto simp: CheckDrift_def drifts Let_def GetPayloadSchema_def
        dest: pg_query_tick split: sum.split)
  show "pg_diffs (sv_pg s') = pg_diffs (sv_pg s)"
    using assms check update
    by (auto simp: inspect_event_def Let_def case_prod_unfold split: option.splits)
  assume "stores_up s"
  then have "True \<notin> set (sc_faults (snd (InsertEvent (en_uuid en) event (sv_sc s))))"
    by (cases "sc_faults (sv_sc s)") (auto simp: stores_up_def InsertEvent_def sc_tick_def Let_def split: option.split)
  then have "True \<notin> set (sc_faults (sv_sc s'))"
    using assms by (auto simp: inspect_event_def Let_def case_prod_unfold split: option.splits)
  with \<open>stores_up s\<close> inspect_frame [OF assms] show "stores_up s'" by (simp add: stores_up_def)
qed

text \<open>The parts of a run, up to any moment.\<close>

lemma event_run_keeps:
  assumes "event_run en nets now ev s ts ph s'" "stores_up s"
  shows "\<exists>as s2. stores_up s'
    \<and> (\<forall>bs. interleaved ts bs \<longrightarrow> deliverEvent en nets now ev s (fold perform (as @ bs) s2))
    \<and> apart_from_diffs s' = fold perform as (apart_from_diffs s2) \<and> stores_up s2
    \<and> (\<exists>rows. pg_diffs (sv_pg s') = pg_diffs (sv_pg s) @ rows
        \<and> rows_ok en ev (snd (diff_start en ev)) Sleeping ph s' rows)"
  using assms(1)
proof cases
  case (1 drifts s1 ph0 new ph1 s2 dests s3)
  have s1: "stores_up s1" "pg_diffs (sv_pg s1) = pg_diffs (sv_pg s)"
    using inspect_diffs [OF 1(1)] assms(2) by simp_all
  have ph0: "phase_ok en ev s1 ph0" using 1(2) by (auto simp: diff_start_def split: option.splits)
  from beside_keeps [OF diff_run_beside [OF 1(3)] s1(1) ph0] obtain as0 rows0
    where s2: "stores_up s2" "phase_ok en ev s2 ph1" "ph0 = Ended \<longrightarrow> ph1 = Ended"
      "apart_from_diffs s2 = fold perform as0 (apart_from_diffs s1)" "\<forall>bs. interleaved [] bs \<longrightarrow> interleaved [] (as0 @ bs)"
      "pg_diffs (sv_pg s2) = pg_diffs (sv_pg s1) @ rows0" "rows_ok en ev new ph0 ph1 s2 rows0" by blast
  have "interleaved ([] :: action list list) []" by (rule finished) simp
  with s2(5) have "interleaved ([] :: action list list) as0" by fastforce
  then have "as0 = []" by (auto dest: interleaved_mset)
  with s2(4) have eq: "apart_from_diffs s2 = apart_from_diffs s1" by simp
  note s3 = destinations_keep [OF 1(4) s2(1)]
  have ph1: "phase_ok en ev s3 ph1" using phase_later [OF s2(2)] s3(3,5) by simp
  from beside_keeps [OF 1(5) s3(1) ph1] obtain as rows
    where s': "stores_up s'" "ph1 = Ended \<longrightarrow> ph = Ended"
      "apart_from_diffs s' = fold perform as (apart_from_diffs s3)"
      "\<forall>bs. interleaved ts bs \<longrightarrow> interleaved (fan_out en nets ev dests) (as @ bs)"
      "set (pg_attempts (sv_pg s3)) \<subseteq> set (pg_attempts (sv_pg s'))" "(sv_sc s')\<lparr>sc_faults := []\<rparr> = (sv_sc s3)\<lparr>sc_faults := []\<rparr>"
      "pg_diffs (sv_pg s') = pg_diffs (sv_pg s3) @ rows" "rows_ok en ev new ph1 ph s' rows" by blast
  obtain dests' t2 where t2: "event_destinations en ev s1 = (dests', t2)" by fastforce
  have views: "delivery_view (sv_pg s2) = delivery_view (sv_pg s1)"
    using arg_cong [OF eq, of "\<lambda>s. delivery_view (sv_pg s)"] by (simp add: apart_from_diffs_def delivery_view_def)
  have "dests' = dests"
    using settled_destinations [OF t2] settled_destinations [OF 1(4)] chosen_dests_view [OF views] s1(1) s2(1)
    by (simp add: stores_up_def)
  with t2 have t2: "event_destinations en ev s1 = (dests, t2)" by simp
  have "rows_ok en ev new ph0 ph1 s' rows0"
    using s2(7) s'(5,6) s3(3,5) by (auto simp: rows_ok_def succeeded_before_def payload_of_def)
  then have rows: "rows_ok en ev new ph0 ph s' (rows0 @ rows)"
    using rows_compose [OF _ s'(8,2)] s'(2,8) s2(3) by (cases "ph0 = Ended") (auto simp: rows_ok_def)
  then have "rows_ok en ev (snd (diff_start en ev)) Sleeping ph s' (rows0 @ rows)"
    using 1(2) by (auto simp: rows_ok_def)
  moreover have "apart_from_diffs s' = fold perform as (apart_from_diffs t2)"
    using s'(3) s3(2) eq destinations_keep(2) [OF t2 s1(1)] by simp
  moreover have "deliverEvent en nets now ev s (fold perform (as @ bs) t2)" if "interleaved ts bs" for bs
    using deliverEvent.intros [OF 1(1) t2] s'(4) that by blast
  ultimately show ?thesis
    using s'(1,7) s2(6) s1(2) s3(4) destinations_keep(1) [OF t2 s1(1)] by (intro exI [of _ as] exI [of _ t2]) auto
qed

lemma perform_all_apart:
  "stores_up s \<Longrightarrow> apart_from_diffs (fold perform as s) = fold perform as (apart_from_diffs s)"
  by (induction as arbitrary: s) (simp_all add: perform_keeps)

text \<open>
  C25: the comparison never disturbs a delivery. Let the goroutine of the comparison run beside the delivery of
  an event in any way, over stores that answer. At every moment the delivery can go on to its end without the
  comparison taking a step. When it has ended, the stores hold what a delivery without any comparison leaves
  there, the table of differences apart; and that table has gained nothing, or, once the comparison has
  ended, exactly one row: the difference of the event to one whose delivery to this source has succeeded,
  computed from the archived payload of that event.
\<close>

theorem diff_beside_delivery:
  assumes "event_run en nets now ev s ts ph s'" "stores_up s"
  shows "(\<exists>ts' s''. beside en ev (snd (diff_start en ev)) ts ph s' ts' ph s'' \<and> (\<forall>t \<in> set ts'. t = []))
    \<and> ((\<forall>t \<in> set ts. t = []) \<longrightarrow>
        (\<exists>s''. deliverEvent en nets now ev s s'' \<and> apart_from_diffs s' = apart_from_diffs s''))
    \<and> (\<exists>rows. pg_diffs (sv_pg s') = pg_diffs (sv_pg s) @ rows \<and> (rows = [] \<or> ph = Ended \<and>
        (\<exists>i old. rows = [diff_row en ev (snd (diff_start en ev)) i old]
          \<and> succeeded_before ev s' i \<and> payload_of en ev (sv_sc s') i = Some old)))"
proof (intro conjI impI)
  obtain bs where "interleaved ts bs" using interleaved_exists by blast
  from interleaved_beside [OF this]
  show "\<exists>ts' s''. beside en ev (snd (diff_start en ev)) ts ph s' ts' ph s'' \<and> (\<forall>t \<in> set ts'. t = [])" by blast
  obtain as s2 where k: "\<forall>bs. interleaved ts bs \<longrightarrow> deliverEvent en nets now ev s (fold perform (as @ bs) s2)"
    "apart_from_diffs s' = fold perform as (apart_from_diffs s2)" "stores_up s2"
    using event_run_keeps [OF assms] by blast
  show "\<exists>s''. deliverEvent en nets now ev s s'' \<and> apart_from_diffs s' = apart_from_diffs s''" if "\<forall>t \<in> set ts. t = []"
    using k(1) finished [OF that] k(2) perform_all_apart [OF k(3), of as] by (metis append_Nil2)
  show "\<exists>rows. pg_diffs (sv_pg s') = pg_diffs (sv_pg s) @ rows \<and> (rows = [] \<or> ph = Ended \<and>
        (\<exists>i old. rows = [diff_row en ev (snd (diff_start en ev)) i old]
          \<and> succeeded_before ev s' i \<and> payload_of en ev (sv_sc s') i = Some old))"
    using event_run_keeps [OF assms] by (auto simp: rows_ok_def)
qed

text \<open>An event after another one of its source, which has no destination.\<close>

definition compare_engine :: engine where
  "compare_engine = demo_engine\<lparr>en_parse := (\<lambda>_. Some (JObj []))\<rparr>"

definition compare_services :: services where
  "compare_services =
    \<lparr>sv_pg = (fresh_pg ''s'')\<lparr>pg_attempts :=
        [\<lparr>da_EventID = ''old'', da_SourceID = ''s'', da_DestinationID = ''d'', da_AttemptNumber = 1, da_AttemptedAt = 0,
          da_StatusCode = 200, da_Success = True, da_ErrorMessage = [], da_DurationMs = 1\<rparr>]\<rparr>,
     sv_rd = redis_of [],
     sv_sc = \<lparr>sc_rows = [\<lparr>ar_SourceID = ''s'', ar_ReceivedAt = 0, ar_EventID = ''old'', ar_RawBody = [], ar_Headers = []\<rparr>],
              sc_faults = []\<rparr>\<rparr>"

theorem diff_beside_delivery_witness:
  "\<exists>s' i old. event_run compare_engine (\<lambda>_. steady (Responded 200 1)) 0 (plain ''new'' ''s'' []) compare_services [] Ended s'
    \<and> pg_diffs (sv_pg s') = [diff_row compare_engine (plain ''new'' ''s'' []) [] i old]
    \<and> succeeded_before (plain ''new'' ''s'' []) s' i"
proof -
  let ?en = compare_engine and ?ev = "plain ''new'' ''s'' []" and ?nets = "\<lambda>_. steady (Responded 200 1)"
  obtain drifts s1 where i: "inspect_event ?en 0 ?ev compare_services = (drifts, s1)" by fastforce
  have d: "diff_start ?en ?ev = (Sleeping, [])"
    by (simp add: diff_start_def compare_engine_def unmarshal_map_def map_entries_def)
  let ?s2 = "computeDiffAsync ?en ?ev [] s1"
  note run = diff_run_alone [of ?en ?ev "[]" s1]
  have up: "stores_up compare_services"
    by (simp add: stores_up_def all_up_def compare_services_def)
  have s1: "stores_up s1" "pg_diffs (sv_pg s1) = []" "delivery_view (sv_pg s1) = delivery_view (sv_pg compare_services)"
    using inspect_diffs [OF i] up inspect_frame [OF i] by (simp_all add: compare_services_def fresh_pg_def)
  have pg: "pg_attempts (sv_pg s1) = pg_attempts (sv_pg compare_services)" "pg_dests (sv_pg s1) = []" "pg_up (sv_pg s1)"
    using s1(1,3) by (simp_all add: delivery_view_def compare_services_def fresh_pg_def stores_up_def all_up_def)
  have sc: "sv_sc s1 = snd (InsertEvent Some ?ev (sv_sc compare_services))"
    using i by (auto simp: inspect_event_def Let_def case_prod_unfold compare_engine_def demo_engine_def split: option.splits)
  have prev: "GetPreviousEventID ''s'' ''new'' (sv_pg s1) = (Inr ''old'', pg_tick (sv_pg s1))"
    using pg by (simp add: GetPreviousEventID_def pg_query_def compare_services_def)
  obtain e c where get: "GetEvent Some ''s'' ''old'' (sv_sc s1) = (Some e, c)"
    by (simp add: sc GetEvent_def InsertEvent_def sc_fails_def compare_services_def Store.partition_def
        sc_tick_def Let_def plain_def millis_def)
  have s2: "pg_diffs (sv_pg ?s2) \<noteq> []" "pg_dests (sv_pg ?s2) = []"
    using prev get pg by (simp_all add: computeDiffAsync_def plain_def compare_engine_def demo_engine_def unmarshal_map_def
        InsertWebhookDiff_def pg_exec_def)
  obtain dests s3 where ds: "event_destinations ?en ?ev ?s2 = (dests, s3)" by fastforce
  have up2: "stores_up ?s2"
    using beside_keeps [OF diff_run_beside [OF run] s1(1)] by simp
  then have dests: "dests = []"
    using settled_destinations [OF ds] s2(2)
    by (auto simp: stores_up_def chosen_dests_def active_dests_def default_dests_def Let_def split: option.splits if_splits)
  have whole: "event_run ?en ?nets 0 ?ev compare_services [] Ended s3"
    using event_run.intros [OF i d run ds, of ?nets "[]" Ended s3] now_here by (simp add: dests fan_out_def)
  have "pg_diffs (sv_pg s3) \<noteq> []" using destinations_keep(4) [OF ds up2] s2(1) by simp
  moreover have "pg_diffs (sv_pg compare_services) = []" by (simp add: compare_services_def fresh_pg_def)
  ultimately show ?thesis
    using diff_beside_delivery [OF whole up] whole d by auto
qed

end
