(* ===== verification/RateLimit.thy ===== *)
theory RateLimit
  imports GoStrings
begin

text \<open>
  \<open>internal/ratelimit/limiter.go\<close>: the two scopes of the rate limit. The algorithm is the package
  \<open>redis_rate\<close>: its \<open>Allow\<close> is the argument \<open>allow\<close>, with a state of its own (\<open>None\<close> is an error).
\<close>

record rate_decision =
  rd_Allowed :: int
  rd_Remaining :: int
  rd_RetryAfter :: int
  rd_ResetAfter :: int

record Result =
  rs_Allowed :: bool
  rs_Remaining :: int
  rs_RetryAfter :: int
  rs_ResetAfter :: int

record Limiter =
  perIPPerMinute :: int
  perSourcePerMinute :: int

type_synonym 'l allow = "string \<Rightarrow> int \<Rightarrow> 'l \<Rightarrow> rate_decision option \<times> 'l"

definition NewLimiter :: "int \<Rightarrow> int \<Rightarrow> Limiter" where
  "NewLimiter ip src = \<lparr>perIPPerMinute = ip, perSourcePerMinute = src\<rparr>"

definition limiter_allow :: "'l allow \<Rightarrow> string \<Rightarrow> int \<Rightarrow> 'l \<Rightarrow> Result option \<times> 'l" where
  "limiter_allow allow key perMinute s =
    (case allow key perMinute s of
       (None, s1) \<Rightarrow> (None, s1)
     | (Some res, s1) \<Rightarrow>
         (Some \<lparr>rs_Allowed = rd_Allowed res > 0, rs_Remaining = rd_Remaining res,
                rs_RetryAfter = rd_RetryAfter res, rs_ResetAfter = rd_ResetAfter res\<rparr>, s1))"

definition unlimited :: Result where
  "unlimited = \<lparr>rs_Allowed = True, rs_Remaining = 0, rs_RetryAfter = 0, rs_ResetAfter = 0\<rparr>"

definition AllowIP :: "'l allow \<Rightarrow> Limiter \<Rightarrow> string \<Rightarrow> 'l \<Rightarrow> Result option \<times> 'l" where
  "AllowIP allow l ip s =
    (if perIPPerMinute l \<le> 0 then (Some unlimited, s)
     else limiter_allow allow (''webhookmind:ratelimit:ip:'' @ ip) (perIPPerMinute l) s)"

definition AllowSource :: "'l allow \<Rightarrow> Limiter \<Rightarrow> string \<Rightarrow> 'l \<Rightarrow> Result option \<times> 'l" where
  "AllowSource allow l sourceID s =
    (if perSourcePerMinute l \<le> 0 then (Some unlimited, s)
     else limiter_allow allow (''webhookmind:ratelimit:source:'' @ sourceID) (perSourcePerMinute l) s)"

text \<open>The keys of the two scopes never meet, and distinct callers of a scope have distinct keys.\<close>

lemma scope_keys:
  "''webhookmind:ratelimit:ip:'' @ ip \<noteq> ''webhookmind:ratelimit:source:'' @ src"
  "(''webhookmind:ratelimit:ip:'' @ ip = ''webhookmind:ratelimit:ip:'' @ ip') = (ip = ip')"
  by simp_all

end
