(* ===== verification/Ingestion.thy ===== *)
theory Ingestion
  imports Signature RateLimit Store Queue
begin

text \<open>
  \<open>internal/ingestion/handler.go\<close>: the HTTP handler that accepts webhooks. A response is its status,
  headers and body. The store behind the handler is the interface \<open>SecretStore\<close> of the code; its
  operations are arguments and its contract is the locale \<open>secret_store\<close>. The clock and the generator
  of ids are arguments too.
\<close>

section \<open>Requests and responses\<close>

text \<open>
  The headers of a request under their canonical names, each with its first value and the further
  ones (\<open>net/http\<close> keeps no name without a value). \<open>rq_Body\<close> is \<open>None\<close> when the connection breaks.
\<close>

record request =
  rq_SourceID :: string
  rq_Headers :: "(string \<times> string list) gomap"
  rq_Body :: "bytes option"
  rq_RemoteAddr :: string

record response =
  re_Status :: int
  re_Headers :: "(string \<times> string) list"
  re_Body :: string

text \<open>\<open>textproto.CanonicalMIMEHeaderKey\<close>, which \<open>Header.Get\<close> applies to its argument.\<close>

definition token_char :: "char \<Rightarrow> bool" where
  "token_char c =
    (let n = (of_char c :: nat) in
     (48 \<le> n \<and> n \<le> 57) \<or> (65 \<le> n \<and> n \<le> 90) \<or> (97 \<le> n \<and> n \<le> 122) \<or> c \<in> set ''!#$%&*+-.^_|~'' \<or> n \<in> {39, 96})"

definition upper_char :: "char \<Rightarrow> char" where
  "upper_char c = (let n = (of_char c :: nat) in if 97 \<le> n \<and> n \<le> 122 then char_of (n - 32) else c)"

fun canonical_from :: "bool \<Rightarrow> string \<Rightarrow> string" where
  "canonical_from upper [] = []"
| "canonical_from upper (c # s) =
     (if upper then upper_char c else lower_char c) # canonical_from (c = CHR ''-'') s"

definition canonical_key :: "string \<Rightarrow> string" where
  "canonical_key s = (if s \<noteq> [] \<and> list_all token_char s then canonical_from True s else s)"

definition header_get :: "request \<Rightarrow> string \<Rightarrow> string" where
  "header_get r key =
    (case gm_get (rq_Headers r) (canonical_key key) of None \<Rightarrow> [] | Some vs \<Rightarrow> fst vs)"

definition http_error :: "string \<Rightarrow> int \<Rightarrow> response" where
  "http_error msg code =
    \<lparr>re_Status = code,
     re_Headers = [(''Content-Type'', ''text/plain; charset=utf-8''), (''X-Content-Type-Options'', ''nosniff'')],
     re_Body = msg @ [CHR 0x0A]\<rparr>"

section \<open>Rate limit\<close>

definition clientIP :: "request \<Rightarrow> string" where
  "clientIP r =
    (let xff = header_get r ''X-Forwarded-For''; xri = header_get r ''X-Real-IP'' in
     if xff \<noteq> [] then
       (case index_byte xff (CHR '','') of
          Some comma \<Rightarrow> if comma > 0 then trim_space (take comma xff) else trim_space xff
        | None \<Rightarrow> trim_space xff)
     else if xri \<noteq> [] then trim_space xri
     else case split_host (rq_RemoteAddr r) of Some host \<Rightarrow> host | None \<Rightarrow> rq_RemoteAddr r)"

definition writeRateLimited :: "string \<Rightarrow> int \<Rightarrow> response" where
  "writeRateLimited scope retryAfter =
    (let secs = (let n = quot retryAfter second in if n < 1 then 1 else n) in
     \<lparr>re_Status = 429,
      re_Headers = [(''Retry-After'', format_int secs), (''X-RateLimit-Remaining'', ''0''),
                    (''Content-Type'', ''application/json'')],
      re_Body = ''{\"error\":\"rate limit exceeded\",\"scope\":\"'' @ scope @ ''\"}''\<rparr>)"

text \<open>\<open>None\<close> lets the request proceed.\<close>

definition checkRateLimit ::
    "'l allow \<Rightarrow> Limiter option \<Rightarrow> request \<Rightarrow> string \<Rightarrow> 'l \<Rightarrow> response option \<times> 'l" where
  "checkRateLimit allow limiter r sourceID s =
    (case limiter of
       None \<Rightarrow> (None, s)
     | Some l \<Rightarrow>
         let (res_ip, s1) = AllowIP allow l (clientIP r) s in
         if (case res_ip of None \<Rightarrow> False | Some res \<Rightarrow> \<not> rs_Allowed res)
         then (Some (writeRateLimited ''ip'' (rs_RetryAfter (the res_ip))), s1)
         else
           let (res_src, s2) = AllowSource allow l sourceID s1 in
           if (case res_src of None \<Rightarrow> False | Some res \<Rightarrow> \<not> rs_Allowed res)
           then (Some (writeRateLimited ''source'' (rs_RetryAfter (the res_src))), s2)
           else (None, s2))"

section \<open>Signature\<close>

definition signatureMaxAge :: int where
  "signatureMaxAge = 5 * 60 * second"

definition classifySignatureError :: "sig_error \<Rightarrow> string" where
  "classifySignatureError e =
    (case e of
       ErrMissingHeader \<Rightarrow> ''missing_header''
     | ErrMalformedHeader \<Rightarrow> ''malformed_header''
     | ErrStaleTimestamp \<Rightarrow> ''stale_timestamp''
     | ErrSignatureMismatch \<Rightarrow> ''signature_mismatch''
     | ErrInvalidSecret \<Rightarrow> ''invalid_secret'')"

text \<open>\<open>secrets\<close> is the lookup of the store, or \<open>None\<close> for a handler without one.\<close>

definition checkSignature ::
    "(string \<Rightarrow> 's \<Rightarrow> ('e + string) \<times> 's) option \<Rightarrow> bool \<Rightarrow> request \<Rightarrow> string \<Rightarrow> bytes \<Rightarrow> int \<Rightarrow> 's
     \<Rightarrow> response option \<times> 's" where
  "checkSignature secrets requireSignature r sourceID body now s =
    (case (case secrets of None \<Rightarrow> (Inr [], s) | Some get \<Rightarrow> get sourceID s) of
       (Inl _, s1) \<Rightarrow> (Some (http_error ''{\"error\":\"failed to verify signature\"}'' 500), s1)
     | (Inr secret, s1) \<Rightarrow>
         if secret = [] then
           if \<not> requireSignature then (None, s1)
           else (Some (http_error ''{\"error\":\"signature required but source has no secret configured\"}'' 401), s1)
         else case Verify secret (header_get r ''X-Signature'') body now signatureMaxAge of
                Some _ \<Rightarrow> (Some (http_error ''{\"error\":\"signature verification failed\"}'' 401), s1)
              | None \<Rightarrow> (None, s1))"

section \<open>The event\<close>

definition byok_header :: "string \<Rightarrow> bool" where
  "byok_header key \<longleftrightarrow>
    equal_fold key ''X-Anthropic-Key'' \<or> equal_fold key ''X-OpenAI-Key'' \<or> equal_fold key ''X-LLM-Model''"

definition byok_override :: "request \<Rightarrow> string \<times> string" where
  "byok_override r =
    (let anthropicKey = header_get r ''X-Anthropic-Key''; openaiKey = header_get r ''X-OpenAI-Key'' in
     if openaiKey \<noteq> [] then (openaiKey, ''openai'')
     else if anthropicKey \<noteq> [] then (anthropicKey, ''anthropic'')
     else ([], []))"

definition captured_headers :: "request \<Rightarrow> string gomap" where
  "captured_headers r =
    fold (\<lambda>(key, vs) m. if byok_header key then m else gm_set key (fst vs) m) (rq_Headers r) []"

definition build_event :: "request \<Rightarrow> bytes \<Rightarrow> string \<Rightarrow> int \<Rightarrow> WebhookEvent" where
  "build_event r body eventID now =
    \<lparr>ev_ID = eventID, ev_SourceID = rq_SourceID r, ev_ReceivedAt = now, ev_RawBody = body,
     ev_Headers = captured_headers r, ev_FileURL = [], ev_FileStorePath = [], ev_ExtractedData = None,
     ev_ExtractionMs = 0, ev_APIKeyOverride = fst (byok_override r),
     ev_ProviderOverride = snd (byok_override r), ev_ModelOverride = header_get r ''X-LLM-Model''\<rparr>"

section \<open>The handler\<close>

record Handler =
  hd_limiter :: "Limiter option"
  hd_maxBodyBytes :: int
  hd_requireSignature :: bool

definition NewHandler :: "Limiter option \<Rightarrow> int \<Rightarrow> bool \<Rightarrow> Handler" where
  "NewHandler limiter maxBodyBytes requireSignature =
    \<lparr>hd_limiter = limiter, hd_maxBodyBytes = maxBodyBytes, hd_requireSignature = requireSignature\<rparr>"

record ('l, 's) ingest =
  in_limits :: 'l
  in_store :: 's
  in_redis :: redis

text \<open>\<open>http.MaxBytesReader\<close> makes reading a longer body an error; a negative limit counts as 0.\<close>

definition read_body :: "int \<Rightarrow> request \<Rightarrow> bytes option" where
  "read_body maxBytes r =
    (case rq_Body r of None \<Rightarrow> None | Some b \<Rightarrow> if int (length b) > max 0 maxBytes then None else Some b)"

text \<open>What an accepted webhook publishes and counts after the push is in the theories Streams and Measures.\<close>

definition handleWebhook ::
    "'l allow \<Rightarrow> ((string \<Rightarrow> 's \<Rightarrow> ('e + string) \<times> 's) \<times> (string \<Rightarrow> 's \<Rightarrow> 'f \<times> 's)) option
     \<Rightarrow> Handler \<Rightarrow> string \<Rightarrow> int \<Rightarrow> request \<Rightarrow> ('l, 's) ingest \<Rightarrow> response \<times> ('l, 's) ingest" where
  "handleWebhook allow secrets h eventID now r s =
    (if rq_SourceID r = [] then (http_error ''{\"error\":\"source_id is required\"}'' 400, s)
     else
       let (limited, l1) = checkRateLimit allow (hd_limiter h) r (rq_SourceID r) (in_limits s);
           s1 = s\<lparr>in_limits := l1\<rparr> in
       case limited of
         Some resp \<Rightarrow> (resp, s1)
       | None \<Rightarrow>
         (case read_body (hd_maxBodyBytes h) r of
            None \<Rightarrow> (http_error ''{\"error\":\"failed to read body\"}'' 400, s1)
          | Some body \<Rightarrow>
              let (rejected, p1) = checkSignature (map_option fst secrets) (hd_requireSignature h) r
                                     (rq_SourceID r) body now (in_store s1);
                  s2 = s1\<lparr>in_store := p1\<rparr> in
              case rejected of
                Some resp \<Rightarrow> (resp, s2)
              | None \<Rightarrow>
                let event = build_event r body eventID now;
                    s3 = (case secrets of
                            None \<Rightarrow> s2
                          | Some ops \<Rightarrow> s2\<lparr>in_store := snd (snd ops (rq_SourceID r) (in_store s2))\<rparr>);
                    (ok, rd) = Enqueue QueueIncoming event (in_redis s3);
                    s4 = s3\<lparr>in_redis := rd\<rparr>
                in if \<not> ok then (http_error ''{\"error\":\"service unavailable\"}'' 503, s4)
                   else (\<lparr>re_Status = 202, re_Headers = [(''Content-Type'', ''application/json'')],
                          re_Body = ''{\"id\":\"'' @ eventID @ ''\"}'' @ [CHR 0x0A]\<rparr>, s4)))"

definition handleHealth :: response where
  "handleHealth = \<lparr>re_Status = 200, re_Headers = [(''Content-Type'', ''application/json'')],
                  re_Body = ''{\"status\":\"ok\"}''\<rparr>"

section \<open>The contract of the secret store\<close>

text \<open>
  What the handler relies on. \<open>secret_of\<close> is the secret a source has, empty for none; a lookup that
  returns no error returns it, and neither operation changes it.
\<close>

locale secret_store =
  fixes get_secret :: "string \<Rightarrow> 's \<Rightarrow> ('e + string) \<times> 's"
    and ensure :: "string \<Rightarrow> 's \<Rightarrow> 'f \<times> 's"
    and secret_of :: "'s \<Rightarrow> string \<Rightarrow> string"
    and known :: "'s \<Rightarrow> string \<Rightarrow> bool"
    and up :: "'s \<Rightarrow> bool"
  assumes get_sound: "fst (get_secret src s) = Inr x \<Longrightarrow> x = secret_of s src"
    and get_up: "up s \<Longrightarrow> fst (get_secret src s) = Inr (secret_of s src)"
    and get_keeps: "secret_of (snd (get_secret src s)) = secret_of s"
    and get_stays_up: "up s \<Longrightarrow> up (snd (get_secret src s))"
    and ensure_keeps: "secret_of (snd (ensure src s)) = secret_of s"
    and ensure_known: "up s \<Longrightarrow> src \<noteq> [] \<Longrightarrow> known (snd (ensure src s)) src"

lemma checkRateLimit_status: "fst (checkRateLimit allow l r src s) = Some resp \<Longrightarrow> re_Status resp = 429"
  by (auto simp: checkRateLimit_def writeRateLimited_def Let_def split: option.splits prod.splits if_splits)

lemma checkSignature_status:
  "fst (checkSignature secrets req r src body now s) = Some resp \<Longrightarrow> re_Status resp \<in> {401, 500}"
  by (auto simp: checkSignature_def http_error_def split: option.splits prod.splits sum.splits if_splits)

text \<open>A request is answered before anything is queued, or passes every check and reaches the queue.\<close>

lemma handleWebhook_cases:
  assumes "handleWebhook allow secrets h i now r s = (resp, s')"
  obtains (answered) "re_Status resp \<in> {400, 429, 401, 500}" "in_redis s' = in_redis s"
  | (queued) body p where
      "rq_SourceID r \<noteq> []" "fst (checkRateLimit allow (hd_limiter h) r (rq_SourceID r) (in_limits s)) = None"
      "read_body (hd_maxBodyBytes h) r = Some body"
      "checkSignature (map_option fst secrets) (hd_requireSignature h) r (rq_SourceID r) body now (in_store s)
        = (None, p)"
      "in_store s' = (case secrets of None \<Rightarrow> p | Some ops \<Rightarrow> snd (snd ops (rq_SourceID r) p))"
      "in_redis s' = snd (Enqueue QueueIncoming (build_event r body i now) (in_redis s))"
      "re_Status resp = (if fst (Enqueue QueueIncoming (build_event r body i now) (in_redis s)) then 202 else 503)"
proof -
  obtain limited l1 where l: "checkRateLimit allow (hd_limiter h) r (rq_SourceID r) (in_limits s) = (limited, l1)"
    by fastforce
  consider "rq_SourceID r = []" | "rq_SourceID r \<noteq> []" "limited \<noteq> None"
    | "rq_SourceID r \<noteq> []" "limited = None" "read_body (hd_maxBodyBytes h) r = None"
    | body where "rq_SourceID r \<noteq> []" "limited = None" "read_body (hd_maxBodyBytes h) r = Some body"
    by blast
  then show thesis
  proof cases
    case 1
    with assms show thesis by (intro answered) (auto simp: handleWebhook_def http_error_def)
  next
    case 2
    with assms l checkRateLimit_status [of allow "hd_limiter h" r "rq_SourceID r" "in_limits s"]
    show thesis by (intro answered) (auto simp: handleWebhook_def)
  next
    case 3
    with assms l show thesis by (intro answered) (auto simp: handleWebhook_def http_error_def)
  next
    case 4
    obtain rejected p where c: "checkSignature (map_option fst secrets) (hd_requireSignature h) r
        (rq_SourceID r) body now (in_store s) = (rejected, p)" by fastforce
    show thesis
    proof (cases rejected)
      case None
      with 4 l c assms show thesis
        by (intro queued [of body p])
          (auto simp: handleWebhook_def http_error_def Let_def case_prod_unfold split: option.splits if_splits)
    next
      case (Some x)
      with 4 l c assms checkSignature_status [of "map_option fst secrets" "hd_requireSignature h" r
          "rq_SourceID r" body now "in_store s" x]
      show thesis by (intro answered) (auto simp: handleWebhook_def)
    qed
  qed
qed

context secret_store
begin

lemma gate_sound:
  assumes "checkSignature (Some get_secret) req r src body now s = (None, p)"
  shows "(if secret_of s src = [] then \<not> req
          else Verify (secret_of s src) (header_get r ''X-Signature'') body now signatureMaxAge = None)
    \<and> secret_of p = secret_of s"
  using assms get_sound [of src s] get_keeps [of src s]
  by (auto simp: checkSignature_def split: prod.splits sum.splits if_splits option.splits)

lemma gate_up:
  assumes "up s"
  shows "fst (checkSignature (Some get_secret) req r src body now s) = None \<longleftrightarrow>
    (if secret_of s src = [] then \<not> req
     else Verify (secret_of s src) (header_get r ''X-Signature'') body now signatureMaxAge = None)"
  using get_up [OF assms, of src]
  by (auto simp: checkSignature_def split: prod.splits option.splits)

text \<open>An accepted webhook of a source with a secret carries a valid signature of its body.\<close>

lemma accepted_signed:
  assumes "handleWebhook allow (Some (get_secret, ensure)) h i now r s = (resp, s')" "re_Status resp = 202"
  shows "\<exists>body. rq_Body r = Some body \<and> int (length body) \<le> max 0 (hd_maxBodyBytes h)
    \<and> (if secret_of (in_store s) (rq_SourceID r) = [] then \<not> hd_requireSignature h
       else Verify (secret_of (in_store s) (rq_SourceID r)) (header_get r ''X-Signature'') body now
              signatureMaxAge = None)"
  using assms(1)
proof (cases rule: handleWebhook_cases)
  case answered
  with assms(2) show ?thesis by simp
next
  case (queued body p)
  then have "rq_Body r = Some body" "int (length body) \<le> max 0 (hd_maxBodyBytes h)"
    by (auto simp: read_body_def split: option.splits if_splits)
  moreover from queued(4) have "checkSignature (Some get_secret) (hd_requireSignature h) r (rq_SourceID r) body now
      (in_store s) = (None, p)" by simp
  note gate_sound [OF this]
  ultimately show ?thesis by blast
qed

lemma accepted_known:
  assumes "handleWebhook allow (Some (get_secret, ensure)) h i now r s = (resp, s')" "re_Status resp = 202"
    and "up (in_store s)"
  shows "known (in_store s') (rq_SourceID r)"
  using assms(1)
proof (cases rule: handleWebhook_cases)
  case answered
  with assms(2) show ?thesis by simp
next
  case (queued body p)
  have "up p"
    using queued(4) get_stays_up [OF assms(3), of "rq_SourceID r"]
    by (auto simp: checkSignature_def split: prod.splits sum.splits if_splits option.splits)
  with queued(1,5) ensure_known show ?thesis by simp
qed

end

definition pg_secret :: "pg \<Rightarrow> string \<Rightarrow> string" where
  "pg_secret s src =
    (case find (\<lambda>r. so_ID r = src) (pg_sources s) of
       None \<Rightarrow> [] | Some r \<Rightarrow> (case so_Secret r of None \<Rightarrow> [] | Some x \<Rightarrow> x))"

lemma GetSourceSigningSecret_eq:
  "GetSourceSigningSecret src s = (if pg_fails s then Inl QueryFailed else Inr (pg_secret s src), pg_tick s)"
  by (simp add: GetSourceSigningSecret_def pg_query_def pg_secret_def)

interpretation pgk: secret_store GetSourceSigningSecret EnsureSource pg_secret source_known pg_up
proof
  fix s src
  show "fst (GetSourceSigningSecret src s) = Inr x \<Longrightarrow> x = pg_secret s src" for x
    by (simp add: GetSourceSigningSecret_eq split: if_splits)
  show "pg_up s \<Longrightarrow> fst (GetSourceSigningSecret src s) = Inr (pg_secret s src)"
    by (simp add: GetSourceSigningSecret_eq)
  show "pg_secret (snd (GetSourceSigningSecret src s)) = pg_secret s"
    by (simp add: GetSourceSigningSecret_eq pg_secret_def fun_eq_iff)
  show "pg_up s \<Longrightarrow> pg_up (snd (GetSourceSigningSecret src s))"
    by (simp add: GetSourceSigningSecret_eq)
  show "pg_secret (snd (EnsureSource src s)) = pg_secret s"
    by (auto simp: EnsureSource_def pg_exec_def pg_secret_def find_append source_known_def fun_eq_iff
        split: option.splits)
  show "pg_up s \<Longrightarrow> src \<noteq> [] \<Longrightarrow> source_known (snd (EnsureSource src s)) src"
    by (auto simp: EnsureSource_def source_known_def)
qed

section \<open>What the handler guarantees\<close>

text \<open>
  C2: no webhook gets in unsigned. A request that is answered 202 came with a readable body within the
  limit, and if its source has a signing secret the header \<open>X-Signature\<close> verifies against this body
  with that secret at the time of the request; a source without a secret is accepted only when
  signatures are not required. This holds whatever fails in the database and the rate limiter.
\<close>

theorem accepted_webhook_is_signed:
  assumes "handleWebhook allow (Some (GetSourceSigningSecret, EnsureSource)) h i now r s = (resp, s')"
    and "re_Status resp = 202"
  shows "\<exists>body. rq_Body r = Some body \<and> int (length body) \<le> max 0 (hd_maxBodyBytes h)
    \<and> (if pg_secret (in_store s) (rq_SourceID r) = [] then \<not> hd_requireSignature h
       else Verify (pg_secret (in_store s) (rq_SourceID r)) (header_get r ''X-Signature'') body now
              signatureMaxAge = None)"
  by (rule pgk.accepted_signed [OF assms])

definition demo_request :: request where
  "demo_request =
    \<lparr>rq_SourceID = ''s'', rq_Headers = [(''Content-Type'', (''text/plain'', [])), (''X-Openai-Key'', (''sk-1'', []))],
     rq_Body = Some ''hi'', rq_RemoteAddr = ''10.0.0.1:80''\<rparr>"

definition demo_handler :: Handler where
  "demo_handler = \<lparr>hd_limiter = None, hd_maxBodyBytes = 100, hd_requireSignature = False\<rparr>"

definition demo_ingest :: "(unit, pg) ingest" where
  "demo_ingest = \<lparr>in_limits = (), in_store = fresh_pg ''s'', in_redis = redis_of []\<rparr>"

definition no_limit :: "unit allow" where
  "no_limit key n s = (None, s)"

lemma demo_run:
  "re_Status (fst (handleWebhook no_limit (Some (GetSourceSigningSecret, EnsureSource)) demo_handler ''e'' 7
     demo_request demo_ingest)) = 202"
proof -
  have "pg_secret (fresh_pg ''s'') ''s'' = []" by (simp add: pg_secret_def fresh_pg_def)
  moreover have "pg_fails (fresh_pg ''s'') = False" by simp
  ultimately show ?thesis
    by (simp add: handleWebhook_def demo_handler_def demo_request_def demo_ingest_def checkRateLimit_def
        checkSignature_def GetSourceSigningSecret_eq read_body_def Let_def Enqueue_def case_prod_unfold)
qed

theorem accepted_webhook_is_signed_witness:
  "\<exists>body. rq_Body demo_request = Some body \<and> int (length body) \<le> 100"
proof -
  let ?run = "handleWebhook no_limit (Some (GetSourceSigningSecret, EnsureSource)) demo_handler ''e'' 7
     demo_request demo_ingest"
  from accepted_webhook_is_signed [OF surjective_pairing demo_run] show ?thesis
    by (auto simp: demo_handler_def)
qed

text \<open>
  The queue and the answer agree. 202 means that the event built from the request is the last entry
  of the incoming queue, once, and that no other queue changed; every rejection (400, 401, 429, 500)
  leaves Redis untouched; 503 is the answer to a failed push. There is no other status.
\<close>

theorem accepted_webhook_is_queued:
  assumes "handleWebhook allow secrets h i now r s = (resp, s')"
  shows "re_Status resp \<in> {202, 400, 401, 429, 500, 503}
    \<and> (re_Status resp = 202 \<longrightarrow> (\<exists>body. rq_Body r = Some body \<and>
         rd_lists (in_redis s') = (rd_lists (in_redis s))(QueueIncoming :=
           rd_lists (in_redis s) QueueIncoming @ [marshal_event (build_event r body i now)])))
    \<and> (re_Status resp \<notin> {202, 503} \<longrightarrow> in_redis s' = in_redis s)
    \<and> (re_Status resp = 503 \<longrightarrow> \<not> queue_up (in_redis s))"
  using assms
proof (cases rule: handleWebhook_cases)
  case answered
  then show ?thesis by auto
next
  case (queued body p)
  have b: "rq_Body r = Some body" using queued(3) by (auto simp: read_body_def split: option.splits if_splits)
  show ?thesis
    using queued(6,7) b Enqueue_ok [of QueueIncoming "build_event r body i now" "in_redis s"]
      rq.enq_ok [of "in_redis s" QueueIncoming "build_event r body i now"]
    by (auto split: if_splits)
qed

theorem accepted_webhook_is_queued_witness:
  "\<exists>body. rq_Body demo_request = Some body \<and>
     rd_lists (in_redis (snd (handleWebhook no_limit (Some (GetSourceSigningSecret, EnsureSource)) demo_handler
       ''e'' 7 demo_request demo_ingest))) QueueIncoming = [marshal_event (build_event demo_request body ''e'' 7)]"
  using accepted_webhook_is_queued [OF surjective_pairing, of no_limit
      "Some (GetSourceSigningSecret, EnsureSource)" demo_handler "''e''" 7 demo_request demo_ingest] demo_run
  by (auto simp: demo_ingest_def redis_of_def)

lemma captured_fold:
  "gm_ok hs \<Longrightarrow> gm_get (fold (\<lambda>(key, vs) m. if byok_header key then m else gm_set key (fst vs) m) hs m) k
    = (case gm_get hs k of
         None \<Rightarrow> gm_get m k
       | Some vs \<Rightarrow> if byok_header k then gm_get m k else Some (fst vs))"
proof (induction hs arbitrary: m)
  case (Cons p hs)
  obtain a b where p: "p = (a, b)" by (cases p)
  have ok: "gm_ok hs" and n: "gm_get hs a = None"
    using Cons.prems by (auto simp: p gm_ok_def map_of_eq_None_iff)
  show ?case
    by (cases "k = a") (use Cons.IH [OF ok] n in \<open>auto simp: p split: option.split\<close>)
qed simp

lemma byok_header_names:
  "byok_header k \<longleftrightarrow> to_lower k \<in> {''x-anthropic-key'', ''x-openai-key'', ''x-llm-model''}"
proof -
  have "to_lower ''X-Anthropic-Key'' = ''x-anthropic-key''" "to_lower ''X-OpenAI-Key'' = ''x-openai-key''"
    "to_lower ''X-LLM-Model'' = ''x-llm-model''" by code_simp+
  then show ?thesis by (simp add: byok_header_def equal_fold_def)
qed

text \<open>
  C30: the key of the visitor leaves the headers. The event carries the first value of every header of
  the request except the three that bring a key or a model, in any spelling of their names. The key and
  its provider travel in the override fields: the OpenAI key if there is one, otherwise the Anthropic key,
  each with the name of its provider, and nothing when there is neither; the model that was asked for
  travels beside them.
\<close>

theorem byok_headers_removed:
  assumes "gm_ok (rq_Headers r)"
  shows "gm_get (ev_Headers (build_event r body i now)) k =
      (if to_lower k \<in> {''x-anthropic-key'', ''x-openai-key'', ''x-llm-model''} then None
       else map_option fst (gm_get (rq_Headers r) k))
    \<and> (header_get r ''X-OpenAI-Key'' \<noteq> [] \<longrightarrow>
        ev_APIKeyOverride (build_event r body i now) = header_get r ''X-OpenAI-Key''
        \<and> ev_ProviderOverride (build_event r body i now) = ''openai'')
    \<and> (header_get r ''X-OpenAI-Key'' = [] \<and> header_get r ''X-Anthropic-Key'' \<noteq> [] \<longrightarrow>
        ev_APIKeyOverride (build_event r body i now) = header_get r ''X-Anthropic-Key''
        \<and> ev_ProviderOverride (build_event r body i now) = ''anthropic'')
    \<and> (header_get r ''X-OpenAI-Key'' = [] \<and> header_get r ''X-Anthropic-Key'' = [] \<longrightarrow>
        ev_APIKeyOverride (build_event r body i now) = []
        \<and> ev_ProviderOverride (build_event r body i now) = [])
    \<and> ev_ModelOverride (build_event r body i now) = header_get r ''X-LLM-Model''"
  using captured_fold [OF assms, of "[]" k] byok_header_names [of k]
  by (auto simp: build_event_def captured_headers_def byok_override_def Let_def split: option.split)

theorem byok_headers_removed_witness:
  "gm_get (ev_Headers (build_event demo_request ''hi'' ''e'' 7)) ''x-oPENAI-kEY'' = None
   \<and> gm_get (ev_Headers (build_event demo_request ''hi'' ''e'' 7)) ''Content-Type'' = Some ''text/plain''
   \<and> ev_APIKeyOverride (build_event demo_request ''hi'' ''e'' 7) = ''sk-1''"
proof -
  have ok: "gm_ok (rq_Headers demo_request)" by (simp add: demo_request_def gm_ok_def)
  have "to_lower ''x-oPENAI-kEY'' = ''x-openai-key''" "to_lower ''Content-Type'' = ''content-type''"
    by code_simp+
  moreover have "canonical_key ''X-OpenAI-Key'' = ''X-Openai-Key''"
    by code_simp
  then have "header_get demo_request ''X-OpenAI-Key'' = ''sk-1''"
    by (simp add: header_get_def demo_request_def)
  ultimately show ?thesis
    using byok_headers_removed [OF ok, of "''hi''" "''e''" 7 "''x-oPENAI-kEY''"]
      byok_headers_removed [OF ok, of "''hi''" "''e''" 7 "''Content-Type''"]
    by (simp add: demo_request_def)
qed

text \<open>
  Trouble opens the one gate and closes the other. A rate limiter that does not answer lets every
  request through; a database that does not answer the lookup of the secret has the request answered
  500, signed or not. A limited request is told to come back after a whole number of seconds, at least
  one.
\<close>

theorem gates_under_faults:
  "fst (checkRateLimit (\<lambda>key n s. (None, s)) l r src s) = None
   \<and> (pg_fails p \<longrightarrow> (\<exists>resp. fst (checkSignature (Some GetSourceSigningSecret) req r src body now p) = Some resp
        \<and> re_Status resp = 500))
   \<and> (\<exists>n \<ge> 1. gm_get (re_Headers (writeRateLimited scope after)) ''Retry-After'' = Some (format_int n)
        \<and> (second \<le> after \<longrightarrow> n = after div second))"
proof -
  have "fst (checkRateLimit (\<lambda>key n s. (None, s)) l r src s) = None"
    by (auto simp: checkRateLimit_def AllowIP_def AllowSource_def limiter_allow_def unlimited_def Let_def
        split: option.splits)
  moreover have "\<exists>n \<ge> 1. gm_get (re_Headers (writeRateLimited scope after)) ''Retry-After'' = Some (format_int n)
        \<and> (second \<le> after \<longrightarrow> n = after div second)"
  proof -
    let ?n = "if quot after second < 1 then 1 else quot after second"
    have "second \<le> after \<longrightarrow> ?n = after div second" by (auto simp: second_def)
    then show ?thesis by (intro exI [of _ ?n]) (simp add: writeRateLimited_def Let_def)
  qed
  ultimately show ?thesis
    by (auto simp: checkSignature_def GetSourceSigningSecret_eq http_error_def)
qed

theorem gates_under_faults_witness:
  "\<exists>resp. fst (checkSignature (Some GetSourceSigningSecret) False demo_request ''s'' ''hi'' 7
      ((fresh_pg ''s'')\<lparr>pg_faults := [True]\<rparr>)) = Some resp \<and> re_Status resp = 500"
  using gates_under_faults [of None demo_request "''s''" "()" "(fresh_pg ''s'')\<lparr>pg_faults := [True]\<rparr>" False
      "''hi''" 7 "''ip''" 0]
  by (simp add: pg_fails_def)

end
