(* ===== verification/Config.thy ===== *)
theory Config
  imports GoStrings
begin

text \<open>
  \<open>internal/config\<close>: the configuration that every service loads. \<open>env\<close> is \<open>os.Getenv\<close>, which
  gives the empty string for a variable that is not set.
\<close>

section \<open>The records\<close>

record IngestionConfig =
  ic_Port :: int
  ic_MaxBodyBytes :: int
  ic_RequireSignature :: bool
  ic_RateLimitPerIP :: int
  ic_RateLimitPerSource :: int

record OrchestratorConfig =
  oc_Workers :: int
  oc_MaxWorkers :: int
  oc_QueueScaleThreshold :: int

record DeliveryConfig =
  dc_Workers :: int
  dc_MaxWorkers :: int
  dc_MaxRetries :: int

record RedisConfig =
  rc_Addr :: string
  rc_Password :: string
  rc_DB :: int

record ScyllaConfig =
  sy_Hosts :: "string list"
  sy_Keyspace :: string

record MinIOConfig =
  mc_Endpoint :: string
  mc_AccessKey :: string
  mc_SecretKey :: string
  mc_Bucket :: string
  mc_UseSSL :: bool
  mc_InternalEndpoint :: string

record ExtractorConfig =
  ec_Backend :: string
  ec_Fallback :: string
  ec_GRPCAddr :: string
  ec_GRPCTimeoutSeconds :: int
  ec_AnthropicAPIKey :: string
  ec_AnthropicModel :: string
  ec_OpenAIAPIKey :: string
  ec_OpenAIModel :: string
  ec_CloudProvider :: string
  ec_CloudTimeoutSeconds :: int

record FileConfig =
  fc_MaxSizeBytes :: int
  fc_DownloadTimeoutSeconds :: int

record ExtractorBridgeConfig =
  bc_Workers :: int
  bc_MaxWorkers :: int
  bc_QueueScaleThreshold :: int

record SchemaConfig =
  sg_MinSamples :: int
  sg_DriftAlertEnabled :: bool

datatype Level = LevelDebug | LevelInfo | LevelWarn | LevelError

text \<open>The records with one field are that field.\<close>

record Config =
  cf_Ingestion :: IngestionConfig
  cf_Orchestrator :: OrchestratorConfig
  cf_Delivery :: DeliveryConfig
  cf_ExtractorBridge :: ExtractorBridgeConfig
  cf_Redis :: RedisConfig
  cf_Scylla :: ScyllaConfig
  cf_PostgresDSN :: string
  cf_MinIO :: MinIOConfig
  cf_Extractor :: ExtractorConfig
  cf_File :: FileConfig
  cf_Schema :: SchemaConfig
  cf_APIPort :: int
  cf_ReplayMaxEvents :: int
  cf_SSEPort :: int
  cf_LogLevel :: Level

section \<open>Reading the environment\<close>

definition envOrDefault :: "(string \<Rightarrow> string) \<Rightarrow> string \<Rightarrow> string \<Rightarrow> string" where
  "envOrDefault env key fallback = (if env key \<noteq> [] then env key else fallback)"

definition envOrDefaultInt :: "(string \<Rightarrow> string) \<Rightarrow> string \<Rightarrow> int \<Rightarrow> int" where
  "envOrDefaultInt env key fallback =
    (let v = env key
     in if v = [] then fallback
        else case parse_int v of None \<Rightarrow> fallback | Some n \<Rightarrow> n)"

definition parseLogLevel :: "string \<Rightarrow> Level" where
  "parseLogLevel s =
    (let l = to_lower s
     in if l = ''debug'' then LevelDebug
        else if l = ''warn'' then LevelWarn
        else if l = ''error'' then LevelError
        else LevelInfo)"

text \<open>The groups of variables, each in the order of the source.\<close>

definition load_ingestion :: "(string \<Rightarrow> string) \<Rightarrow> IngestionConfig" where
  "load_ingestion env =
    \<lparr>ic_Port = envOrDefaultInt env ''INGESTION_PORT'' 8080,
     ic_MaxBodyBytes = envOrDefaultInt env ''INGESTION_MAX_BODY_BYTES'' 10485760,
     ic_RequireSignature = (envOrDefault env ''INGESTION_REQUIRE_SIGNATURE'' ''false'' = ''true''),
     ic_RateLimitPerIP = envOrDefaultInt env ''INGESTION_RATE_LIMIT_PER_IP'' 10,
     ic_RateLimitPerSource = envOrDefaultInt env ''INGESTION_RATE_LIMIT_PER_SOURCE'' 300\<rparr>"

definition load_delivery :: "(string \<Rightarrow> string) \<Rightarrow> DeliveryConfig" where
  "load_delivery env =
    \<lparr>dc_Workers = envOrDefaultInt env ''DELIVERY_WORKERS'' 20,
     dc_MaxWorkers = envOrDefaultInt env ''DELIVERY_MAX_WORKERS'' 100,
     dc_MaxRetries = envOrDefaultInt env ''DELIVERY_MAX_RETRIES'' 4\<rparr>"

definition load_minio :: "(string \<Rightarrow> string) \<Rightarrow> MinIOConfig" where
  "load_minio env =
    \<lparr>mc_Endpoint = envOrDefault env ''MINIO_ENDPOINT'' ''127.0.0.1:9000'',
     mc_AccessKey = envOrDefault env ''MINIO_ACCESS_KEY'' ''webhookmind'',
     mc_SecretKey = envOrDefault env ''MINIO_SECRET_KEY'' ''webhookmind123'',
     mc_Bucket = envOrDefault env ''MINIO_BUCKET'' ''webhookmind-files'',
     mc_UseSSL = (envOrDefault env ''MINIO_USE_SSL'' ''false'' = ''true''),
     mc_InternalEndpoint = envOrDefault env ''MINIO_INTERNAL_ENDPOINT'' ''host.docker.internal:9000''\<rparr>"

definition load_extractor :: "(string \<Rightarrow> string) \<Rightarrow> ExtractorConfig" where
  "load_extractor env =
    \<lparr>ec_Backend = envOrDefault env ''EXTRACTOR_BACKEND'' ''local'',
     ec_Fallback = envOrDefault env ''EXTRACTOR_FALLBACK'' ''none'',
     ec_GRPCAddr = envOrDefault env ''EXTRACTOR_GRPC_ADDR'' ''127.0.0.1:50051'',
     ec_GRPCTimeoutSeconds = envOrDefaultInt env ''EXTRACTOR_GRPC_TIMEOUT_SECONDS'' 120,
     ec_AnthropicAPIKey = env ''ANTHROPIC_API_KEY'',
     ec_AnthropicModel = envOrDefault env ''ANTHROPIC_MODEL'' ''claude-haiku-4-5'',
     ec_OpenAIAPIKey = env ''OPENAI_API_KEY'',
     ec_OpenAIModel = envOrDefault env ''OPENAI_MODEL'' ''gpt-4.1-mini'',
     ec_CloudProvider = envOrDefault env ''CLOUD_PROVIDER'' ''anthropic'',
     ec_CloudTimeoutSeconds = envOrDefaultInt env ''CLOUD_EXTRACTOR_TIMEOUT_SECONDS'' 60\<rparr>"

definition Load :: "(string \<Rightarrow> string) \<Rightarrow> string + Config" where
  "Load env =
    (if env ''POSTGRES_DSN'' = [] then Inl ''POSTGRES_DSN is required''
     else if env ''REDIS_ADDR'' = [] then Inl ''REDIS_ADDR is required''
     else Inr
       \<lparr>cf_Ingestion = load_ingestion env,
        cf_Orchestrator =
          \<lparr>oc_Workers = envOrDefaultInt env ''ORCHESTRATOR_WORKERS'' 10,
           oc_MaxWorkers = envOrDefaultInt env ''ORCHESTRATOR_MAX_WORKERS'' 50,
           oc_QueueScaleThreshold = envOrDefaultInt env ''ORCHESTRATOR_QUEUE_SCALE_THRESHOLD'' 1000\<rparr>,
        cf_Delivery = load_delivery env,
        cf_ExtractorBridge =
          \<lparr>bc_Workers = envOrDefaultInt env ''EXTRACTOR_BRIDGE_WORKERS'' 10,
           bc_MaxWorkers = envOrDefaultInt env ''EXTRACTOR_BRIDGE_MAX_WORKERS'' 50,
           bc_QueueScaleThreshold = envOrDefaultInt env ''EXTRACTOR_BRIDGE_QUEUE_SCALE_THRESHOLD'' 1000\<rparr>,
        cf_Redis =
          \<lparr>rc_Addr = env ''REDIS_ADDR'', rc_Password = env ''REDIS_PASSWORD'', rc_DB = envOrDefaultInt env ''REDIS_DB'' 0\<rparr>,
        cf_Scylla =
          \<lparr>sy_Hosts = split_byte (CHR '','') (envOrDefault env ''SCYLLA_HOSTS'' ''127.0.0.1''),
           sy_Keyspace = envOrDefault env ''SCYLLA_KEYSPACE'' ''webhookmind''\<rparr>,
        cf_PostgresDSN = env ''POSTGRES_DSN'',
        cf_MinIO = load_minio env,
        cf_Extractor = load_extractor env,
        cf_File =
          \<lparr>fc_MaxSizeBytes = envOrDefaultInt env ''FILE_MAX_SIZE_BYTES'' 52428800,
           fc_DownloadTimeoutSeconds = envOrDefaultInt env ''FILE_DOWNLOAD_TIMEOUT_SECONDS'' 30\<rparr>,
        cf_Schema =
          \<lparr>sg_MinSamples = envOrDefaultInt env ''SCHEMA_INFERENCE_MIN_SAMPLES'' 10,
           sg_DriftAlertEnabled = (envOrDefault env ''SCHEMA_DRIFT_ALERT_ENABLED'' ''true'' = ''true'')\<rparr>,
        cf_APIPort = envOrDefaultInt env ''API_PORT'' 8082,
        cf_ReplayMaxEvents = envOrDefaultInt env ''REPLAY_MAX_EVENTS_PER_SESSION'' 100000,
        cf_SSEPort = envOrDefaultInt env ''SSE_PORT'' 8081,
        cf_LogLevel = parseLogLevel (envOrDefault env ''LOG_LEVEL'' ''info'')\<rparr>)"

section \<open>What loads\<close>

text \<open>An integer variable that is not set, or does not parse, gives the default.\<close>

lemma parse_int_empty [simp]: "parse_int [] = None"
  by (simp add: parse_int_def)

lemma envOrDefaultInt_eq: "envOrDefaultInt env key d = (case parse_int (env key) of None \<Rightarrow> d | Some n \<Rightarrow> n)"
  by (auto simp: envOrDefaultInt_def Let_def)

lemma Load_ok:
  "Load env = Inr cfg \<Longrightarrow> env ''POSTGRES_DSN'' \<noteq> [] \<and> env ''REDIS_ADDR'' \<noteq> []
    \<and> cf_Delivery cfg = load_delivery env \<and> cf_Ingestion cfg = load_ingestion env"
  by (auto simp: Load_def split: if_splits)

text \<open>
  What a configuration needs. Loading fails exactly when the address of Postgres or of Redis is not
  set; nothing else in the environment can stop a service: a number that does not parse is silently
  replaced by its default, for instance the number of delivery attempts.
\<close>

theorem Load_fails_iff:
  "((\<exists>err. Load env = Inl err) \<longleftrightarrow> env ''POSTGRES_DSN'' = [] \<or> env ''REDIS_ADDR'' = [])
    \<and> (case Load env of
         Inl _ \<Rightarrow> True
       | Inr cfg \<Rightarrow> dc_MaxRetries (cf_Delivery cfg) =
           (case parse_int (env ''DELIVERY_MAX_RETRIES'') of None \<Rightarrow> 4 | Some n \<Rightarrow> n))"
proof -
  have "dc_MaxRetries (load_delivery env) = (case parse_int (env ''DELIVERY_MAX_RETRIES'') of None \<Rightarrow> 4 | Some n \<Rightarrow> n)"
    by (simp add: load_delivery_def envOrDefaultInt_eq)
  then show ?thesis by (auto simp: Load_def)
qed

end
