(* ===== verification/Orchestrator.thy ===== *)
theory Orchestrator
  imports Queue Config
begin

text \<open>
  \<open>cmd/orchestrator/main.go\<close>: the workers that move events from the incoming queue to extraction or
  delivery, and the scaler that starts more of them. A round of a worker is \<open>forward\<close> of the work queue.
\<close>

section \<open>The worker\<close>

text \<open>The type assertion \<open>payload["file_url"].(string)\<close> holds for strings only.\<close>

definition route_event :: "(bytes \<Rightarrow> json option) \<Rightarrow> WebhookEvent \<Rightarrow> string \<times> WebhookEvent" where
  "route_event parse event =
    (case unmarshal_map parse (ev_RawBody event) of
       None \<Rightarrow> (QueueDelivery, event)
     | Some payload \<Rightarrow>
         (case gm_get (map_entries payload) ''file_url'' of
            Some (JStr fileURL) \<Rightarrow>
              if fileURL \<noteq> [] then (QueueExtraction, event\<lparr>ev_FileURL := fileURL\<rparr>)
              else (QueueDelivery, event)
          | _ \<Rightarrow> (QueueDelivery, event)))"

definition orchestrator_worker :: "(bytes \<Rightarrow> json option) \<Rightarrow> redis \<Rightarrow> redis" where
  "orchestrator_worker parse = forward Enqueue (Dequeue False) QueueIncoming (route_event parse)"

section \<open>The scaler\<close>

text \<open>
  The counts are \<open>int32\<close>. \<open>scale_up\<close> is the number of workers that one tick of the scaler adds; the
  extractor bridge has the same scaler.
\<close>

definition scale_up :: "int \<Rightarrow> int \<Rightarrow> 32 word \<Rightarrow> 32 word \<Rightarrow> 32 word" where
  "scale_up depth threshold current maxWorkers =
    (if depth > threshold \<and> sint current < sint maxWorkers then
       (let toAdd = 10 in
        if sint (current + toAdd) > sint maxWorkers then maxWorkers - current else toAdd)
     else 0)"

text \<open>One tick of the scaler of the orchestrator: the number of workers after it.\<close>

definition orchestrator_scaler :: "OrchestratorConfig \<Rightarrow> 32 word \<Rightarrow> redis \<Rightarrow> 32 word \<times> redis" where
  "orchestrator_scaler cfg current q =
    (case QueueLen QueueIncoming q of
       (None, q1) \<Rightarrow> (current, q1)
     | (Some depth, q1) \<Rightarrow>
         (current + scale_up (int depth) (oc_QueueScaleThreshold cfg) current (word_of_int (oc_MaxWorkers cfg)), q1))"

text \<open>The number of workers after a run of ticks, each with what Redis is at that moment.\<close>

definition scaler_run :: "OrchestratorConfig \<Rightarrow> redis list \<Rightarrow> 32 word \<Rightarrow> 32 word" where
  "scaler_run cfg qs current = fold (\<lambda>q n. fst (orchestrator_scaler cfg n q)) qs current"

section \<open>Properties\<close>

text \<open>
  Which events go to extraction. Exactly those whose body is a JSON object with a non-empty string
  under \<open>file_url\<close>, and they carry that string; everything else goes to delivery as it came. Neither
  path touches the identity, the body or the headers of an event.
\<close>

theorem route_by_file_url:
  assumes "route_event parse event = (target, event')"
  shows "(target = QueueExtraction \<and> ev_FileURL event' \<noteq> []
          \<and> (\<exists>m. parse (ev_RawBody event) = Some (JObj m) \<and> gm_get m ''file_url'' = Some (JStr (ev_FileURL event')))
        \<or> target = QueueDelivery \<and> event' = event
          \<and> \<not> (\<exists>m u. parse (ev_RawBody event) = Some (JObj m) \<and> gm_get m ''file_url'' = Some (JStr u) \<and> u \<noteq> []))
    \<and> event' = event\<lparr>ev_FileURL := ev_FileURL event'\<rparr>"
  using assms
  by (cases event)
     (auto simp: route_event_def unmarshal_map_def map_entries_def split: option.splits json.splits if_splits)

theorem route_by_file_url_witness:
  "fst (route_event (\<lambda>_. Some (JObj [(''file_url'', JStr ''u'')])) (plain ''e'' ''s'' ''x'')) = QueueExtraction"
proof -
  have "\<exists>t e'. route_event (\<lambda>_. Some (JObj [(''file_url'', JStr ''u'')])) (plain ''e'' ''s'' ''x'') = (t, e')"
    by simp
  then obtain t e' where r: "route_event (\<lambda>_. Some (JObj [(''file_url'', JStr ''u'')])) (plain ''e'' ''s'' ''x'') = (t, e')"
    by blast
  from route_by_file_url [OF r] r show ?thesis by auto
qed

lemma route_target: "fst (route_event parse e) \<noteq> QueueIncoming"
  by (auto simp: route_event_def split: option.split json.split)

text \<open>
  The orchestrator neither loses, doubles nor reorders. While Redis answers, \<open>n\<close> rounds of its
  workers take the first \<open>n\<close> entries off the incoming queue, and each of them that decodes stands at
  the end of the queue \<open>route_event\<close> names, in the order of arrival; the other queues are unchanged.
\<close>

theorem incoming_forwarded:
  assumes "queue_up s"
  shows "queue_entries ((orchestrator_worker parse ^^ n) s) =
    (\<lambda>k. if k = QueueIncoming then drop n (queue_entries s QueueIncoming)
         else queue_entries s k @ routed (route_event parse) k (take n (queue_entries s QueueIncoming)))"
proof -
  have "fst (route_event parse e) \<noteq> QueueIncoming" for e by (rule route_target)
  from rq.forward_rounds [OF assms this, of n] show ?thesis by (simp add: orchestrator_worker_def)
qed

theorem incoming_forwarded_witness:
  "queue_entries ((orchestrator_worker (\<lambda>_. None) ^^ 2)
      (redis_of [(QueueIncoming, [EventText (plain ''a'' ''s'' []), OtherText [], EventText (plain ''b'' ''s'' [])])]))
    QueueIncoming = [Some (plain ''b'' ''s'' [])]"
  using incoming_forwarded [OF redis_of_up, where parse = "\<lambda>_. None" and n = 2 and
      ls1 = "[(QueueIncoming, [EventText (plain ''a'' ''s'' []), OtherText [], EventText (plain ''b'' ''s'' [])])]"]
  by (simp add: queue_entries_def redis_of_def)

text \<open>
  An event is in no queue while a worker holds it. When the push fails after the pop (at shutdown
  the context is already cancelled), the event is gone: it left the incoming queue and entered no other.
\<close>

theorem failed_push_loses_event:
  assumes "rd_lists s QueueIncoming = EventText e # rest" "rd_fates s = [Answered, Refused]"
  shows "rd_lists (orchestrator_worker parse s) = (rd_lists s)(QueueIncoming := rest)"
proof -
  obtain t e' where r: "route_event parse e = (t, e')" by fastforce
  show ?thesis
    using assms
    by (simp add: orchestrator_worker_def forward_def Dequeue_def Enqueue_def rd_command_def rd_fate_def
        rd_tick_def blpop_def r)
qed

theorem failed_push_loses_event_witness:
  "rd_lists (orchestrator_worker (\<lambda>_. None)
      ((redis_of [(QueueIncoming, [EventText (plain ''a'' ''s'' [])])])\<lparr>rd_fates := [Answered, Refused]\<rparr>))
    = (\<lambda>k. [])"
proof -
  let ?s = "(redis_of [(QueueIncoming, [EventText (plain ''a'' ''s'' [])])])\<lparr>rd_fates := [Answered, Refused]\<rparr>"
  have "rd_lists ?s QueueIncoming = EventText (plain ''a'' ''s'' []) # []" by (simp add: redis_of_def)
  from failed_push_loses_event [OF this] show ?thesis by (auto simp: redis_of_def fun_eq_iff)
qed

lemma sint_range32: "- (2 ^ 31) \<le> sint (w :: 32 word)" "sint (w :: 32 word) < 2 ^ 31"
  using sint_ge [of w] sint_lt [of w] by simp_all

lemma sint_plus32:
  assumes "- (2 ^ 31) \<le> sint (a :: 32 word) + sint b" "sint a + sint b < 2 ^ 31"
  shows "sint (a + b) = sint a + sint b"
  using assms by (simp add: sint_word_ariths signed_take_bit_int_eq_self)

lemma sint_minus32:
  assumes "- (2 ^ 31) \<le> sint (a :: 32 word) - sint b" "sint a - sint b < 2 ^ 31"
  shows "sint (a - b) = sint a - sint b"
  using assms by (simp add: sint_word_ariths signed_take_bit_int_eq_self)

lemma scale_up_bound:
  assumes "0 \<le> sint n" "sint m < 2 ^ 31 - 10"
  shows "sint n \<le> sint (n + scale_up depth threshold n m)
    \<and> sint (n + scale_up depth threshold n m) \<le> max (sint n) (sint m)"
proof (cases "depth > threshold \<and> sint n < sint m")
  case True
  have ten: "sint (10 :: 32 word) = 10" by simp
  have p: "sint (n + 10) = sint n + 10"
    using sint_plus32 [of n 10] assms True unfolding ten by simp
  have d: "sint (m - n) = sint m - sint n"
    using sint_minus32 [of m n] assms True sint_range32 [of n] by simp
  have "n + (m - n) = m" by simp
  with True p show ?thesis by (auto simp: scale_up_def Let_def)
next
  case False
  then show ?thesis by (auto simp: scale_up_def)
qed

text \<open>
  The scaler keeps its bound. Whatever the lengths of the queue that it sees, and whichever queries
  fail, the number of workers never falls and never exceeds the larger of the configured maximum and the
  number started, for maxima below \<open>2 ^ 31 - 10\<close> (beyond that the addition overflows).
\<close>

theorem workers_bounded:
  assumes "0 \<le> sint start" "0 \<le> oc_MaxWorkers cfg" "oc_MaxWorkers cfg < 2 ^ 31 - 10"
  shows "sint start \<le> sint (scaler_run cfg qs start)
    \<and> sint (scaler_run cfg qs start) \<le> max (sint start) (oc_MaxWorkers cfg)"
  using assms(1)
proof (induction qs arbitrary: start)
  case (Cons q qs)
  let ?n = "fst (orchestrator_scaler cfg start q)" and ?m = "word_of_int (oc_MaxWorkers cfg) :: 32 word"
  have m: "sint ?m = oc_MaxWorkers cfg"
    using assms(2,3) by (simp add: sint_sbintrunc' signed_take_bit_int_eq_self)
  have n: "sint start \<le> sint ?n \<and> sint ?n \<le> max (sint start) (oc_MaxWorkers cfg)"
    using scale_up_bound [of start ?m] Cons.prems m assms(3)
    by (auto simp: orchestrator_scaler_def split: option.splits prod.splits)
  have "scaler_run cfg (q # qs) start = scaler_run cfg qs ?n" by (simp add: scaler_run_def)
  moreover have "0 \<le> sint ?n" using n Cons.prems by simp
  note Cons.IH [OF this]
  ultimately show ?case using n by (auto simp: le_max_iff_disj)
qed (simp add: scaler_run_def)

theorem workers_bounded_witness:
  "sint (scaler_run \<lparr>oc_Workers = 2, oc_MaxWorkers = 5, oc_QueueScaleThreshold = 0\<rparr>
    [redis_of [(QueueIncoming, [OtherText []])]] 2) \<le> 5"
  using workers_bounded [of 2 "\<lparr>oc_Workers = 2, oc_MaxWorkers = 5, oc_QueueScaleThreshold = 0\<rparr>"] by simp

end
