(* ===== verification/Extract.thy ===== *)
theory Extract
  imports Json
begin

text \<open>
  \<open>internal/extraction\<close> without the cloud backend: requests and responses, the interface \<open>Extractor\<close>
  (locale \<open>extractor\<close>), detection of file types, clean-up of model output, the text of a DOCX file, the
  local backend and the fallback. An extractor is a function with a state; it returns a response or
  none (\<open>nil\<close>) and an error or none.
\<close>

section \<open>Requests and responses\<close>

record ExtractRequest =
  xr_EventID :: string
  xr_SourceID :: string
  xr_FilePath :: string
  xr_FileType :: string
  xr_PresignedURL :: string
  xr_FileBytes :: bytes
  xr_APIKey :: string
  xr_Provider :: string
  xr_Model :: string

record TranscriptionSegment =
  ts_StartMs :: int
  ts_EndMs :: int
  ts_Text :: string

record ExtractResponse =
  xp_Success :: bool
  xp_ErrorMessage :: string
  xp_ExtractedJSON :: string
  xp_TemplateID :: string
  xp_CacheHit :: bool
  xp_DurationMs :: int
  xp_Segments :: "TranscriptionSegment list"
  xp_DetectedLanguage :: string

type_synonym extract_result = "ExtractResponse option \<times> string option"
type_synonym 's backend = "ExtractRequest \<Rightarrow> 's \<Rightarrow> extract_result \<times> 's"

section \<open>Clean-up of model output\<close>

definition fence :: string where
  "fence = [CHR 0x60, CHR 0x60, CHR 0x60]"

definition StripCodeFences :: "string \<Rightarrow> string" where
  "StripCodeFences input =
    (let s = trim_space input in
     if s = [] then s
     else if hd s = CHR ''{'' \<or> hd s = CHR ''['' then
       (case index_of s fence of Some idx \<Rightarrow> trim_space (take idx s) | None \<Rightarrow> s)
     else case index_of s fence of
            None \<Rightarrow> s
          | Some start \<Rightarrow>
              let rest = drop (start + 3) s;
                  rest1 = (case index_byte rest (CHR 0x0A) of Some nl \<Rightarrow> drop (nl + 1) rest | None \<Rightarrow> rest);
                  rest2 = (case index_of rest1 fence of Some end' \<Rightarrow> take end' rest1 | None \<Rightarrow> rest1)
              in trim_space rest2)"

section \<open>File types\<close>

definition byte_at :: "bytes \<Rightarrow> nat \<Rightarrow> nat" where
  "byte_at b i = (if i < length b then of_char (b ! i) else 256)"

definition isPrintableASCII :: "bytes \<Rightarrow> bool" where
  "isPrintableASCII data =
    list_all (\<lambda>b. \<not> ((of_char b :: nat) < 0x20 \<and> b \<noteq> CHR 0x0A \<and> b \<noteq> CHR 0x0D \<and> b \<noteq> CHR 0x09)) data"

definition blank :: "char \<Rightarrow> bool" where
  "blank c \<longleftrightarrow> c \<in> {CHR '' '', CHR 0x09, CHR 0x0A, CHR 0x0D}"

definition DetectFileType :: "bytes \<Rightarrow> string" where
  "DetectFileType header =
    (if length header < 4 then ''unknown''
     else if has_prefix header [CHR 0x50, CHR 0x4B, CHR 0x03, CHR 0x04] then ''zip''
     else if has_prefix header ''%PDF'' then ''pdf''
     else if byte_at header 0 = 0xFF \<and> byte_at header 1 = 0xD8 \<and> byte_at header 2 = 0xFF then ''image''
     else if has_prefix header [CHR 0x89, CHR 0x50, CHR 0x4E, CHR 0x47] then ''image''
     else if has_prefix header [CHR 0x49, CHR 0x49, CHR 0x2A, CHR 0x00] then ''image''
     else if has_prefix header [CHR 0x4D, CHR 0x4D, CHR 0x00, CHR 0x2A] then ''image''
     else if has_prefix header ''ID3'' then ''audio''
     else if byte_at header 0 = 0xFF \<and> byte_at header 1 \<ge> 0xE0 then ''audio''
     else if length header \<ge> 12 \<and> has_prefix header ''RIFF'' \<and> take 4 (drop 8 header) = ''WAVE'' then ''audio''
     else if length header \<ge> 8 \<and> take 4 (drop 4 header) = ''ftyp'' then ''audio''
     else
       let text0 = (if has_prefix header [CHR 0xEF, CHR 0xBB, CHR 0xBF] then drop 3 header else header);
           text = dropWhile blank text0
       in if text \<noteq> [] \<and> hd text = CHR ''<'' then ''xml''
          else if isPrintableASCII header \<and> contains header '','' then ''csv''
          else ''unknown'')"

section \<open>DOCX\<close>

text \<open>
  \<open>archive/zip\<close> and \<open>encoding/xml\<close> are arguments: \<open>zip\<close> lists the files of an archive (\<open>None\<close> for bytes
  that are none), each with its XML tokens or \<open>None\<close> when it cannot be opened. A token carries the local
  name of its element.
\<close>

datatype xml_token = StartElement string | EndElement string | CharData bytes | OtherToken | BadToken

type_synonym unzip = "bytes \<Rightarrow> (string \<times> xml_token list option) list option"

definition document_name :: string where
  "document_name = ''word/document.xml''"

definition IsDocxZip :: "unzip \<Rightarrow> bytes \<Rightarrow> bool" where
  "IsDocxZip zip' data =
    (case zip' data of None \<Rightarrow> False | Some files \<Rightarrow> find (\<lambda>f. fst f = document_name) files \<noteq> None)"

definition ClassifyZip :: "unzip \<Rightarrow> bytes \<Rightarrow> string" where
  "ClassifyZip zip' data = (if IsDocxZip zip' data then ''docx'' else ''unknown'')"

definition flushParagraph :: "string \<Rightarrow> string \<Rightarrow> string" where
  "flushParagraph out paragraph =
    (let text = trim_right_set {CHR '' '', CHR 0x09} paragraph in
     if text \<noteq> [] then (if out \<noteq> [] then out @ [CHR 0x0A] else out) @ text else out)"

text \<open>The loop over the tokens, with the output, the paragraph and the flag \<open>inText\<close>.\<close>

fun document_loop :: "string \<Rightarrow> string \<Rightarrow> bool \<Rightarrow> xml_token list \<Rightarrow> string option" where
  "document_loop out paragraph inText [] = Some (flushParagraph out paragraph)"
| "document_loop out paragraph inText (tok # toks) =
     (case tok of
        BadToken \<Rightarrow> None
      | StartElement n \<Rightarrow>
          if n = ''t'' then document_loop out paragraph True toks
          else if n = ''tab'' then document_loop out (paragraph @ [CHR 0x09]) inText toks
          else if n = ''br'' then document_loop out (paragraph @ [CHR 0x0A]) inText toks
          else document_loop out paragraph inText toks
      | EndElement n \<Rightarrow>
          if n = ''t'' then document_loop out paragraph False toks
          else if n = ''p'' then document_loop (flushParagraph out paragraph) [] inText toks
          else document_loop out paragraph inText toks
      | CharData t \<Rightarrow>
          if inText then document_loop out (paragraph @ t) inText toks
          else document_loop out paragraph inText toks
      | OtherToken \<Rightarrow> document_loop out paragraph inText toks)"

definition parseDocumentXML :: "xml_token list \<Rightarrow> string option" where
  "parseDocumentXML toks = document_loop [] [] False toks"

definition ExtractDocxText :: "unzip \<Rightarrow> bytes \<Rightarrow> string + string" where
  "ExtractDocxText zip' data =
    (case zip' data of
       None \<Rightarrow> Inl ''open docx''
     | Some files \<Rightarrow>
         (case find (\<lambda>f. fst f = document_name) files of
            None \<Rightarrow> Inl ''not a valid docx: word/document.xml not found''
          | Some f \<Rightarrow>
              (case snd f of
                 None \<Rightarrow> Inl ''open document.xml''
               | Some toks \<Rightarrow>
                   (case parseDocumentXML toks of None \<Rightarrow> Inl ''parse document.xml'' | Some t \<Rightarrow> Inr t))))"

section \<open>Backends\<close>

text \<open>
  The local backend: \<open>grpc\<close> is the call of the generated client, an error or the response message. The
  message has the fields of \<open>ExtractResponse\<close>.
\<close>

record pb_request =
  pb_EventId :: string
  pb_FilePath :: string
  pb_FileType :: string
  pb_SourceId :: string
  pb_PresignedUrl :: string

text \<open>\<open>ExtractionClient.Extract\<close>; that the call ends at the deadline of the client is up to \<open>grpc\<close>.\<close>

definition ClientExtract ::
    "(pb_request \<Rightarrow> 's \<Rightarrow> (string + ExtractResponse) \<times> 's) \<Rightarrow> pb_request \<Rightarrow> 's \<Rightarrow> (string + ExtractResponse) \<times> 's" where
  "ClientExtract grpc req s =
    (case grpc req s of
       (Inl err, s1) \<Rightarrow> (Inl (''grpc extract: '' @ err), s1)
     | (Inr resp, s1) \<Rightarrow> (Inr resp, s1))"

definition LocalExtract :: "(pb_request \<Rightarrow> 's \<Rightarrow> (string + ExtractResponse) \<times> 's) \<Rightarrow> 's backend" where
  "LocalExtract grpc req s =
    (case ClientExtract grpc \<lparr>pb_EventId = xr_EventID req, pb_FilePath = xr_FilePath req, pb_FileType = xr_FileType req,
                pb_SourceId = xr_SourceID req, pb_PresignedUrl = xr_PresignedURL req\<rparr> s of
       (Inl err, s1) \<Rightarrow> ((None, Some err), s1)
     | (Inr resp, s1) \<Rightarrow> ((Some resp, None), s1))"

definition succeeded :: "extract_result \<Rightarrow> bool" where
  "succeeded r = (snd r = None \<and> (case fst r of None \<Rightarrow> False | Some resp \<Rightarrow> xp_Success resp))"

definition FallbackExtract :: "'s backend \<Rightarrow> 's backend \<Rightarrow> 's backend" where
  "FallbackExtract primary fallback req s =
    (let (r, s1) = primary req s in
     if succeeded r then ((fst r, None), s1)
     else
       let (f, s2) = fallback req s1 in
       if succeeded f then ((fst f, None), s2)
       else if snd f \<noteq> None then ((None, snd f), s2)
       else ((fst f, None), s2))"

text \<open>Closing both, keeping the first error.\<close>

definition FallbackClose :: "string option \<Rightarrow> string option \<Rightarrow> string option" where
  "FallbackClose primaryErr fallbackErr = (if primaryErr \<noteq> None then primaryErr else fallbackErr)"

section \<open>Fences\<close>

lemma not_contains_part: "\<not> contains s p \<Longrightarrow> s = u @ t @ v \<Longrightarrow> \<not> contains t p"
  unfolding contains_iff by (metis append.assoc)

lemma not_contains_trim: "\<not> contains s p \<Longrightarrow> \<not> contains (trim_space s) p"
  using trim_space_sublist [of s] not_contains_part by blast

lemma before_first:
  assumes "index_of s p = Some i" "p \<noteq> []"
  shows "\<not> contains (take i s) p"
proof
  assume "contains (take i s) p"
  then obtain u v where e: "take i s = u @ p @ v" unfolding contains_iff by blast
  have i: "i \<le> length s" using index_of_Some [OF assms(1)] by simp
  have "length u < i" using arg_cong [OF e, of length] assms(2) i by simp
  moreover have "has_prefix (drop (length u) s) p"
  proof -
    have "s = u @ p @ v @ drop i s" using e by (metis append.assoc append_take_drop_id)
    then have "drop (length u) s = p @ v @ drop i s" by (metis append_eq_conv_conj)
    then show ?thesis by (auto simp: has_prefix_iff)
  qed
  ultimately show False using index_of_first [OF assms(1)] by blast
qed

lemma index_of_None: "index_of s p = None \<longleftrightarrow> \<not> contains s p"
  by (simp add: contains_def)

lemma StripCodeFences_forms:
  fixes s :: string
  defines "t \<equiv> trim_space s"
  shows "StripCodeFences s = t \<and> \<not> contains t fence
    \<or> (\<exists>i. StripCodeFences s = trim_space (take i t) \<and> index_of t fence = Some i)
    \<or> (\<exists>m. StripCodeFences s = trim_space (drop m t) \<and> \<not> contains (drop m t) fence)
    \<or> (\<exists>m i. StripCodeFences s = trim_space (take i (drop m t)) \<and> index_of (drop m t) fence = Some i)"
proof (cases "t = [] \<or> index_of t fence = None")
  case True
  then have "index_of t fence = None" by (auto simp: fence_def)
  then have "StripCodeFences s = t" by (simp add: StripCodeFences_def t_def [symmetric] Let_def)
  with \<open>index_of t fence = None\<close> show ?thesis by (simp add: index_of_None)
next
  case False
  then obtain start where i: "index_of t fence = Some start" and ne: "t \<noteq> []" by auto
  show ?thesis
  proof (cases "hd t = CHR ''{'' \<or> hd t = CHR ''[''")
    case True
    with i ne show ?thesis by (auto simp: StripCodeFences_def t_def [symmetric] Let_def)
  next
    case False
    obtain m where r: "StripCodeFences s = trim_space (case index_of (drop m t) fence of
        Some e \<Rightarrow> take e (drop m t) | None \<Rightarrow> drop m t)"
    proof (cases "index_byte (drop (start + 3) t) (CHR 0x0A)")
      case None
      with False i ne show thesis
        by (intro that [of "start + 3"]) (auto simp: StripCodeFences_def t_def [symmetric] Let_def split: option.split)
    next
      case (Some nl)
      have d: "drop (nl + 1) (drop (start + 3) t) = drop (start + 3 + nl + 1) t"
        by (simp add: add.commute add.left_commute)
      from Some False i ne show thesis
        by (intro that [of "start + 3 + nl + 1"])
          (auto simp: StripCodeFences_def t_def [symmetric] Let_def d [simplified] split: option.split)
    qed
    then show ?thesis by (cases "index_of (drop m t) fence") (auto simp: index_of_None)
  qed
qed

text \<open>
  Whatever the model wrote, the cleaned text has no fence left in it and is a piece of what was
  written, up to white space at its ends.
\<close>

theorem StripCodeFences_clean:
  "\<not> contains (StripCodeFences s) fence \<and> (\<exists>u v. s = u @ StripCodeFences s @ v)"
proof -
  let ?s = "trim_space s"
  have f: "fence \<noteq> []" by (simp add: fence_def)
  obtain u v where s: "s = u @ ?s @ v" using trim_space_sublist by blast
  have part: "\<exists>u v. s = u @ trim_space t @ v" if "\<exists>a b. ?s = a @ t @ b" for t
    using that trim_space_sublist [of t] s by (metis append.assoc)
  have cut: "\<exists>a b. ?s = a @ take n (drop m ?s) @ b" for n m
    by (metis append_take_drop_id)
  have forms: "StripCodeFences s = ?s \<and> \<not> contains ?s fence
    \<or> (\<exists>i. StripCodeFences s = trim_space (take i ?s) \<and> index_of ?s fence = Some i)
    \<or> (\<exists>m. StripCodeFences s = trim_space (drop m ?s) \<and> \<not> contains (drop m ?s) fence)
    \<or> (\<exists>m i. StripCodeFences s = trim_space (take i (drop m ?s)) \<and> index_of (drop m ?s) fence = Some i)"
    by (rule StripCodeFences_forms)
  then consider "StripCodeFences s = ?s" "\<not> contains ?s fence"
    | i where "StripCodeFences s = trim_space (take i ?s)" "index_of ?s fence = Some i"
    | m where "StripCodeFences s = trim_space (drop m ?s)" "\<not> contains (drop m ?s) fence"
    | m i where "StripCodeFences s = trim_space (take i (drop m ?s))" "index_of (drop m ?s) fence = Some i"
    by blast
  then show ?thesis
  proof cases
    case 1
    with s show ?thesis by auto
  next
    case 2
    with before_first [OF 2(2) f] not_contains_trim part [of "take i ?s"] cut [of i 0] show ?thesis by auto
  next
    case 3
    have "\<exists>a b. ?s = a @ drop m ?s @ b" using cut [of "length ?s" m] by (simp add: take_all)
    with 3 not_contains_trim part [of "drop m ?s"] show ?thesis by auto
  next
    case 4
    with before_first [OF 4(2) f] not_contains_trim part [of "take i (drop m ?s)"] cut [of i m] show ?thesis by auto
  qed
qed

definition fenced :: "string \<Rightarrow> string \<Rightarrow> string" where
  "fenced tag body = fence @ tag @ [CHR 0x0A] @ body @ fence"

text \<open>No fence begins inside \<open>s\<close>, not even one that ends in a fence put behind it.\<close>

definition unfenced :: "string \<Rightarrow> bool" where
  "unfenced s \<longleftrightarrow> \<not> contains (s @ [CHR 0x60, CHR 0x60]) fence"

lemma index_of_append: "unfenced s \<Longrightarrow> index_of (s @ fence @ rest) fence = Some (length s)"
proof (induction s)
  case Nil
  then show ?case by (simp add: fence_def has_prefix_def)
next
  case (Cons c s)
  have "unfenced s" using Cons.prems by (auto simp: unfenced_def contains_iff) (metis append_Cons)
  with Cons.IH have ih: "index_of (s @ fence @ rest) fence = Some (length s)" by simp
  have "take 3 (c # s @ [CHR 0x60, CHR 0x60]) \<noteq> fence"
    using Cons.prems unfolding unfenced_def contains_iff by (metis append_Cons append_Nil append_take_drop_id)
  moreover have "take 3 (c # s @ [CHR 0x60, CHR 0x60]) = take 3 (c # s @ fence @ rest)"
    by (cases s; cases "tl s") (simp_all add: fence_def numeral_3_eq_3)
  ultimately have "\<not> has_prefix (c # s @ fence @ rest) fence"
    by (simp add: has_prefix_def fence_def numeral_2_eq_2 numeral_3_eq_3)
  with ih show ?case by simp
qed

lemma unfenced_whole: "unfenced s \<Longrightarrow> index_of s fence = None"
  unfolding unfenced_def index_of_None contains_iff by (metis append_assoc)

text \<open>
  C36: JSON written the way models write it is recovered. An answer that is a fenced block, with any
  language tag and with prose before and after it, gives the content of the block; an answer that starts
  as JSON gives its text up to the first fence, or all of it; all without the white space at the ends.
  The conditions are that the JSON contains no fence itself and that the prose before the block neither
  starts with a brace or bracket nor contains a fence.
\<close>

theorem StripCodeFences_recovers:
  assumes "unfenced body"
  shows "(unfenced before \<and> CHR 0x0A \<notin> set tag \<and> hd (before @ fence) \<notin> {CHR ''{'', CHR ''[''}
        \<and> trim_space answer = before @ fenced tag body @ after
        \<longrightarrow> StripCodeFences answer = trim_space body)
    \<and> (body \<noteq> [] \<and> hd body \<in> {CHR ''{'', CHR ''[''} \<and> trim_space answer = body @ fence @ after
        \<longrightarrow> StripCodeFences answer = trim_space body)
    \<and> (trim_space answer = body \<and> body \<noteq> [] \<and> hd body \<in> {CHR ''{'', CHR ''[''}
        \<longrightarrow> StripCodeFences answer = body)"
proof (intro conjI)
  show "unfenced before \<and> CHR 0x0A \<notin> set tag \<and> hd (before @ fence) \<notin> {CHR ''{'', CHR ''[''}
      \<and> trim_space answer = before @ fenced tag body @ after
      \<longrightarrow> StripCodeFences answer = trim_space body"
  proof (intro impI, elim conjE)
    assume u: "unfenced before" and nl: "CHR 0x0A \<notin> set tag" and h: "hd (before @ fence) \<notin> {CHR ''{'', CHR ''[''}"
      and t: "trim_space answer = before @ fenced tag body @ after"
    let ?s = "before @ fenced tag body @ after"
    have s: "?s = before @ fence @ (tag @ CHR 0x0A # (body @ fence @ after))" by (simp add: fenced_def)
    have start: "index_of ?s fence = Some (length before)" unfolding s by (rule index_of_append [OF u])
    have rest: "drop (length before + 3) ?s = tag @ CHR 0x0A # (body @ fence @ after)"
      unfolding s by (simp add: fence_def)
    have line: "index_byte (tag @ CHR 0x0A # (body @ fence @ after)) (CHR 0x0A) = Some (length tag)"
      by (rule index_byte_append [OF nl])
    have rest1: "drop (length tag + 1) (tag @ CHR 0x0A # (body @ fence @ after)) = body @ fence @ after" by simp
    have e: "index_of (body @ fence @ after) fence = Some (length body)" by (rule index_of_append [OF assms])
    have "?s \<noteq> []" "hd ?s \<notin> {CHR ''{'', CHR ''[''}"
      using h by (auto simp: fenced_def fence_def hd_append split: if_splits)
    then have "StripCodeFences answer = trim_space (take (length body) (body @ fence @ after))"
      unfolding StripCodeFences_def Let_def t start option.case rest line rest1 e by (simp only: if_False simp_thms insert_iff empty_iff)
    then show "StripCodeFences answer = trim_space body" by simp
  qed
  show "body \<noteq> [] \<and> hd body \<in> {CHR ''{'', CHR ''[''} \<and> trim_space answer = body @ fence @ after
      \<longrightarrow> StripCodeFences answer = trim_space body"
    using index_of_append [OF assms, of after] by (auto simp: StripCodeFences_def Let_def)
  show "trim_space answer = body \<and> body \<noteq> [] \<and> hd body \<in> {CHR ''{'', CHR ''[''}
      \<longrightarrow> StripCodeFences answer = body"
    using unfenced_whole [OF assms] by (auto simp: StripCodeFences_def Let_def)
qed

text \<open>An answer with prose, a fenced block and more prose.\<close>

theorem StripCodeFences_recovers_witness:
  "StripCodeFences (''Here: '' @ fenced ''json'' ''{}'' @ ''!'') = ''{}'' \<and> StripCodeFences (''{}'' @ fence @ ''x'') = ''{}''"
proof -
  have u: "unfenced ''{}''" "unfenced ''Here: ''" by code_simp+
  have t: "trim_space ''{}'' = ''{}''" by (rule trim_space_graphic) (simp_all add: graphic_def)
  have a: "trim_space (''Here: '' @ fenced ''json'' ''{}'' @ ''!'') = ''Here: '' @ fenced ''json'' ''{}'' @ ''!''"
    by (rule trim_space_graphic) (simp_all add: graphic_def fenced_def fence_def)
  have b: "trim_space (''{}'' @ fence @ ''x'') = ''{}'' @ fence @ ''x''"
    by (rule trim_space_graphic) (simp_all add: graphic_def fence_def)
  show ?thesis
    using StripCodeFences_recovers [OF u(1), of "''Here: ''" "''json''" _ "''!''"] u a
      StripCodeFences_recovers [OF u(1), of _ _ _ "''x''"] b t by simp
qed

text \<open>
  A fence inside a JSON string is taken for the end of the JSON: the answer \<open>{"a":"```"}\<close> is cut
  after the opening quote, and what is left is no JSON.
\<close>

theorem StripCodeFences_cuts_strings:
  "StripCodeFences (''{\"a\":\"'' @ fence @ ''\"}'') = ''{\"a\":\"''"
  by code_simp

section \<open>Detected types\<close>

text \<open>
  The detector answers one of its seven names. A header shorter than four bytes is unknown; the
  signature of a ZIP archive is always answered \<open>zip\<close>, never a refined type; and no other header is.
\<close>

theorem DetectFileType_range:
  "DetectFileType h \<in> {''pdf'', ''image'', ''audio'', ''csv'', ''xml'', ''zip'', ''unknown''}
   \<and> (length h < 4 \<longrightarrow> DetectFileType h = ''unknown'')
   \<and> (DetectFileType h = ''zip'' \<longleftrightarrow> has_prefix h [CHR 0x50, CHR 0x4B, CHR 0x03, CHR 0x04])"
proof -
  have "has_prefix h [CHR 0x50, CHR 0x4B, CHR 0x03, CHR 0x04] \<Longrightarrow> 4 \<le> length h"
    by (auto simp: has_prefix_iff)
  then have zip: "DetectFileType h = ''zip'' \<longleftrightarrow> has_prefix h [CHR 0x50, CHR 0x4B, CHR 0x03, CHR 0x04]"
  proof (cases "has_prefix h [CHR 0x50, CHR 0x4B, CHR 0x03, CHR 0x04]")
    case True
    with \<open>has_prefix h [CHR 0x50, CHR 0x4B, CHR 0x03, CHR 0x04] \<Longrightarrow> 4 \<le> length h\<close>
    have "\<not> length h < 4" by simp
    with True show ?thesis unfolding DetectFileType_def by simp
  next
    case False
    then show ?thesis unfolding DetectFileType_def Let_def by simp
  qed
  have "DetectFileType h \<in> {''pdf'', ''image'', ''audio'', ''csv'', ''xml'', ''zip'', ''unknown''}"
    unfolding DetectFileType_def Let_def by simp
  moreover have "length h < 4 \<longrightarrow> DetectFileType h = ''unknown''"
    unfolding DetectFileType_def by simp
  ultimately show ?thesis using zip by blast
qed

theorem DetectFileType_range_witness: "DetectFileType ''PK'' = ''unknown''"
  using DetectFileType_range [of "''PK''"] by simp

text \<open>
  The byte order mark of UTF-16 is taken for the sync word of an MP3 file: every UTF-16 text in
  little-endian order is reported as audio.
\<close>

theorem DetectFileType_utf16_is_audio:
  assumes "2 \<le> length t"
  shows "DetectFileType (CHR 0xFF # CHR 0xFE # t) = ''audio''"
  using assms by (simp add: DetectFileType_def has_prefix_def byte_at_def)

theorem DetectFileType_utf16_is_audio_witness:
  "DetectFileType (CHR 0xFF # CHR 0xFE # ''a'' @ [CHR 0x00]) = ''audio''"
  using DetectFileType_utf16_is_audio [of "''a'' @ [CHR 0x00]"] by simp

section \<open>The text of a document\<close>

text \<open>The paragraphs among the tokens: each \<open>p\<close> ends one; text inside \<open>t\<close>, tabs and breaks fill it.\<close>

fun paragraphs_from :: "string \<Rightarrow> bool \<Rightarrow> xml_token list \<Rightarrow> string list" where
  "paragraphs_from par inText [] = [par]"
| "paragraphs_from par inText (tok # toks) =
     (case tok of
        StartElement n \<Rightarrow>
          paragraphs_from (par @ (if n = ''tab'' then [CHR 0x09] else if n = ''br'' then [CHR 0x0A] else []))
            (n = ''t'' \<or> inText) toks
      | EndElement n \<Rightarrow>
          (if n = ''p'' then par # paragraphs_from [] inText toks else paragraphs_from par (n \<noteq> ''t'' \<and> inText) toks)
      | CharData t \<Rightarrow> paragraphs_from (if inText then par @ t else par) inText toks
      | _ \<Rightarrow> paragraphs_from par inText toks)"

definition trim_end :: "string \<Rightarrow> string" where
  "trim_end = trim_right_set {CHR '' '', CHR 0x09}"

definition document_text :: "xml_token list \<Rightarrow> string" where
  "document_text toks =
    join_with [CHR 0x0A] (filter (\<lambda>p. p \<noteq> []) (map trim_end (paragraphs_from [] False toks)))"

lemma join_with_snoc:
  "join_with sep (xs @ [x]) = (if xs = [] then x else join_with sep xs @ sep @ x)"
proof (induction sep xs rule: join_with.induct)
  case (3 sep s s' ss)
  then show ?case by simp
qed simp_all

lemma join_with_Nil_iff: "\<forall>x \<in> set xs. x \<noteq> [] \<Longrightarrow> join_with sep xs = [] \<longleftrightarrow> xs = []"
  by (induction sep xs rule: join_with.induct) auto

lemma flush_join:
  assumes "\<forall>x \<in> set xs. x \<noteq> []"
  shows "flushParagraph (join_with [CHR 0x0A] xs) p
    = join_with [CHR 0x0A] (xs @ filter (\<lambda>p. p \<noteq> []) [trim_end p])"
  using join_with_Nil_iff [OF assms, of "[CHR 0x0A]"]
  by (auto simp: flushParagraph_def trim_end_def Let_def join_with_snoc)

lemma document_loop_spec:
  "\<forall>x \<in> set xs. x \<noteq> [] \<Longrightarrow> document_loop (join_with [CHR 0x0A] xs) par it toks =
    (if BadToken \<in> set toks then None
     else Some (join_with [CHR 0x0A] (xs @ filter (\<lambda>p. p \<noteq> []) (map trim_end (paragraphs_from par it toks)))))"
proof (induction toks arbitrary: xs par it)
  case Nil
  then show ?case by (simp add: flush_join)
next
  case (Cons tok toks)
  show ?case
  proof (cases tok)
    case (EndElement n)
    have "document_loop (flushParagraph (join_with [CHR 0x0A] xs) par) [] it toks =
      (if BadToken \<in> set toks then None
       else Some (join_with [CHR 0x0A] ((xs @ filter (\<lambda>p. p \<noteq> []) [trim_end par])
         @ filter (\<lambda>p. p \<noteq> []) (map trim_end (paragraphs_from [] it toks)))))"
      unfolding flush_join [OF Cons.prems] by (rule Cons.IH) (use Cons.prems in auto)
    then show ?thesis using EndElement Cons by auto
  qed (use Cons in auto)
qed

text \<open>
  A document as the tree that WordprocessingML describes: runs of text, tabs and breaks, paragraphs, and
  all other elements (body, runs, tables, rows, cells, properties) by name, with the white space and the
  comments between them.
\<close>

datatype docx =
    RunText "bytes list"
  | TabMark
  | LineBreak
  | Paragraph "docx list"
  | OtherElement string "docx list"
  | White bytes
  | Remark

fun docx_tokens :: "docx \<Rightarrow> xml_token list" where
  "docx_tokens (RunText ts) = StartElement ''t'' # map CharData ts @ [EndElement ''t'']"
| "docx_tokens TabMark = [StartElement ''tab'', EndElement ''tab'']"
| "docx_tokens LineBreak = [StartElement ''br'', EndElement ''br'']"
| "docx_tokens (Paragraph xs) = StartElement ''p'' # concat (map docx_tokens xs) @ [EndElement ''p'']"
| "docx_tokens (OtherElement n xs) = StartElement n # concat (map docx_tokens xs) @ [EndElement n]"
| "docx_tokens (White b) = [CharData b]"
| "docx_tokens Remark = [OtherToken]"

definition other_name :: "string \<Rightarrow> bool" where
  "other_name n \<longleftrightarrow> n \<notin> {''t'', ''tab'', ''br'', ''p''}"

text \<open>What may stand in a paragraph (no further paragraph) and outside of paragraphs (no text).\<close>

fun inline_node :: "docx \<Rightarrow> bool" where
  "inline_node (Paragraph xs) = False"
| "inline_node (OtherElement n xs) = (other_name n \<and> list_all inline_node xs)"
| "inline_node _ = True"

fun block_node :: "docx \<Rightarrow> bool" where
  "block_node (Paragraph xs) = list_all inline_node xs"
| "block_node (OtherElement n xs) = (other_name n \<and> list_all block_node xs)"
| "block_node (White b) = True"
| "block_node Remark = True"
| "block_node _ = False"

text \<open>The text in a paragraph, and the texts of the paragraphs of a document in their order.\<close>

fun inline_text :: "docx \<Rightarrow> string" where
  "inline_text (RunText ts) = concat ts"
| "inline_text TabMark = [CHR 0x09]"
| "inline_text LineBreak = [CHR 0x0A]"
| "inline_text (OtherElement n xs) = concat (map inline_text xs)"
| "inline_text _ = []"

fun paragraph_texts :: "docx \<Rightarrow> string list" where
  "paragraph_texts (Paragraph xs) = [concat (map inline_text xs)]"
| "paragraph_texts (OtherElement n xs) = concat (map paragraph_texts xs)"
| "paragraph_texts _ = []"

lemma paragraphs_chars: "paragraphs_from par True (map CharData ts @ r) = paragraphs_from (par @ concat ts) True r"
  by (induction ts arbitrary: par) simp_all

lemma paragraphs_inline:
  "inline_node x \<Longrightarrow> paragraphs_from par False (docx_tokens x @ r) = paragraphs_from (par @ inline_text x) False r"
proof (induction x arbitrary: par r)
  case (OtherElement n xs)
  have "list_all inline_node xs \<Longrightarrow> paragraphs_from q False (concat (map docx_tokens xs) @ r')
      = paragraphs_from (q @ concat (map inline_text xs)) False r'" for q r'
    using OtherElement.IH by (induction xs arbitrary: q) simp_all
  with OtherElement.prems show ?case by (simp add: other_name_def)
qed (simp_all add: paragraphs_chars)

lemma paragraphs_inlines:
  "list_all inline_node xs \<Longrightarrow> paragraphs_from par False (concat (map docx_tokens xs) @ r)
    = paragraphs_from (par @ concat (map inline_text xs)) False r"
  by (induction xs arbitrary: par) (simp_all add: paragraphs_inline)

lemma paragraphs_block:
  "block_node x \<Longrightarrow> paragraphs_from [] False (docx_tokens x @ r) = paragraph_texts x @ paragraphs_from [] False r"
proof (induction x arbitrary: r)
  case (OtherElement n xs)
  have "list_all block_node xs \<Longrightarrow> paragraphs_from [] False (concat (map docx_tokens xs) @ r')
      = concat (map paragraph_texts xs) @ paragraphs_from [] False r'" for r'
    using OtherElement.IH by (induction xs) simp_all
  with OtherElement.prems show ?case by (simp add: other_name_def)
qed (simp_all add: paragraphs_inlines)

lemma paragraphs_blocks:
  "list_all block_node xs \<Longrightarrow> paragraphs_from [] False (concat (map docx_tokens xs)) = concat (map paragraph_texts xs) @ [[]]"
proof (induction xs)
  case (Cons x xs)
  with paragraphs_block [of x "concat (map docx_tokens xs)"] show ?case by simp
qed simp

lemma tokens_good: "BadToken \<notin> set (docx_tokens x)"
  by (induction x) auto

text \<open>
  C35: the text of a document. For the tokens of a document tree the streaming loop returns the texts of its
  paragraphs in their order, wherever they stand, those in the cells of tables included: runs, tabs and
  breaks, without blanks and tabs at the end, empty ones left out, one per line. (Text boxes, which put
  paragraphs into a paragraph, are excluded.) For every sequence of tokens the loop fails exactly when the
  decoder reports an error.
\<close>

theorem parseDocumentXML_spec:
  "(list_all block_node doc \<longrightarrow> parseDocumentXML (concat (map docx_tokens doc))
      = Some (join_with [CHR 0x0A] (filter (\<lambda>p. p \<noteq> []) (map trim_end (concat (map paragraph_texts doc))))))
    \<and> (parseDocumentXML toks = None \<longleftrightarrow> BadToken \<in> set toks)"
proof -
  have loop: "parseDocumentXML ts = (if BadToken \<in> set ts then None else Some (document_text ts))" for ts
    using document_loop_spec [of "[]" "[]" False ts] by (simp add: parseDocumentXML_def document_text_def)
  have good: "BadToken \<notin> set (concat (map docx_tokens doc))" using tokens_good by auto
  have "trim_end [] = []" by (simp add: trim_end_def trim_right_set_def)
  then have "list_all block_node doc \<longrightarrow> document_text (concat (map docx_tokens doc))
      = join_with [CHR 0x0A] (filter (\<lambda>p. p \<noteq> []) (map trim_end (concat (map paragraph_texts doc))))"
    by (simp add: document_text_def paragraphs_blocks)
  with loop good show ?thesis by simp
qed

text \<open>A paragraph, and a table with two cells; the tab of the first one stands for a tab stop of its properties.\<close>

definition demo_document :: "docx list" where
  "demo_document =
    [OtherElement ''document'' [OtherElement ''body''
      [Paragraph [OtherElement ''pPr'' [OtherElement ''tabs'' [TabMark]], OtherElement ''r'' [RunText [''Total'']]],
       OtherElement ''tbl'' [OtherElement ''tr'' [OtherElement ''tc'' [Paragraph [OtherElement ''r'' [RunText [''net '']]]],
         White '' '', OtherElement ''tc'' [Paragraph [OtherElement ''r'' [RunText [''5'']]]]]]]]]"

theorem parseDocumentXML_spec_witness:
  "parseDocumentXML (concat (map docx_tokens demo_document))
    = Some ([CHR 0x09] @ ''Total'' @ [CHR 0x0A] @ ''net'' @ [CHR 0x0A] @ ''5'')"
proof -
  have "list_all block_node demo_document" by (simp add: demo_document_def other_name_def)
  moreover have "join_with [CHR 0x0A] (filter (\<lambda>p. p \<noteq> []) (map trim_end (concat (map paragraph_texts demo_document))))
      = [CHR 0x09] @ ''Total'' @ [CHR 0x0A] @ ''net'' @ [CHR 0x0A] @ ''5''" by code_simp
  ultimately show ?thesis using parseDocumentXML_spec [of demo_document "[]"] by simp
qed

section \<open>The contract of an extractor\<close>

text \<open>
  What the bridge relies on: an extractor that returns no error returns a response. A fallback keeps
  the contract when its second backend does.
\<close>

locale extractor =
  fixes ext :: "'s backend"
  assumes answers: "fst (fst (ext req s)) = None \<Longrightarrow> snd (fst (ext req s)) \<noteq> None"
begin

lemma response: "snd (fst (ext req s)) = None \<Longrightarrow> \<exists>resp. fst (fst (ext req s)) = Some resp"
  using answers by (metis not_None_eq)

end

locale fallback_extractor = extractor fallback
  for fallback :: "'s backend" +
  fixes primary :: "'s backend"

lemma Fallback_state: "FallbackExtract primary fallback req s =
    (if succeeded (fst (primary req s)) then ((fst (fst (primary req s)), None), snd (primary req s))
     else let f = fallback req (snd (primary req s)) in
       (if succeeded (fst f) then (fst (fst f), None)
        else if snd (fst f) \<noteq> None then (None, snd (fst f)) else (fst (fst f), None), snd f))"
  by (simp add: FallbackExtract_def Let_def case_prod_unfold)

sublocale fallback_extractor \<subseteq> fb: extractor "FallbackExtract primary fallback"
proof
  fix req s
  assume "fst (fst (FallbackExtract primary fallback req s)) = None"
  then show "snd (fst (FallbackExtract primary fallback req s)) \<noteq> None"
    using answers [of req "snd (primary req s)"]
    by (auto simp: Fallback_state succeeded_def Let_def split: if_splits option.splits)
qed

interpretation local: extractor "LocalExtract grpc" for grpc
  by standard (auto simp: LocalExtract_def ClientExtract_def split: prod.splits sum.splits)

interpretation local_fallback: fallback_extractor "LocalExtract grpc" primary for grpc primary ..

text \<open>
  The fallback. The second backend is asked exactly when the first one does not succeed; the pair
  succeeds exactly when one of them does, with the response of the one that did; and whatever the first
  backend returns, with the local backend behind it the caller never gets neither response nor error.
\<close>

theorem fallback_semantics:
  "let first = primary req s; second = LocalExtract grpc req (snd first);
       both = FallbackExtract primary (LocalExtract grpc) req s
   in both = (if succeeded (fst first) then first else second)
    \<and> succeeded (fst both) = (succeeded (fst first) \<or> succeeded (fst second))
    \<and> fst both \<noteq> (None, None)"
proof -
  have n: "fst (FallbackExtract primary (LocalExtract grpc) req s) \<noteq> (None, None)"
    using local_fallback.fb.answers [of primary grpc req s] by auto
  have l: "snd (fst (LocalExtract grpc req t)) \<noteq> None \<longrightarrow> fst (fst (LocalExtract grpc req t)) = None" for t
    by (auto simp: LocalExtract_def split: prod.split sum.split)
  obtain r1 e1 t1 where p: "primary req s = ((r1, e1), t1)" by (metis prod.collapse)
  obtain r2 e2 t2 where q: "LocalExtract grpc req t1 = ((r2, e2), t2)" by (metis prod.collapse)
  have "FallbackExtract primary (LocalExtract grpc) req s
      = (if succeeded (r1, e1) then ((r1, e1), t1) else ((r2, e2), t2))"
    using l [of t1] by (auto simp: Fallback_state succeeded_def Let_def p q)
  then show ?thesis using n by (simp add: Let_def p q)
qed

end
