(* ===== verification/JsonText.thy ===== *)
theory JsonText
  imports Models
begin

text \<open>
  The bytes that \<open>json.Marshal\<close> writes for the requests to the model providers, whose types hold
  integers, strings, lists and structs, and a reader of such texts. Writing and reading back gives the
  value again, except that a byte that belongs to no UTF-8 sequence is replaced by U+FFFD.
\<close>

section \<open>Strings\<close>

text \<open>A string character by character; HTML characters are escaped too.\<close>

definition escape_char :: "char \<Rightarrow> string" where
  "escape_char c =
    (let n = of_char c :: nat in
     if c = CHR 0x22 \<or> c = CHR 0x5C then [CHR 0x5C, c]
     else if n = 8 then [CHR 0x5C, CHR ''b''] else if n = 12 then [CHR 0x5C, CHR ''f'']
     else if n = 10 then [CHR 0x5C, CHR ''n''] else if n = 13 then [CHR 0x5C, CHR ''r'']
     else if n = 9 then [CHR 0x5C, CHR ''t'']
     else if n < 0x20 \<or> c = CHR ''<'' \<or> c = CHR ''>'' \<or> c = CHR ''&'' then
       [CHR 0x5C, CHR ''u'', CHR ''0'', CHR ''0'', hex_digit (n div 16), hex_digit (n mod 16)]
     else [c])"

text \<open>A character of more than one byte: only the two line separators of JavaScript are escaped.\<close>

definition escape_rune :: "string \<Rightarrow> string" where
  "escape_rune u =
    (if u = [CHR 0xE2, CHR 0x80, CHR 0xA8] then CHR 0x5C # ''u2028''
     else if u = [CHR 0xE2, CHR 0x80, CHR 0xA9] then CHR 0x5C # ''u2029'' else u)"

fun escape_fuel :: "nat \<Rightarrow> string \<Rightarrow> string" where
  "escape_fuel 0 s = []"
| "escape_fuel (Suc n) s =
    (case s of
       [] \<Rightarrow> []
     | c # cs \<Rightarrow>
         (case rune_len s of
            None \<Rightarrow> CHR 0x5C # ''ufffd'' @ escape_fuel n cs
          | Some k \<Rightarrow> (if k = 1 then escape_char c else escape_rune (take k s)) @ escape_fuel n (drop k s)))"

text \<open>Every round consumes at least one byte.\<close>

definition json_string :: "string \<Rightarrow> string" where
  "json_string s = CHR 0x22 # escape_fuel (length s) s @ [CHR 0x22]"

text \<open>The UTF-8 encoding of a code point below 0x10000 that is no surrogate.\<close>

definition utf8_encode :: "nat \<Rightarrow> string option" where
  "utf8_encode n =
    (if n < 0x80 then Some [char_of n]
     else if n < 0x800 then Some [char_of (0xC0 + n div 64), char_of (0x80 + n mod 64)]
     else if 0xD800 \<le> n \<and> n \<le> 0xDFFF then None
     else Some [char_of (0xE0 + n div 4096), char_of (0x80 + n div 64 mod 64), char_of (0x80 + n mod 64)])"

definition hex4 :: "char \<Rightarrow> char \<Rightarrow> char \<Rightarrow> char \<Rightarrow> nat option" where
  "hex4 a b c d =
    (case (hex_val a, hex_val b, hex_val c, hex_val d) of
       (Some w, Some x, Some y, Some z) \<Rightarrow> Some (((w * 16 + x) * 16 + y) * 16 + z)
     | _ \<Rightarrow> None)"

definition unescape_char :: "char \<Rightarrow> char option" where
  "unescape_char e =
    (if e = CHR 0x22 \<or> e = CHR 0x5C \<or> e = CHR ''/'' then Some e
     else if e = CHR ''b'' then Some (CHR 0x08) else if e = CHR ''f'' then Some (CHR 0x0C)
     else if e = CHR ''n'' then Some (CHR 0x0A) else if e = CHR ''r'' then Some (CHR 0x0D)
     else if e = CHR ''t'' then Some (CHR 0x09) else None)"

definition prepend :: "string \<Rightarrow> (string \<times> string) option \<Rightarrow> (string \<times> string) option" where
  "prepend u x = map_option (\<lambda>(t, r). (u @ t, r)) x"

text \<open>What follows the opening quote: the string up to its closing quote, and the rest.\<close>

fun read_chars :: "string \<Rightarrow> (string \<times> string) option" where
  "read_chars [] = None"
| "read_chars (c # s) =
    (if c = CHR 0x22 then Some ([], s)
     else if c = CHR 0x5C then
       (case s of
          e # a # b # d # f # t \<Rightarrow>
            if e = CHR ''u'' then
              (case Option.bind (hex4 a b d f) utf8_encode of None \<Rightarrow> None | Some u \<Rightarrow> prepend u (read_chars t))
            else (case unescape_char e of None \<Rightarrow> None | Some x \<Rightarrow> prepend [x] (read_chars (a # b # d # f # t)))
        | e # t \<Rightarrow> (case unescape_char e of None \<Rightarrow> None | Some x \<Rightarrow> prepend [x] (read_chars t))
        | [] \<Rightarrow> None)
     else if (of_char c :: nat) < 0x20 then None
     else prepend [c] (read_chars s))"

lemma prepend_Some [simp]: "prepend u (Some (t, r)) = Some (u @ t, r)"
  by (simp add: prepend_def)

lemma prepend_prepend [simp]: "prepend u (prepend v x) = prepend (u @ v) x"
  by (cases x) (auto simp: prepend_def)

lemma prepend_Nil [simp]: "prepend [] x = x"
  by (cases x) (auto simp: prepend_def)

text \<open>An escape of one character, an escape of a code point, and bytes that stand for themselves.\<close>

lemma read_short:
  "e \<noteq> CHR ''u'' \<Longrightarrow> unescape_char e = Some x \<Longrightarrow> read_chars (CHR 0x5C # e # t) = prepend [x] (read_chars t)"
  by (auto split: list.split)

lemma read_code:
  "hex4 a b c d = Some n \<Longrightarrow> utf8_encode n = Some u
    \<Longrightarrow> read_chars (CHR 0x5C # CHR ''u'' # a # b # c # d # t) = prepend u (read_chars t)"
  by simp

lemma read_high: "\<forall>c \<in> set u. 0x80 \<le> (of_char c :: nat) \<Longrightarrow> read_chars (u @ t) = prepend u (read_chars t)"
proof (induction u)
  case (Cons c u)
  then have "c \<noteq> CHR 0x22" "c \<noteq> CHR 0x5C" by auto
  with Cons show ?case by (auto split: list.split)
qed simp

declare read_chars.simps(2) [simp del]

lemma char_codes:
  "char_of (8::nat) = CHR 0x08" "char_of (9::nat) = CHR 0x09" "char_of (10::nat) = CHR 0x0A"
  "char_of (12::nat) = CHR 0x0C" "char_of (13::nat) = CHR 0x0D" "char_of (226::nat) = CHR 0xE2"
  "char_of (128::nat) = CHR 0x80" "char_of (168::nat) = CHR 0xA8" "char_of (169::nat) = CHR 0xA9"
  "char_of (239::nat) = CHR 0xEF" "char_of (191::nat) = CHR 0xBF" "char_of (189::nat) = CHR 0xBD"
  by code_simp+

lemma hex_digits [simp]: "hex_val (CHR ''0'') = Some 0" "hex_val (CHR ''2'') = Some 2" "hex_val (CHR ''8'') = Some 8"
  "hex_val (CHR ''9'') = Some 9" "hex_val (CHR ''f'') = Some 15" "hex_val (CHR ''d'') = Some 13"
  by (simp_all add: hex_val_def)

lemma read_escape_char:
  assumes "(of_char c :: nat) < 0x80"
  shows "read_chars (escape_char c @ t) = prepend [c] (read_chars t)"
proof -
  let ?n = "of_char c :: nat"
  have c: "c = char_of ?n" by simp
  consider (short) e where "escape_char c = [CHR 0x5C, e]" "e \<noteq> CHR ''u''" "unescape_char e = Some c"
    | (code) "escape_char c = [CHR 0x5C, CHR ''u'', CHR ''0'', CHR ''0'', hex_digit (?n div 16), hex_digit (?n mod 16)]"
    | (plain) "escape_char c = [c]" "c \<noteq> CHR 0x22" "c \<noteq> CHR 0x5C" "\<not> ?n < 0x20"
  proof (cases "c = CHR 0x22 \<or> c = CHR 0x5C \<or> ?n \<in> {8, 12, 10, 13, 9}")
    case True
    then consider "c = CHR 0x22" | "c = CHR 0x5C" | "c = CHR 0x08" | "c = CHR 0x0C" | "c = CHR 0x0A"
      | "c = CHR 0x0D" | "c = CHR 0x09"
      by (elim disjE insertE) (use c in \<open>auto simp: char_codes\<close>)
    then show thesis by cases (auto intro!: short simp: escape_char_def unescape_char_def)
  next
    case False
    show thesis
    proof (cases "?n < 0x20 \<or> c = CHR ''<'' \<or> c = CHR ''>'' \<or> c = CHR ''&''")
      case True
      with False show thesis by (intro code) (auto simp: escape_char_def Let_def)
    next
      case plain: False
      with False show thesis by (intro that(3)) (simp_all add: escape_char_def Let_def)
    qed
  qed
  then show ?thesis
  proof cases
    case short
    then show ?thesis by (simp add: read_short)
  next
    case code
    have "?n div 16 < 16" using assms by simp
    then have "hex4 (CHR ''0'') (CHR ''0'') (hex_digit (?n div 16)) (hex_digit (?n mod 16)) = Some ?n"
      by (simp add: hex4_def)
    moreover have "utf8_encode ?n = Some [c]" using assms by (simp add: utf8_encode_def)
    ultimately show ?thesis by (simp add: code read_code)
  next
    case plain
    then show ?thesis by (simp add: read_chars.simps(2))
  qed
qed

lemma rune_high:
  "rune_len s = Some k \<Longrightarrow> k \<noteq> 1 \<Longrightarrow> \<forall>c \<in> set (take k s). 0x80 \<le> (of_char c :: nat)"
  by (cases s; cases "tl s"; cases "tl (tl s)"; cases "tl (tl (tl s))")
     (auto simp: Let_def byte_in_def split: if_splits)

lemma rune_one: "rune_len (c # s) = Some 1 \<Longrightarrow> (of_char c :: nat) < 0x80"
  by (auto simp: Let_def split: if_splits list.splits)

lemma read_escape_rune:
  assumes "\<forall>c \<in> set u. 0x80 \<le> (of_char c :: nat)"
  shows "read_chars (escape_rune u @ t) = prepend u (read_chars t)"
proof -
  have "hex4 (CHR ''2'') (CHR ''0'') (CHR ''2'') (CHR ''8'') = Some 0x2028"
    "hex4 (CHR ''2'') (CHR ''0'') (CHR ''2'') (CHR ''9'') = Some 0x2029" by (simp_all add: hex4_def)
  moreover have "utf8_encode 0x2028 = Some [CHR 0xE2, CHR 0x80, CHR 0xA8]"
    "utf8_encode 0x2029 = Some [CHR 0xE2, CHR 0x80, CHR 0xA9]" by (simp_all add: utf8_encode_def char_codes)
  ultimately show ?thesis using read_high [OF assms] by (simp add: escape_rune_def read_code)
qed

lemma read_escape:
  "length s \<le> n \<Longrightarrow> read_chars (escape_fuel n s @ CHR 0x22 # r) = Some (valid_utf8_fuel n s, r)"
proof (induction n arbitrary: s)
  case 0
  then show ?case by (simp add: read_chars.simps(2))
next
  case (Suc n)
  show ?case
  proof (cases s)
    case Nil
    then show ?thesis by (simp add: read_chars.simps(2))
  next
    case (Cons c cs)
    show ?thesis
    proof (cases "rune_len s")
      case None
      have "hex4 (CHR ''f'') (CHR ''f'') (CHR ''f'') (CHR ''d'') = Some 0xFFFD" by (simp add: hex4_def)
      moreover have "utf8_encode 0xFFFD = Some replacement" by (simp add: utf8_encode_def replacement_def char_codes)
      ultimately show ?thesis using None Suc by (simp add: Cons read_code)
    next
      case (Some k)
      have k: "0 < k" "k \<le> length s" using rune_len_take [OF Some] by auto
      have ih: "read_chars (escape_fuel n (drop k s) @ CHR 0x22 # r) = Some (valid_utf8_fuel n (drop k s), r)"
        using k Suc.prems by (intro Suc.IH) simp
      let ?u = "if k = 1 then escape_char c else escape_rune (take k s)"
      have "read_chars (?u @ t) = prepend (take k s) (read_chars t)" for t
        using Some rune_high [OF Some] rune_one by (auto simp: Cons read_escape_char read_escape_rune)
      moreover have "escape_fuel (Suc n) s = ?u @ escape_fuel n (drop k s)"
        "valid_utf8_fuel (Suc n) s = take k s @ valid_utf8_fuel n (drop k s)"
        using Some by (simp_all add: Cons del: rune_len.simps)
      ultimately show ?thesis by (simp only: append_assoc ih prepend_Some)
    qed
  qed
qed

lemma read_json_string: "read_chars (tl (json_string s) @ r) = Some (to_valid s, r)"
  using read_escape [of s "length s" r] by (simp add: json_string_def to_valid_def)

section \<open>Values\<close>

text \<open>What a request is made of; a struct lists its fields in their order, without those left out.\<close>

datatype json_out =
    OInt int
  | OStr string
  | OArr "json_out list"
  | OObj "(string \<times> json_out) list"

fun json_marshal :: "json_out \<Rightarrow> bytes" where
  "json_marshal (OInt n) = format_int n"
| "json_marshal (OStr s) = json_string s"
| "json_marshal (OArr xs) = CHR ''['' # join_with '','' (map json_marshal xs) @ '']''"
| "json_marshal (OObj m) =
     CHR ''{'' # join_with '','' (map (\<lambda>p. json_string (fst p) @ CHR '':'' # json_marshal (snd p)) m) @ ''}''"

text \<open>The value that arrives: strings are coerced to UTF-8.\<close>

fun arrived :: "json_out \<Rightarrow> json_out" where
  "arrived (OInt n) = OInt n"
| "arrived (OStr s) = OStr (to_valid s)"
| "arrived (OArr xs) = OArr (map arrived xs)"
| "arrived (OObj m) = OObj (map (\<lambda>p. (to_valid (fst p), arrived (snd p))) m)"

definition read_int :: "string \<Rightarrow> (json_out \<times> string) option" where
  "read_int s =
    (let neg = has_prefix s ''-''; t = (if neg then tl s else s); ds = takeWhile is_digit t in
     if ds = [] then None
     else map_option (\<lambda>n. (OInt (if neg then - int n else int n), dropWhile is_digit t)) (digits_val 0 ds))"

text \<open>
  A reader of the texts without white space; the number bounds the depth and the length of the text. It
  returns the value and the rest.
\<close>

fun read_value :: "nat \<Rightarrow> string \<Rightarrow> (json_out \<times> string) option"
  and read_items :: "nat \<Rightarrow> string \<Rightarrow> (json_out list \<times> string) option"
  and read_fields :: "nat \<Rightarrow> string \<Rightarrow> ((string \<times> json_out) list \<times> string) option" where
  "read_value 0 s = None"
| "read_value (Suc n) s =
    (case s of
       [] \<Rightarrow> None
     | c # t \<Rightarrow>
         if c = CHR 0x22 then map_option (\<lambda>(u, r). (OStr u, r)) (read_chars t)
         else if c = CHR ''['' then
           (if has_prefix t '']'' then Some (OArr [], tl t)
            else map_option (\<lambda>(xs, r). (OArr xs, r)) (read_items n t))
         else if c = CHR ''{'' then
           (if has_prefix t ''}'' then Some (OObj [], tl t)
            else map_option (\<lambda>(m, r). (OObj m, r)) (read_fields n t))
         else read_int s)"
| "read_items 0 s = None"
| "read_items (Suc n) s =
    Option.bind (read_value n s) (\<lambda>(x, r).
      if has_prefix r '']'' then Some ([x], tl r)
      else if has_prefix r '','' then map_option (\<lambda>(xs, r'). (x # xs, r')) (read_items n (tl r))
      else None)"
| "read_fields 0 s = None"
| "read_fields (Suc n) s =
    (if \<not> has_prefix s [CHR 0x22] then None
     else Option.bind (read_chars (tl s)) (\<lambda>(k, r).
       if \<not> has_prefix r '':'' then None
       else Option.bind (read_value n (tl r)) (\<lambda>(x, r').
         if has_prefix r' ''}'' then Some ([(k, x)], tl r')
         else if has_prefix r' '','' then map_option (\<lambda>(m, r''). ((k, x) # m, r'')) (read_fields n (tl r'))
         else None)))"

text \<open>A text that is one value and nothing else.\<close>

definition read_json :: "bytes \<Rightarrow> json_out option" where
  "read_json s = (case read_value (Suc (length s)) s of Some (v, []) \<Rightarrow> Some v | _ \<Rightarrow> None)"

text \<open>A number ends where no digit follows.\<close>

definition no_digit :: "string \<Rightarrow> bool" where
  "no_digit r \<longleftrightarrow> (case r of [] \<Rightarrow> True | c # _ \<Rightarrow> \<not> is_digit c)"

lemma read_format_int:
  assumes "no_digit r"
  shows "read_int (format_int n @ r) = Some (OInt n, r)"
proof -
  have d: "takeWhile is_digit (format_nat k @ r) = format_nat k" "dropWhile is_digit (format_nat k @ r) = r" for k
    using assms format_nat_digits by (cases r; fastforce simp: no_digit_def takeWhile_append dropWhile_append)+
  have "hd (format_nat k) \<noteq> CHR ''-''" for k
    using format_nat_digits [of "hd (format_nat k)" k] by (auto simp: is_digit_def digit_val_def)
  then have "\<not> has_prefix (format_nat k @ r) ''-''" for k
    by (cases "format_nat k") (auto simp: has_prefix_def dest: spec [of _ k], metis list.sel(1))
  moreover have "has_prefix (CHR ''-'' # s) ''-''" for s by (simp add: has_prefix_def)
  moreover have "digits_val 0 (format_nat k) = Some k" for k by (simp add: digits_val_format_nat)
  ultimately show ?thesis by (cases "n < 0") (simp_all add: read_int_def format_int_def Let_def d)
qed

lemma format_int_head: "format_int n = c # s \<Longrightarrow> c \<notin> {CHR 0x22, CHR ''['', CHR ''{'', CHR '']'', CHR ''}''}"
  using format_int_chars [of c n] by (auto simp: is_digit_def digit_val_def)

lemma marshal_not_Nil [simp]: "json_marshal v \<noteq> []"
  by (cases v) (simp_all add: json_string_def)

lemma marshal_head: "json_marshal v @ r = c # s \<Longrightarrow> c \<noteq> CHR '']''"
  using format_int_head by (cases v) (auto simp: json_string_def append_eq_Cons_conv)

lemma no_digit_simps [simp]: "no_digit []" "no_digit (CHR '','' # r)" "no_digit (CHR '']'' # r)" "no_digit (CHR ''}'' # r)"
  by (simp_all add: no_digit_def is_digit_def digit_val_def)

lemma join_with_Cons: "xs \<noteq> [] \<Longrightarrow> join_with sep (x # xs) = x @ sep @ join_with sep xs"
  by (cases xs) simp_all

definition reads_back :: "json_out \<Rightarrow> bool" where
  "reads_back v \<longleftrightarrow> (\<forall>n r. length (json_marshal v) < n \<and> no_digit r \<longrightarrow> read_value n (json_marshal v @ r) = Some (arrived v, r))"

lemma read_back_items:
  assumes "\<forall>x \<in> set xs. reads_back x" "xs \<noteq> []" "Suc (length (join_with '','' (map json_marshal xs))) < n"
  shows "read_items n (join_with '','' (map json_marshal xs) @ CHR '']'' # r) = Some (map arrived xs, r)"
  using assms
proof (induction xs arbitrary: n)
  case (Cons x xs)
  then obtain k where n: "n = Suc k" by (cases n) auto
  have x: "read_value k (json_marshal x @ q) = Some (arrived x, q)" if "no_digit q" for q
  proof -
    have "length (json_marshal x) \<le> length (join_with '','' (map json_marshal (x # xs)))"
      by (cases xs) simp_all
    with Cons.prems that show ?thesis by (simp add: n reads_back_def)
  qed
  show ?case
  proof (cases "xs = []")
    case True
    with x show ?thesis by (simp add: n has_prefix_def)
  next
    case False
    have "0 < length (json_marshal x)" by simp
    with Cons.prems False have "Suc (length (join_with '','' (map json_marshal xs))) < k"
      by (simp add: n join_with_Cons del: length_greater_0_conv)
    with Cons.IH [of k] Cons.prems False
    have "read_items k (join_with '','' (map json_marshal xs) @ CHR '']'' # r) = Some (map arrived xs, r)" by simp
    with x False show ?thesis by (simp add: n join_with_Cons has_prefix_def)
  qed
qed simp

definition marshal_field :: "string \<times> json_out \<Rightarrow> string" where
  "marshal_field p = json_string (fst p) @ CHR '':'' # json_marshal (snd p)"

lemma marshal_OObj: "json_marshal (OObj m) = CHR ''{'' # join_with '','' (map marshal_field m) @ ''}''"
  by (simp add: marshal_field_def [abs_def])

lemma json_string_quote: "json_string s = CHR 0x22 # tl (json_string s)"
  by (simp add: json_string_def)

lemma read_back_fields:
  assumes "\<forall>p \<in> set m. reads_back (snd p)" "m \<noteq> []" "Suc (length (join_with '','' (map marshal_field m))) < n"
  shows "read_fields n (join_with '','' (map marshal_field m) @ CHR ''}'' # r)
    = Some (map (\<lambda>p. (to_valid (fst p), arrived (snd p))) m, r)"
  using assms
proof (induction m arbitrary: n)
  case (Cons p m)
  then obtain k where n: "n = Suc k" by (cases n) auto
  have quoted: "has_prefix (marshal_field p @ q) [CHR 0x22]"
    "tl (marshal_field p @ q) = tl (json_string (fst p)) @ CHR '':'' # json_marshal (snd p) @ q" for q
    by (simp_all add: marshal_field_def json_string_def has_prefix_def)
  have x: "read_value k (json_marshal (snd p) @ q) = Some (arrived (snd p), q)" if "no_digit q" for q
  proof -
    have "length (json_marshal (snd p)) \<le> length (join_with '','' (map marshal_field (p # m)))"
      by (cases m) (simp_all add: marshal_field_def)
    with Cons.prems that show ?thesis by (simp add: n reads_back_def)
  qed
  show ?case
  proof (cases "m = []")
    case True
    with x show ?thesis
      using quoted by (simp add: n read_json_string) (simp add: has_prefix_def)
  next
    case False
    have "0 < length (marshal_field p)" by (simp add: marshal_field_def)
    with Cons.prems False have "Suc (length (join_with '','' (map marshal_field m))) < k"
      by (simp add: n join_with_Cons del: length_greater_0_conv)
    with Cons.IH [of k] Cons.prems False
    have "read_fields k (join_with '','' (map marshal_field m) @ CHR ''}'' # r)
      = Some (map (\<lambda>p. (to_valid (fst p), arrived (snd p))) m, r)" by simp
    with x False show ?thesis
      using quoted by (simp add: n join_with_Cons read_json_string) (simp add: has_prefix_def)
  qed
qed simp

lemma reads_back: "reads_back v"
proof (induction v)
  case (OInt i)
  have "read_value n (format_int i @ r) = Some (OInt i, r)" if pos: "0 < n" and r: "no_digit r" for n r
  proof -
    obtain c s where c: "format_int i = c # s" using format_int_not_Nil by (meson neq_Nil_conv)
    obtain k where "n = Suc k" using pos by (cases n) auto
    with read_format_int [OF r, of i] format_int_head [OF c] c show ?thesis by simp
  qed
  then show ?case by (simp add: reads_back_def)
next
  case (OStr s)
  have "read_value n (json_string s @ r) = Some (OStr (to_valid s), r)" if pos: "0 < n" for n r
  proof -
    obtain k where "n = Suc k" using pos by (cases n) auto
    then show ?thesis
      by (subst json_string_quote) (simp add: read_json_string)
  qed
  then show ?case by (simp add: reads_back_def)
next
  case (OArr xs)
  have "read_value n (json_marshal (OArr xs) @ r) = Some (arrived (OArr xs), r)"
    if fuel: "length (json_marshal (OArr xs)) < n" for n r
  proof -
    obtain k where n: "n = Suc k" using fuel by (cases n) auto
    show ?thesis
    proof (cases "xs = []")
      case True
      then show ?thesis by (simp add: n has_prefix_def)
    next
      case False
      obtain x ys where xs: "xs = x # ys" using False by (cases xs) auto
      obtain c s where c: "json_marshal x = c # s" using marshal_not_Nil by (meson neq_Nil_conv)
      have "\<not> has_prefix (join_with '','' (map json_marshal xs) @ t) '']''" for t
        using marshal_head [of x "[]" c s] c by (cases ys) (simp_all add: xs has_prefix_def)
      moreover have "read_items k (join_with '','' (map json_marshal xs) @ CHR '']'' # r) = Some (map arrived xs, r)"
        using OArr fuel False by (intro read_back_items) (simp_all add: n)
      ultimately show ?thesis by (simp add: n)
    qed
  qed
  then show ?case by (simp add: reads_back_def)
next
  case (OObj m)
  have "read_value n (json_marshal (OObj m) @ r) = Some (arrived (OObj m), r)"
    if fuel: "length (json_marshal (OObj m)) < n" for n r
  proof -
    obtain k where n: "n = Suc k" using fuel by (cases n) auto
    show ?thesis
    proof (cases "m = []")
      case True
      then show ?thesis by (simp add: n has_prefix_def)
    next
      case False
      obtain p ys where m: "m = p # ys" using False by (cases m) auto
      have "\<not> has_prefix (join_with '','' (map marshal_field m) @ t) ''}''" for t
        by (cases ys) (simp_all add: m marshal_field_def json_string_def has_prefix_def)
      moreover have "read_fields k (join_with '','' (map marshal_field m) @ CHR ''}'' # r)
          = Some (map (\<lambda>p. (to_valid (fst p), arrived (snd p))) m, r)"
        using OObj fuel False unfolding marshal_OObj by (intro read_back_fields) (auto simp: n)
      ultimately show ?thesis unfolding marshal_OObj by (simp add: n)
    qed
  qed
  then show ?case by (simp add: reads_back_def)
qed

text \<open>The text of a value is read back as the value that arrives.\<close>

lemma read_marshal: "read_json (json_marshal v) = Some (arrived v)"
proof -
  have "read_value (Suc (length (json_marshal v))) (json_marshal v @ []) = Some (arrived v, [])"
    using reads_back [of v, unfolded reads_back_def, rule_format, of "Suc (length (json_marshal v))" "[]"] by (simp del: read_value.simps)
  then show ?thesis by (simp add: read_json_def del: read_value.simps)
qed

declare json_marshal.simps [simp del]

end
