(* ===== verification/Cloud.thy ===== *)
theory Cloud
  imports Extract Signature JsonText
begin

text \<open>
  The cloud backend of \<open>internal/extraction\<close> (\<open>provider.go\<close>, \<open>provider_anthropic.go\<close>,
  \<open>provider_openai.go\<close>, \<open>cloud.go\<close>). The interface \<open>LLMProvider\<close> is a record of operations with the
  locale \<open>llm_provider\<close> for its contract. The state of the backend is the list of HTTP calls made; what
  the network answers is a function of that list.
\<close>

section \<open>Base64\<close>

definition base64_char :: "nat \<Rightarrow> char" where
  "base64_char n =
    (if n < 26 then char_of (65 + n) else if n < 52 then char_of (97 + (n - 26))
     else if n < 62 then char_of (48 + (n - 52)) else if n = 62 then CHR ''+'' else CHR ''/'')"

fun base64 :: "bytes \<Rightarrow> string" where
  "base64 (a # b # c # s) =
     (let x = (of_char a :: nat); y = (of_char b :: nat); z = (of_char c :: nat) in
      [base64_char (x div 4), base64_char (x mod 4 * 16 + y div 16), base64_char (y mod 16 * 4 + z div 64),
       base64_char (z mod 64)] @ base64 s)"
| "base64 [a, b] =
     (let x = (of_char a :: nat); y = (of_char b :: nat) in
      [base64_char (x div 4), base64_char (x mod 4 * 16 + y div 16), base64_char (y mod 16 * 4), CHR ''=''])"
| "base64 [a] =
     (let x = (of_char a :: nat) in [base64_char (x div 4), base64_char (x mod 4 * 16), CHR ''='', CHR ''=''])"
| "base64 [] = []"

section \<open>Providers\<close>

record LLMProvider =
  pv_Name :: string
  pv_DefaultModel :: string
  pv_BuildRequest :: "string \<Rightarrow> string \<Rightarrow> bytes \<Rightarrow> string \<Rightarrow> string \<times> bytes"
  pv_AuthHeaders :: "string \<Rightarrow> (string \<times> string) list"
  pv_ParseResponse :: "bytes \<Rightarrow> string + string"

definition nl :: string where "nl = [CHR 0x0A]"

definition extractionSystemPrompt :: string where
  "extractionSystemPrompt =
    ''You are a document extraction engine. Given a document, identify every structured field present and return them as a single flat JSON object.'' @ nl @ nl @
    ''Rules:'' @ nl @
    ''- Field names MUST be lowercase snake_case (e.g. \"invoice_number\", \"total_amount\").'' @ nl @
    ''- Return ONLY the JSON object. No explanations, no markdown code fences, no prose before or after.'' @ nl @
    ''- Use correct JSON types: numbers for numeric values, booleans for true/false, strings otherwise.'' @ nl @
    ''- For dates, prefer ISO 8601 format when the original format is unambiguous.'' @ nl @
    ''- If the document contains no extractable structured data, return an empty object {}.''"

definition userExtractionInstruction :: string where
  "userExtractionInstruction = ''Extract the structured fields from this document.''"

definition defaultMaxTokens :: int where "defaultMaxTokens = 4096"

definition isRetryableStatus :: "int \<Rightarrow> bool" where
  "isRetryableStatus code = (if code = 429 then True else 500 \<le> code \<and> code < 600)"

text \<open>\<open>http_time\<close> is \<open>http.ParseTime\<close>; the product of the seconds is an \<open>int64\<close> and may wrap around.\<close>

definition parseRetryAfter :: "(string \<Rightarrow> int option) \<Rightarrow> int \<Rightarrow> string \<Rightarrow> int" where
  "parseRetryAfter http_time now header =
    (let h = trim_space header;
         by_date = (case http_time h of
             Some t \<Rightarrow> let d = time_sub t now in if d > 0 then d else 0
           | None \<Rightarrow> 0)
     in if h = [] then 0
        else case parse_int h of
               Some secs \<Rightarrow> if secs > 0 then wrap64 (secs * second) else by_date
             | None \<Rightarrow> by_date)"

definition truncate_text :: "string \<Rightarrow> nat \<Rightarrow> string" where
  "truncate_text s n = (if length s \<le> n then s else take n s @ ''...'')"

text \<open>A field with the option \<open>omitempty\<close>.\<close>

definition omit_empty :: "string \<Rightarrow> string \<Rightarrow> (string \<times> json_out) list" where
  "omit_empty k v = (if v = [] then [] else [(k, OStr v)])"

section \<open>Anthropic\<close>

definition anthropicEndpoint :: string where
  "anthropicEndpoint = ''https://api.anthropic.com/v1/messages''"

text \<open>The request and its encoding by \<open>json.Marshal\<close>.\<close>

record anthropic_src =
  as_Type :: string
  as_MediaType :: string
  as_Data :: string

record anthropic_block =
  ab_Type :: string
  ab_Text :: string
  ab_Source :: "anthropic_src option"

record anthropic_system =
  ay_Type :: string
  ay_Text :: string
  ay_CacheControl :: "string option"

record anthropic_message =
  ag_Role :: string
  ag_Content :: "anthropic_block list"

record anthropic_request =
  aq_Model :: string
  aq_MaxTokens :: int
  aq_System :: "anthropic_system list"
  aq_Messages :: "anthropic_message list"

definition encode_anthropic_block :: "anthropic_block \<Rightarrow> json_out" where
  "encode_anthropic_block b =
    OObj ((''type'', OStr (ab_Type b)) # omit_empty ''text'' (ab_Text b) @
      (case ab_Source b of
         None \<Rightarrow> []
       | Some c \<Rightarrow> [(''source'', OObj [(''type'', OStr (as_Type c)), (''media_type'', OStr (as_MediaType c)),
                                     (''data'', OStr (as_Data c))])]))"

definition encode_anthropic_system :: "anthropic_system \<Rightarrow> json_out" where
  "encode_anthropic_system b =
    OObj ([(''type'', OStr (ay_Type b)), (''text'', OStr (ay_Text b))] @
      (case ay_CacheControl b of None \<Rightarrow> [] | Some t \<Rightarrow> [(''cache_control'', OObj [(''type'', OStr t)])]))"

definition encode_anthropic_message :: "anthropic_message \<Rightarrow> json_out" where
  "encode_anthropic_message m =
    OObj [(''role'', OStr (ag_Role m)), (''content'', OArr (map encode_anthropic_block (ag_Content m)))]"

definition encode_anthropic :: "anthropic_request \<Rightarrow> json_out" where
  "encode_anthropic r =
    OObj [(''model'', OStr (aq_Model r)), (''max_tokens'', OInt (aq_MaxTokens r)),
          (''system'', OArr (map encode_anthropic_system (aq_System r))),
          (''messages'', OArr (map encode_anthropic_message (aq_Messages r)))]"

definition anthropic_build :: "string \<Rightarrow> string \<Rightarrow> bytes \<Rightarrow> string \<Rightarrow> string \<times> bytes" where
  "anthropic_build model fileType fileBytes mediaType =
    (let content =
       (if fileType = ''pdf'' then
          \<lparr>ab_Type = ''document'', ab_Text = [],
           ab_Source = Some \<lparr>as_Type = ''base64'', as_MediaType = ''application/pdf'', as_Data = base64 fileBytes\<rparr>\<rparr>
        else if fileType = ''image'' then
          \<lparr>ab_Type = ''image'', ab_Text = [],
           ab_Source = Some \<lparr>as_Type = ''base64'', as_MediaType = mediaType, as_Data = base64 fileBytes\<rparr>\<rparr>
        else \<lparr>ab_Type = ''text'', ab_Text = fileBytes, ab_Source = None\<rparr>);
       instruction = \<lparr>ab_Type = ''text'', ab_Text = userExtractionInstruction, ab_Source = None\<rparr>
     in (anthropicEndpoint, json_marshal (encode_anthropic
          \<lparr>aq_Model = model, aq_MaxTokens = defaultMaxTokens,
           aq_System = [\<lparr>ay_Type = ''text'', ay_Text = extractionSystemPrompt, ay_CacheControl = Some ''ephemeral''\<rparr>],
           aq_Messages = [\<lparr>ag_Role = ''user'', ag_Content = [content, instruction]\<rparr>]\<rparr>)))"

lemmas anthropic_encoding = encode_anthropic_def encode_anthropic_message_def encode_anthropic_system_def
  encode_anthropic_block_def

definition anthropic_auth :: "string \<Rightarrow> (string \<times> string) list" where
  "anthropic_auth apiKey =
    [(''Content-Type'', ''application/json''), (''X-Api-Key'', apiKey), (''Anthropic-Version'', ''2023-06-01'')]"

text \<open>\<open>decode\<close> is \<open>json.Unmarshal\<close> into the response type: content blocks (type, text) and an error.\<close>

record anthropic_response =
  an_Content :: "(string \<times> string) list"
  an_Error :: "(string \<times> string) option"

definition anthropic_parse :: "(bytes \<Rightarrow> anthropic_response option) \<Rightarrow> bytes \<Rightarrow> string + string" where
  "anthropic_parse decode body =
    (case decode body of
       None \<Rightarrow> Inl ''parse anthropic response''
     | Some parsed \<Rightarrow>
         (case an_Error parsed of
            Some (t, m) \<Rightarrow> Inl (''anthropic error '' @ t @ '': '' @ m)
          | None \<Rightarrow> Inr (concat (map snd (filter (\<lambda>b. fst b = ''text'') (an_Content parsed))))))"

definition AnthropicProvider :: "(bytes \<Rightarrow> anthropic_response option) \<Rightarrow> string \<Rightarrow> LLMProvider" where
  "AnthropicProvider decode defaultModel =
    \<lparr>pv_Name = ''anthropic'',
     pv_DefaultModel = (if defaultModel = [] then ''claude-haiku-4-5'' else defaultModel),
     pv_BuildRequest = anthropic_build, pv_AuthHeaders = anthropic_auth,
     pv_ParseResponse = anthropic_parse decode\<rparr>"

section \<open>OpenAI\<close>

definition openaiEndpoint :: string where
  "openaiEndpoint = ''https://api.openai.com/v1/responses''"

record openai_block =
  ob_Type :: string
  ob_Text :: string
  ob_ImageURL :: string
  ob_Detail :: string
  ob_Filename :: string
  ob_FileData :: string

record openai_message =
  om_Role :: string
  om_Content :: "openai_block list"

record openai_request =
  oq_Model :: string
  oq_Instructions :: string
  oq_MaxOutputTokens :: int
  oq_Input :: "openai_message list"

definition encode_openai_block :: "openai_block \<Rightarrow> json_out" where
  "encode_openai_block b =
    OObj ((''type'', OStr (ob_Type b)) # omit_empty ''text'' (ob_Text b) @ omit_empty ''image_url'' (ob_ImageURL b)
      @ omit_empty ''detail'' (ob_Detail b) @ omit_empty ''filename'' (ob_Filename b)
      @ omit_empty ''file_data'' (ob_FileData b))"

definition encode_openai_message :: "openai_message \<Rightarrow> json_out" where
  "encode_openai_message m =
    OObj [(''role'', OStr (om_Role m)), (''content'', OArr (map encode_openai_block (om_Content m)))]"

definition encode_openai :: "openai_request \<Rightarrow> json_out" where
  "encode_openai r =
    OObj ((''model'', OStr (oq_Model r)) # omit_empty ''instructions'' (oq_Instructions r)
      @ [(''max_output_tokens'', OInt (oq_MaxOutputTokens r)),
         (''input'', OArr (map encode_openai_message (oq_Input r)))])"

text \<open>A block whose other fields are empty.\<close>

definition new_openai_block :: "string \<Rightarrow> openai_block" where
  "new_openai_block t =
    \<lparr>ob_Type = t, ob_Text = [], ob_ImageURL = [], ob_Detail = [], ob_Filename = [], ob_FileData = []\<rparr>"

definition openai_build :: "string \<Rightarrow> string \<Rightarrow> bytes \<Rightarrow> string \<Rightarrow> string \<times> bytes" where
  "openai_build model fileType fileBytes mediaType =
    (let content =
       (if fileType = ''pdf'' then
          new_openai_block ''input_file''\<lparr>ob_Filename := ''document.pdf'',
            ob_FileData := ''data:application/pdf;base64,'' @ base64 fileBytes\<rparr>
        else if fileType = ''image'' then
          new_openai_block ''input_image''\<lparr>ob_ImageURL := ''data:'' @ mediaType @ '';base64,'' @ base64 fileBytes,
            ob_Detail := ''auto''\<rparr>
        else new_openai_block ''input_text''\<lparr>ob_Text := fileBytes\<rparr>)
     in (openaiEndpoint, json_marshal (encode_openai
          \<lparr>oq_Model = model, oq_Instructions = extractionSystemPrompt, oq_MaxOutputTokens = defaultMaxTokens,
           oq_Input = [\<lparr>om_Role = ''user'',
             om_Content = [content, new_openai_block ''input_text''\<lparr>ob_Text := userExtractionInstruction\<rparr>]\<rparr>]\<rparr>)))"

lemmas openai_encoding = encode_openai_def encode_openai_message_def encode_openai_block_def new_openai_block_def

definition openai_auth :: "string \<Rightarrow> (string \<times> string) list" where
  "openai_auth apiKey = [(''Content-Type'', ''application/json''), (''Authorization'', ''Bearer '' @ apiKey)]"

record openai_response =
  oa_OutputText :: string
  oa_Output :: "(string \<times> (string \<times> string) list) list"
  oa_Error :: "(string \<times> string) option"

definition openai_parse :: "(bytes \<Rightarrow> openai_response option) \<Rightarrow> bytes \<Rightarrow> string + string" where
  "openai_parse decode body =
    (case decode body of
       None \<Rightarrow> Inl ''parse openai response''
     | Some parsed \<Rightarrow>
         (case oa_Error parsed of
            Some (t, m) \<Rightarrow> Inl (''openai error '' @ t @ '': '' @ m)
          | None \<Rightarrow>
              if oa_OutputText parsed \<noteq> [] then Inr (oa_OutputText parsed)
              else Inr (concat (map (\<lambda>item. concat (map snd
                     (filter (\<lambda>b. fst b = ''output_text'' \<or> fst b = ''text'') (snd item)))) (oa_Output parsed)))))"

definition OpenAIProvider :: "(bytes \<Rightarrow> openai_response option) \<Rightarrow> string \<Rightarrow> LLMProvider" where
  "OpenAIProvider decode defaultModel =
    \<lparr>pv_Name = ''openai'', pv_DefaultModel = (if defaultModel = [] then ''gpt-4.1-mini'' else defaultModel),
     pv_BuildRequest = openai_build, pv_AuthHeaders = openai_auth, pv_ParseResponse = openai_parse decode\<rparr>"

section \<open>One call\<close>

record http_call =
  hc_URL :: string
  hc_Headers :: "(string \<times> string) list"
  hc_Body :: bytes

text \<open>A URL that makes no request, a transport error (of a cancelled context or not), a broken body, an answer.\<close>

datatype llm_outcome =
  LNoRequest string | LTransport bool string | LReadFailed string | LAnswer int string bytes

record environment =
  ev_net :: "http_call list \<Rightarrow> llm_outcome"
  ev_cancelled :: "http_call list \<Rightarrow> bool"
  ev_http_time :: "string \<Rightarrow> int option"
  ev_now :: int
  ev_get :: "string \<Rightarrow> string + int \<times> string \<times> bytes option"
  ev_zip :: unzip
  ev_elapsed :: int

text \<open>The text or an error, whether to try again, and the delay the provider asked for.\<close>

definition callProviderOnce ::
    "environment \<Rightarrow> LLMProvider \<Rightarrow> string \<Rightarrow> string \<Rightarrow> bytes \<Rightarrow> http_call list
     \<Rightarrow> ((string + string) \<times> bool \<times> int) \<times> http_call list" where
  "callProviderOnce env provider endpoint apiKey body s =
    (let s1 = s @ [\<lparr>hc_URL = endpoint, hc_Headers = pv_AuthHeaders provider apiKey, hc_Body = body\<rparr>] in
     case ev_net env s1 of
       LNoRequest err \<Rightarrow> ((Inl (''build http request: '' @ err), False, 0), s)
     | LTransport cancelled err \<Rightarrow> ((Inl (pv_Name provider @ '' api call: '' @ err), \<not> cancelled, 0), s1)
     | LReadFailed err \<Rightarrow> ((Inl (''read response: '' @ err), True, 0), s1)
     | LAnswer code retryAfter respBody \<Rightarrow>
         if code \<ge> 400 then
           ((Inl (pv_Name provider @ '' api returned '' @ format_int code @ '': '' @ truncate_text respBody 500),
             isRetryableStatus code,
             if code = 429 then parseRetryAfter (ev_http_time env) (ev_now env) retryAfter else 0), s1)
         else case pv_ParseResponse provider respBody of
                Inl err \<Rightarrow> ((Inl err, False, 0), s1)
              | Inr text' \<Rightarrow> ((Inr text', False, 0), s1))"

section \<open>Retries\<close>

definition maxAttempts :: nat where "maxAttempts = 3"

text \<open>The delays waited before the next attempt are returned too.\<close>

fun call_loop ::
    "environment \<Rightarrow> LLMProvider \<Rightarrow> string \<Rightarrow> string \<Rightarrow> bytes \<Rightarrow> nat list \<Rightarrow> http_call list
     \<Rightarrow> (string + string) \<times> int list \<times> http_call list" where
  "call_loop env provider endpoint apiKey body [] s = (Inl [], [], s)"
| "call_loop env provider endpoint apiKey body (attempt # later) s =
     (case callProviderOnce env provider endpoint apiKey body s of
        ((Inr result, _), s1) \<Rightarrow> (Inr result, [], s1)
      | ((Inl err, retryable, retryAfter), s1) \<Rightarrow>
          if \<not> retryable \<or> attempt = maxAttempts then (Inl err, [], s1)
          else
            let delay = (if retryAfter \<le> 0 then 2 ^ (attempt - 1) * second else retryAfter) in
            if ev_cancelled env s1 then (Inl ''context canceled'', [delay], s1)
            else (case call_loop env provider endpoint apiKey body later s1 of
                    (r, waits, s2) \<Rightarrow> (r, delay # waits, s2)))"

definition callProvider ::
    "environment \<Rightarrow> LLMProvider \<Rightarrow> string \<Rightarrow> string \<Rightarrow> bytes \<Rightarrow> http_call list
     \<Rightarrow> (string + string) \<times> int list \<times> http_call list" where
  "callProvider env provider endpoint apiKey body s =
    call_loop env provider endpoint apiKey body [1..<Suc maxAttempts] s"

section \<open>The extractor\<close>

record CloudExtractor =
  cl_providers :: "LLMProvider gomap"
  cl_apiKeys :: "string gomap"
  cl_defaultProvider :: string

record CloudExtractorOptions =
  co_AnthropicAPIKey :: string
  co_AnthropicModel :: string
  co_OpenAIAPIKey :: string
  co_OpenAIModel :: string
  co_DefaultProvider :: string

definition NewCloudExtractor ::
    "(bytes \<Rightarrow> anthropic_response option) \<Rightarrow> (bytes \<Rightarrow> openai_response option) \<Rightarrow> CloudExtractorOptions
     \<Rightarrow> string + CloudExtractor" where
  "NewCloudExtractor decode_a decode_o opts =
    (let dp = (if co_DefaultProvider opts = [] then ''anthropic'' else co_DefaultProvider opts) in
     if dp \<noteq> ''anthropic'' \<and> dp \<noteq> ''openai'' then Inl (''invalid default provider '' @ dp)
     else Inr \<lparr>cl_providers = [(''anthropic'', AnthropicProvider decode_a (co_AnthropicModel opts)),
                              (''openai'', OpenAIProvider decode_o (co_OpenAIModel opts))],
               cl_apiKeys = [(''anthropic'', co_AnthropicAPIKey opts), (''openai'', co_OpenAIAPIKey opts)],
               cl_defaultProvider = dp\<rparr>)"

definition inferMediaType :: "string \<Rightarrow> string" where
  "inferMediaType fileType =
    (if fileType = ''pdf'' then ''application/pdf''
     else if fileType = ''image'' then ''image/png''
     else if fileType = ''csv'' then ''text/csv''
     else if fileType = ''xml'' then ''application/xml''
     else if fileType = ''docx'' then ''application/vnd.openxmlformats-officedocument.wordprocessingml.document''
     else ''application/octet-stream'')"

definition providerHeaderName :: "string \<Rightarrow> string" where
  "providerHeaderName provider =
    (if provider = ''openai'' then ''OpenAI'' else if provider = ''anthropic'' then ''Anthropic'' else provider)"

text \<open>\<open>ev_get\<close> fetches a URL: an error, or status, content type and body (\<open>None\<close> when reading it fails).\<close>

definition cloud_downloadFile :: "environment \<Rightarrow> string \<Rightarrow> string \<Rightarrow> string + bytes \<times> string" where
  "cloud_downloadFile env url fileType =
    (case ev_get env url of
       Inl err \<Rightarrow> Inl err
     | Inr (code, contentType, body) \<Rightarrow>
         if code \<ge> 400 then Inl (''download failed with status '' @ format_int code)
         else case body of
                None \<Rightarrow> Inl ''read error''
              | Some data \<Rightarrow> Inr (data, if contentType = [] then inferMediaType fileType else contentType))"

definition cloud_failure :: "environment \<Rightarrow> string \<Rightarrow> extract_result" where
  "cloud_failure env msg =
    (Some \<lparr>xp_Success = False, xp_ErrorMessage = msg, xp_ExtractedJSON = [], xp_TemplateID = [],
           xp_CacheHit = False, xp_DurationMs = ev_elapsed env, xp_Segments = [], xp_DetectedLanguage = []\<rparr>, None)"

definition cloud_key :: "CloudExtractor \<Rightarrow> ExtractRequest \<Rightarrow> string \<Rightarrow> string" where
  "cloud_key c req providerName =
    (if xr_APIKey req \<noteq> [] then xr_APIKey req
     else case gm_get (cl_apiKeys c) providerName of None \<Rightarrow> [] | Some k \<Rightarrow> k)"

definition cloud_provider :: "CloudExtractor \<Rightarrow> ExtractRequest \<Rightarrow> string" where
  "cloud_provider c req = (if xr_Provider req = [] then cl_defaultProvider c else xr_Provider req)"

text \<open>The name in the message about an unknown provider is written without the escapes of \<open>%q\<close>.\<close>

text \<open>The file to send, with its type and media type: the bytes at hand or downloaded, DOCX as text.\<close>

definition cloud_document :: "environment \<Rightarrow> ExtractRequest \<Rightarrow> string + bytes \<times> string \<times> string" where
  "cloud_document env req =
    (case (if xr_FileBytes req \<noteq> [] then Inr (xr_FileBytes req, inferMediaType (xr_FileType req))
           else cloud_downloadFile env (xr_PresignedURL req) (xr_FileType req)) of
       Inl err \<Rightarrow> Inl (''file download: '' @ err)
     | Inr (fileBytes, mediaType) \<Rightarrow>
         if xr_FileType req = ''docx'' then
           (case ExtractDocxText (ev_zip env) fileBytes of
              Inl err \<Rightarrow> Inl (''docx extraction: '' @ err)
            | Inr t \<Rightarrow> Inr (t, ''text'', ''text/plain''))
         else Inr (fileBytes, xr_FileType req, mediaType))"

definition CloudExtract :: "environment \<Rightarrow> CloudExtractor \<Rightarrow> http_call list backend" where
  "CloudExtract env c req s =
    (if xr_FileType req = ''audio'' then
       (cloud_failure env ''audio extraction not supported by cloud backend'', s)
     else
       let providerName = cloud_provider c req in
       case gm_get (cl_providers c) providerName of
         None \<Rightarrow> (cloud_failure env (''unknown provider \"'' @ providerName @ ''\" (supported: anthropic, openai)''), s)
       | Some provider \<Rightarrow>
           let apiKey = cloud_key c req providerName in
           if apiKey = [] then
             (cloud_failure env (''no '' @ providerName @ '' API key '' @ [CHR 0xE2, CHR 0x80, CHR 0x94] @ '' provide one via X-''
                @ providerHeaderName providerName @ ''-Key header or set the server-side key''), s)
           else
             let model = (if xr_Model req = [] then pv_DefaultModel provider else xr_Model req) in
             case cloud_document env req of
               Inl err \<Rightarrow> (cloud_failure env err, s)
             | Inr (fileBytes, fileType, mediaType) \<Rightarrow>
                 (case pv_BuildRequest provider model fileType fileBytes mediaType of
                    (endpoint, body) \<Rightarrow>
                      (case callProvider env provider endpoint apiKey body s of
                         (Inl err, _, s1) \<Rightarrow> (cloud_failure env err, s1)
                       | (Inr extractedText, _, s1) \<Rightarrow>
                           ((Some \<lparr>xp_Success = True, xp_ErrorMessage = [], xp_ExtractedJSON = extractedText,
                              xp_TemplateID = [], xp_CacheHit = False, xp_DurationMs = ev_elapsed env,
                              xp_Segments = [], xp_DetectedLanguage = []\<rparr>, None), s1))))"

section \<open>What the retry loop does\<close>

text \<open>
  The outcomes that are worth another call, and the time to wait after the outcome \<open>x\<close> of the call with
  number \<open>i\<close>, counted from 0.
\<close>

definition retryable_outcome :: "llm_outcome \<Rightarrow> bool" where
  "retryable_outcome x =
    (case x of
       LNoRequest _ \<Rightarrow> False
     | LTransport cancelled _ \<Rightarrow> \<not> cancelled
     | LReadFailed _ \<Rightarrow> True
     | LAnswer code _ _ \<Rightarrow> code = 429 \<or> code div 100 = 5)"

definition retry_wait :: "environment \<Rightarrow> nat \<Rightarrow> llm_outcome \<Rightarrow> int" where
  "retry_wait env i x =
    (case x of
       LAnswer code h _ \<Rightarrow>
         if code = 429 \<and> 0 < parseRetryAfter (ev_http_time env) (ev_now env) h
         then parseRetryAfter (ev_http_time env) (ev_now env) h else 2 ^ i * second
     | _ \<Rightarrow> 2 ^ i * second)"



definition api_call :: "LLMProvider \<Rightarrow> string \<Rightarrow> string \<Rightarrow> bytes \<Rightarrow> http_call" where
  "api_call pv ep key body = \<lparr>hc_URL = ep, hc_Headers = pv_AuthHeaders pv key, hc_Body = body\<rparr>"

text \<open>One call: no request at all, a text, an error that ends the loop, or one that is worth a retry.\<close>

lemma callProviderOnce_cases:
  fixes env pv ep key body s
  defines "x \<equiv> ev_net env (s @ [api_call pv ep key body])"
  assumes "callProviderOnce env pv ep key body s = ((r, retry, ra), s1)"
  obtains (no_request) e where "x = LNoRequest e" "isl r" "\<not> retry" "s1 = s"
  | (answer) t code h b where "r = Inr t" "x = LAnswer code h b" "code < 400" "pv_ParseResponse pv b = Inr t"
      "s1 = s @ [api_call pv ep key body]"
  | (final) "isl r" "\<not> retry" "\<not> retryable_outcome x" "s1 = s @ [api_call pv ep key body]"
  | (retried) e where "r = Inl e" "retry" "retryable_outcome x" "s1 = s @ [api_call pv ep key body]"
      "\<forall>i. (if ra \<le> 0 then 2 ^ i * second else ra) = retry_wait env i x"
proof -
  have five: "code div 100 = (5::int) \<longleftrightarrow> 500 \<le> code \<and> code < 600" for code by presburger
  note once = assms(2) [unfolded callProviderOnce_def Let_def, folded api_call_def, folded x_def]
  show thesis
  proof (cases x)
    case (LNoRequest e)
    with once show thesis by (intro no_request) auto
  next
    case (LTransport cancelled e)
    show thesis
    proof (cases cancelled)
      case True
      with once LTransport show thesis by (intro final) (auto simp: retryable_outcome_def)
    next
      case False
      with once LTransport show thesis by (intro retried) (auto simp: retryable_outcome_def retry_wait_def)
    qed
  next
    case (LReadFailed e)
    with once show thesis by (intro retried) (auto simp: retryable_outcome_def retry_wait_def)
  next
    case (LAnswer code h b)
    show thesis
    proof (cases "code < 400")
      case True
      show thesis
      proof (cases "pv_ParseResponse pv b")
        case (Inl e)
        have "Inl e = r" "\<not> retry" "s1 = s @ [api_call pv ep key body]"
          using once LAnswer True by (simp_all add: Inl)
        with LAnswer True show thesis by (intro final) (auto simp: retryable_outcome_def five)
      next
        case (Inr t)
        with once LAnswer True show thesis by (intro answer [of t]) simp_all
      qed
    next
      case False
      show thesis
      proof (cases "isRetryableStatus code")
        case True
        from once LAnswer False have "\<exists>e. r = Inl e" by auto
        then obtain e where "r = Inl e" ..
        moreover have "\<forall>i. (if ra \<le> 0 then 2 ^ i * second else ra) = retry_wait env i x"
          using once LAnswer False by (auto simp: retry_wait_def)
        ultimately show thesis
          using once LAnswer False True
          by (intro retried) (auto simp: retryable_outcome_def isRetryableStatus_def five split: if_splits)
      next
        case no: False
        with once LAnswer False show thesis
          by (intro final) (auto simp: retryable_outcome_def isRetryableStatus_def five split: if_splits)
      qed
    qed
  qed
qed

text \<open>Where the calls \<open>cs\<close> and the waits lead that start with attempt \<open>a\<close> after the calls \<open>s\<close>.\<close>

definition disciplined ::
    "environment \<Rightarrow> LLMProvider \<Rightarrow> http_call \<Rightarrow> nat \<Rightarrow> http_call list \<Rightarrow> http_call list \<Rightarrow> int list
     \<Rightarrow> string + string \<Rightarrow> bool" where
  "disciplined env pv c a s cs waits r \<longleftrightarrow>
    length cs + a \<le> 4 \<and> length waits + a \<le> 3 \<and> length waits \<le> length cs \<and> length cs \<le> Suc (length waits)
    \<and> set cs \<subseteq> {c}
    \<and> (\<forall>i < length waits. retryable_outcome (ev_net env (s @ take (Suc i) cs))
        \<and> waits ! i = retry_wait env (a - 1 + i) (ev_net env (s @ take (Suc i) cs)))
    \<and> (case r of
         Inr t \<Rightarrow> cs \<noteq> [] \<and> (\<exists>code h b. ev_net env (s @ cs) = LAnswer code h b \<and> code < 400 \<and> pv_ParseResponse pv b = Inr t)
       | Inl _ \<Rightarrow> (\<exists>e. ev_net env (s @ cs @ [c]) = LNoRequest e)
           \<or> cs \<noteq> [] \<and> (length cs + a = 4 \<or> \<not> retryable_outcome (ev_net env (s @ cs)) \<or> ev_cancelled env (s @ cs)))"

lemma disciplined_step:
  assumes "disciplined env pv c (Suc a) (s @ [c]) cs waits r" "1 \<le> a" "retryable_outcome (ev_net env (s @ [c]))"
  shows "disciplined env pv c a s (c # cs) (retry_wait env (a - 1) (ev_net env (s @ [c])) # waits) r"
proof -
  obtain b where a: "a = Suc b" using assms(2) by (cases a) auto
  have waits: "retryable_outcome (ev_net env ((s @ [c]) @ take (Suc i) cs))"
    "waits ! i = retry_wait env (Suc b + i) (ev_net env ((s @ [c]) @ take (Suc i) cs))" if "i < length waits" for i
    using assms(1) that by (simp_all add: disciplined_def a)
  have "retryable_outcome (ev_net env (s @ take (Suc i) (c # cs)))
      \<and> (retry_wait env b (ev_net env (s @ [c])) # waits) ! i
        = retry_wait env (b + i) (ev_net env (s @ take (Suc i) (c # cs)))" if "i < Suc (length waits)" for i
  proof (cases i)
    case 0
    with assms(3) show ?thesis by simp
  next
    case (Suc j)
    with waits [of j] that show ?thesis by simp
  qed
  then show ?thesis using assms(1) by (cases r) (simp_all add: disciplined_def a, blast)
qed

lemma call_loop_disciplined:
  assumes "call_loop env pv ep key body [a..<4] s = (r, waits, s')" "1 \<le> a" "a \<le> 3"
  shows "\<exists>cs. s' = s @ cs \<and> disciplined env pv (api_call pv ep key body) a s cs waits r"
  using assms
proof (induction "3 - a" arbitrary: a s r waits s')
  case (0 a)
  let ?c = "api_call pv ep key body"
  from 0 have a: "a = 3" "[a..<4] = [3]" by (simp_all add: upt_rec)
  obtain r0 retry ra s1 where o: "callProviderOnce env pv ep key body s = ((r0, retry, ra), s1)"
    by (metis prod.collapse)
  have res: "r = r0" "waits = []" "s' = s1"
    using 0(2) unfolding a by (auto simp: o maxAttempts_def split: sum.splits)
  from o show ?case
  proof (cases rule: callProviderOnce_cases)
    case no_request
    then show ?thesis by (intro exI [of _ "[]"]) (auto simp: res disciplined_def a split: sum.split)
  next
    case answer
    then show ?thesis by (intro exI [of _ "[?c]"]) (auto simp: res disciplined_def a)
  next
    case final
    then show ?thesis by (intro exI [of _ "[?c]"]) (auto simp: res disciplined_def a split: sum.split)
  next
    case retried
    then show ?thesis by (intro exI [of _ "[?c]"]) (auto simp: res disciplined_def a)
  qed
next
  case (Suc n a)
  let ?c = "api_call pv ep key body"
  have a: "a < 3" "[a..<4] = a # [Suc a..<4]" using Suc.hyps(2) by (auto simp: upt_rec [of a])
  obtain r0 retry ra s1 where o: "callProviderOnce env pv ep key body s = ((r0, retry, ra), s1)"
    by (metis prod.collapse)
  note run = Suc.prems(1) [unfolded a(2)]
  from o show ?case
  proof (cases rule: callProviderOnce_cases)
    case no_request
    with run a show ?thesis
      by (intro exI [of _ "[]"]) (auto simp: o disciplined_def split: sum.splits)
  next
    case (answer t code h b)
    with run have "r = Inr t" "waits = []" "s' = s @ [?c]" by (simp_all add: o)
    with answer(2-4) a(1) show ?thesis by (intro exI [of _ "[?c]"]) (simp add: disciplined_def)
  next
    case final
    with run a show ?thesis
      by (intro exI [of _ "[?c]"]) (auto simp: o disciplined_def split: sum.splits)
  next
    case (retried e)
    let ?w = "retry_wait env (a - 1) (ev_net env (s @ [?c]))"
    show ?thesis
    proof (cases "ev_cancelled env s1")
      case True
      with retried run a Suc.prems(2) show ?thesis
        by (intro exI [of _ "[?c]"]) (auto simp: o maxAttempts_def disciplined_def Let_def)
    next
      case False
      obtain r2 w2 s2 where l: "call_loop env pv ep key body [Suc a..<4] s1 = (r2, w2, s2)" by (metis prod.collapse)
      have res: "r = r2" "s' = s2" "waits = ?w # w2"
        using retried run a(1) False l [unfolded retried(4)] by (simp_all add: o maxAttempts_def Let_def)
      have "\<exists>cs. s2 = s1 @ cs \<and> disciplined env pv ?c (Suc a) s1 cs w2 r2"
        using Suc.hyps(2) a l by (intro Suc.hyps(1)) auto
      then obtain cs where "s2 = s1 @ cs" "disciplined env pv ?c (Suc a) s1 cs w2 r2" by blast
      with disciplined_step [of env pv ?c a s cs w2 r2] retried(3,4) Suc.prems(2) show ?thesis
        by (intro exI [of _ "?c # cs"]) (auto simp: res)
    qed
  qed
qed

lemma callProvider_disciplined:
  "callProvider env pv ep key body s = (r, waits, s')
    \<Longrightarrow> \<exists>cs. s' = s @ cs \<and> disciplined env pv (api_call pv ep key body) 1 s cs waits r"
  by (rule call_loop_disciplined) (simp_all add: callProvider_def maxAttempts_def)

lemma callProvider_same_call:
  "callProvider env pv ep key body s = (r, waits, s')
    \<Longrightarrow> \<exists>cs. s' = s @ cs \<and> length cs \<le> 3 \<and> set cs \<subseteq> {api_call pv ep key body}"
  using callProvider_disciplined by (fastforce simp: disciplined_def)


text \<open>An audio file, a missing key and a file that cannot be had end the extraction before any call.\<close>

lemma CloudExtract_silent:
  assumes "xr_FileType req = ''audio'' \<or> cloud_key c req (cloud_provider c req) = []
      \<or> isl (cloud_document env req)"
  shows "snd (CloudExtract env c req s) = s"
proof (cases "cloud_document env req")
  case (Inl err)
  then show ?thesis by (simp add: CloudExtract_def Let_def split: option.split)
next
  case (Inr d)
  with assms have "xr_FileType req = ''audio'' \<or> cloud_key c req (cloud_provider c req) = []" by simp
  then show ?thesis by (elim disjE) (simp_all add: CloudExtract_def Let_def split: option.split)
qed

text \<open>An overloaded provider that recovers: 529 on the first call, a text on the second.\<close>

definition recovering :: environment where
  "recovering =
    \<lparr>ev_net = (\<lambda>s. if length s = 1 then LAnswer 529 [] ''busy'' else LAnswer 200 [] ''{}''),
     ev_cancelled = (\<lambda>s. False), ev_http_time = (\<lambda>h. None), ev_now = 0,
     ev_get = (\<lambda>u. Inl ''offline''), ev_zip = (\<lambda>b. None), ev_elapsed = 7\<rparr>"

definition plain_reply :: "bytes \<Rightarrow> anthropic_response option" where
  "plain_reply b = Some \<lparr>an_Content = [(''text'', b)], an_Error = None\<rparr>"


section \<open>The contract of a provider\<close>

text \<open>
  What the extractor relies on: a provider sends its requests to one address, whatever the document,
  and its headers carry the key.
\<close>

locale llm_provider =
  fixes pv :: LLMProvider and endpoint :: string
  assumes one_endpoint: "fst (pv_BuildRequest pv m t b mt) = endpoint"
    and carries_key: "pv_AuthHeaders pv k = pv_AuthHeaders pv k' \<Longrightarrow> k = k'"
begin

definition asked_model :: "ExtractRequest \<Rightarrow> string" where
  "asked_model req = (if xr_Model req = [] then pv_DefaultModel pv else xr_Model req)"

lemma extract_shape:
  assumes "gm_get (cl_providers c) (cloud_provider c req) = Some pv"
    and "CloudExtract env c req s = (r, s')"
  obtains "s' = s"
  | b t mt r' w where "cloud_key c req (cloud_provider c req) \<noteq> []" "cloud_document env req = Inr (b, t, mt)"
      "callProvider env pv endpoint (cloud_key c req (cloud_provider c req))
        (snd (pv_BuildRequest pv (asked_model req) t b mt)) s = (r', w, s')"
proof (cases "xr_FileType req = ''audio'' \<or> cloud_key c req (cloud_provider c req) = [] \<or> isl (cloud_document env req)")
  case True
  have "s' = s" using CloudExtract_silent [OF True, where s = s] by (simp add: assms(2))
  then show thesis by (rule that(1))
next
  case False
  let ?k = "cloud_key c req (cloud_provider c req)"
  from False obtain b t mt where d: "cloud_document env req = Inr (b, t, mt)"
    by (metis isl_def obj_sumE prod.collapse)
  obtain ep body where q: "pv_BuildRequest pv (asked_model req) t b mt = (ep, body)" by (metis prod.collapse)
  have ep: "ep = endpoint" using one_endpoint [of "asked_model req" t b mt] q by simp
  obtain r' w s1 where l: "callProvider env pv endpoint ?k body s = (r', w, s1)" by (metis prod.collapse)
  have "s' = s1"
    using assms(2) False d q l
    by (simp add: CloudExtract_def Let_def assms(1) ep asked_model_def split: sum.splits)
  with False d q l show thesis by (intro that(2)) auto
qed

lemma extract_calls:
  assumes "gm_get (cl_providers c) (cloud_provider c req) = Some pv"
    and "CloudExtract env c req s = (r, s')"
  shows "\<exists>cs. s' = s @ cs \<and> length cs \<le> 3 \<and> (cs \<noteq> [] \<longrightarrow> cloud_key c req (cloud_provider c req) \<noteq> [])
    \<and> (\<forall>call \<in> set cs. hc_URL call = endpoint
        \<and> hc_Headers call = pv_AuthHeaders pv (cloud_key c req (cloud_provider c req)))"
proof (rule extract_shape [OF assms])
  fix b t mt r' w
  let ?k = "cloud_key c req (cloud_provider c req)" and ?body = "snd (pv_BuildRequest pv (asked_model req) t b mt)"
  assume k: "?k \<noteq> []" and call: "callProvider env pv endpoint ?k ?body s = (r', w, s')"
  from callProvider_same_call [OF call] obtain cs where "s' = s @ cs" "length cs \<le> 3"
    "set cs \<subseteq> {api_call pv endpoint ?k ?body}" by auto
  moreover from this(3) have "\<forall>call \<in> set cs. hc_URL call = endpoint \<and> hc_Headers call = pv_AuthHeaders pv ?k"
    by (fastforce simp: api_call_def)
  ultimately show ?thesis using k by (intro exI [of _ cs]) simp
qed simp

end

interpretation anthropic: llm_provider "AnthropicProvider decode model" anthropicEndpoint for decode model
  by standard (simp_all add: AnthropicProvider_def anthropic_build_def anthropic_auth_def Let_def)

interpretation openai: llm_provider "OpenAIProvider decode model" openaiEndpoint for decode model
  by standard (simp_all add: OpenAIProvider_def openai_build_def openai_auth_def Let_def)

text \<open>The cloud backend as an extractor: it reports every failure in a response.\<close>

lemma CloudExtract_total: "snd (fst (CloudExtract env c req s)) = None \<and> fst (fst (CloudExtract env c req s)) \<noteq> None"
  by (auto simp: CloudExtract_def cloud_failure_def Let_def split: option.splits sum.splits prod.splits)

interpretation cloud: extractor "CloudExtract env c" for env c
  by standard (use CloudExtract_total in auto)

interpretation cloud_fallback: fallback_extractor "CloudExtract env c" primary for env c primary ..

lemma cloud_choice:
  assumes "NewCloudExtractor da db opts = Inr c"
  obtains "cloud_provider c req = ''anthropic''"
      "gm_get (cl_providers c) (cloud_provider c req) = Some (AnthropicProvider da (co_AnthropicModel opts))"
      "cloud_key c req ''anthropic'' = (if xr_APIKey req \<noteq> [] then xr_APIKey req else co_AnthropicAPIKey opts)"
  | "cloud_provider c req = ''openai''"
      "gm_get (cl_providers c) (cloud_provider c req) = Some (OpenAIProvider db (co_OpenAIModel opts))"
      "cloud_key c req ''openai'' = (if xr_APIKey req \<noteq> [] then xr_APIKey req else co_OpenAIAPIKey opts)"
  | "gm_get (cl_providers c) (cloud_provider c req) = None"
proof -
  have c: "cl_providers c = [(''anthropic'', AnthropicProvider da (co_AnthropicModel opts)),
                            (''openai'', OpenAIProvider db (co_OpenAIModel opts))]"
    and k: "cl_apiKeys c = [(''anthropic'', co_AnthropicAPIKey opts), (''openai'', co_OpenAIAPIKey opts)]"
    using assms(1) by (auto simp: NewCloudExtractor_def Let_def split: if_splits)
  show thesis
    by (cases "cloud_provider c req = ''anthropic''"; cases "cloud_provider c req = ''openai''")
       (rule that; simp add: c k cloud_key_def)+
qed

lemma CloudExtract_no_provider:
  assumes "gm_get (cl_providers c) (cloud_provider c req) = None" "CloudExtract env c req s = (r, s')"
  shows "s' = s"
  using assms by (auto simp: CloudExtract_def Let_def split: if_splits)

text \<open>
  C29: keys go where they belong. Every call that an extraction makes goes to the address of the chosen
  provider with the headers of that provider, at most three of them; the key is the one of the request
  if it brought one and else the server's key for this very provider. It is never empty: without a key
  there is no call.
\<close>

theorem key_goes_to_its_provider:
  assumes "NewCloudExtractor da db opts = Inr c" "CloudExtract env c req s = (r, s')"
  shows "\<exists>cs. s' = s @ cs \<and> length cs \<le> 3 \<and> (\<forall>call \<in> set cs. \<exists>key. key \<noteq> []
      \<and> (cloud_provider c req = ''anthropic'' \<and> hc_URL call = anthropicEndpoint \<and> hc_Headers call = anthropic_auth key
           \<and> key = (if xr_APIKey req \<noteq> [] then xr_APIKey req else co_AnthropicAPIKey opts)
         \<or> cloud_provider c req = ''openai'' \<and> hc_URL call = openaiEndpoint \<and> hc_Headers call = openai_auth key
           \<and> key = (if xr_APIKey req \<noteq> [] then xr_APIKey req else co_OpenAIAPIKey opts)))"
  using assms(1)
proof (rule cloud_choice [of da db opts c req])
  assume p: "cloud_provider c req = ''anthropic''" "cloud_key c req ''anthropic'' = (if xr_APIKey req \<noteq> [] then xr_APIKey req else co_AnthropicAPIKey opts)"
    and "gm_get (cl_providers c) (cloud_provider c req) = Some (AnthropicProvider da (co_AnthropicModel opts))"
  from anthropic.extract_calls [OF this(3) assms(2)] show ?thesis unfolding p by (auto simp: AnthropicProvider_def)
next
  assume p: "cloud_provider c req = ''openai''" "cloud_key c req ''openai'' = (if xr_APIKey req \<noteq> [] then xr_APIKey req else co_OpenAIAPIKey opts)"
    and "gm_get (cl_providers c) (cloud_provider c req) = Some (OpenAIProvider db (co_OpenAIModel opts))"
  from openai.extract_calls [OF this(3) assms(2)] show ?thesis unfolding p by (auto simp: OpenAIProvider_def)
qed (use CloudExtract_no_provider [OF _ assms(2)] in simp)

text \<open>A deployment with a key for Anthropic and a request that brings one for OpenAI.\<close>

definition one_key :: CloudExtractorOptions where
  "one_key = \<lparr>co_AnthropicAPIKey = ''server'', co_AnthropicModel = [], co_OpenAIAPIKey = [],
              co_OpenAIModel = [], co_DefaultProvider = []\<rparr>"

definition byok_request :: "string \<Rightarrow> string \<Rightarrow> ExtractRequest" where
  "byok_request provider k =
    \<lparr>xr_EventID = ''e'', xr_SourceID = ''s'', xr_FilePath = ''f'', xr_FileType = ''csv'', xr_PresignedURL = [],
     xr_FileBytes = ''a,b'', xr_APIKey = k, xr_Provider = provider, xr_Model = []\<rparr>"

definition openai_reply :: "bytes \<Rightarrow> openai_response option" where
  "openai_reply b = Some \<lparr>oa_OutputText = b, oa_Output = [], oa_Error = None\<rparr>"

lemmas cloud_evaluation =
  NewCloudExtractor_def CloudExtract_def cloud_provider_def cloud_key_def cloud_document_def cloud_failure_def
  byok_request_def AnthropicProvider_def OpenAIProvider_def openai_auth_def
  callProvider_def callProviderOnce_def maxAttempts_def recovering_def isRetryableStatus_def
  openai_parse_def openai_reply_def inferMediaType_def upt_rec

lemma key_goes_to_its_provider_witness:
  "\<exists>c. NewCloudExtractor plain_reply openai_reply one_key = Inr c
    \<and> (let s' = snd (CloudExtract recovering c (byok_request ''openai'' ''own'') []) in
        map hc_URL s' = [openaiEndpoint, openaiEndpoint]
        \<and> map hc_Headers s' = [openai_auth ''own'', openai_auth ''own''])"
proof -
  obtain c where c: "NewCloudExtractor plain_reply openai_reply one_key = Inr c"
    by (simp add: NewCloudExtractor_def one_key_def Let_def)
  let ?x = "CloudExtract recovering c (byok_request ''openai'' ''own'') []"
  have two: "length (snd ?x) = Suc (Suc 0)"
    using c by (auto simp: cloud_evaluation one_key_def Let_def split: prod.split)
  moreover from key_goes_to_its_provider [OF c, of recovering "byok_request ''openai'' ''own''" "[]" "fst ?x" "snd ?x"]
  have "\<forall>call \<in> set (snd ?x). hc_URL call = openaiEndpoint \<and> hc_Headers call = openai_auth ''own''"
    by (auto simp: cloud_provider_def byok_request_def)
  ultimately show ?thesis using c by (auto simp: Let_def length_Suc_conv)
qed

text \<open>
  A deployment without keys of its own cannot be billed. If the server holds no key and the request
  brings none, an extraction makes no call at all and reports a failure.
\<close>

theorem no_key_no_call:
  assumes "NewCloudExtractor da db opts = Inr c" "co_AnthropicAPIKey opts = []" "co_OpenAIAPIKey opts = []"
    and "xr_APIKey req = []" "CloudExtract env c req s = (r, s')"
  shows "s' = s \<and> \<not> succeeded r"
proof -
  have "cloud_key c req p = []" for p
    using assms(1-4) by (auto simp: NewCloudExtractor_def cloud_key_def Let_def split: if_splits)
  with assms(5) show ?thesis
    by (auto simp: CloudExtract_def cloud_failure_def succeeded_def Let_def split: if_splits option.splits)
qed

lemma no_key_no_call_witness:
  "\<exists>c. NewCloudExtractor plain_reply openai_reply (one_key\<lparr>co_AnthropicAPIKey := []\<rparr>) = Inr c
    \<and> (case CloudExtract recovering c (byok_request ''anthropic'' []) [] of (r, s') \<Rightarrow> s' = [] \<and> \<not> succeeded r)"
proof -
  obtain c where c: "NewCloudExtractor plain_reply openai_reply (one_key\<lparr>co_AnthropicAPIKey := []\<rparr>) = Inr c"
    by (simp add: NewCloudExtractor_def one_key_def Let_def)
  obtain r s' where x: "CloudExtract recovering c (byok_request ''anthropic'' []) [] = (r, s')"
    by (metis prod.collapse)
  from no_key_no_call [OF c _ _ _ x] have "s' = [] \<and> \<not> succeeded r" by (simp add: one_key_def byok_request_def)
  with c x show ?thesis by (intro exI [of _ c]) simp
qed

end
