(* ===== verification/Documents.thy ===== *)
theory Documents
  imports Cloud
begin

text \<open>
  What a provider reads out of a request of the cloud backend: the document that \<open>BuildRequest\<close> of the
  two providers wrote into it.
\<close>

section \<open>Reading base64\<close>

definition base64_value :: "char \<Rightarrow> nat" where
  "base64_value ch =
    (let k = of_char ch :: nat in
     if 65 \<le> k \<and> k \<le> 90 then k - 65 else if 97 \<le> k \<and> k \<le> 122 then k - 71
     else if 48 \<le> k \<and> k \<le> 57 then k + 4 else if k = 43 then 62 else 63)"

fun unbase64 :: "string \<Rightarrow> bytes" where
  "unbase64 (a # b # c # d # s) =
    (let w = base64_value a; x = base64_value b; y = base64_value c; z = base64_value d;
         first = char_of (w * 4 + x div 16); second' = char_of (x mod 16 * 16 + y div 4) in
     if c = CHR ''='' then [first]
     else if d = CHR ''='' then [first, second']
     else [first, second', char_of (y mod 4 * 64 + z)] @ unbase64 s)"
| "unbase64 _ = []"

lemma base64_value_char [simp]: "n < 64 \<Longrightarrow> base64_value (base64_char n) = n"
  by (cases "n < 26"; cases "n < 52"; cases "n < 62")
     (auto simp: base64_value_def base64_char_def Let_def)

lemma base64_char_no_pad [simp]: "n < 64 \<Longrightarrow> base64_char n \<noteq> CHR ''=''"
proof
  assume "n < 64" "base64_char n = CHR ''=''"
  then have "(of_char (base64_char n) :: nat) = 61" by simp
  with \<open>n < 64\<close> show False by (simp add: base64_char_def split: if_splits)
qed

text \<open>The high bits of a byte, and the six bits that two bytes share.\<close>

lemma high_bits [simp]:
  "(of_char c :: nat) div 4 < 64" "(of_char c :: nat) div 16 < 16" "(of_char c :: nat) div 64 < 4"
  by (simp_all add: less_mult_imp_div_less)

lemma shared_bits [simp]:
  "(of_char a :: nat) mod 4 * 16 + of_char b div 16 < 64"
  "(of_char a :: nat) mod 16 * 4 + of_char b div 64 < 64"
  "(of_char a :: nat) mod 4 * 16 < 64" "(of_char a :: nat) mod 16 * 4 < 64"
proof -
  have four: "(of_char a :: nat) mod 4 < 4" and sixteen: "(of_char a :: nat) mod 16 < 16" by simp_all
  then show "(of_char a :: nat) mod 4 * 16 < 64" "(of_char a :: nat) mod 16 * 4 < 64" by simp_all
  from four high_bits(2) [of b] show "(of_char a :: nat) mod 4 * 16 + of_char b div 16 < 64" by linarith
  from sixteen high_bits(3) [of b] show "(of_char a :: nat) mod 16 * 4 + of_char b div 64 < 64" by linarith
qed

lemma unbase64_base64: "unbase64 (base64 s) = s"
  by (induction s rule: base64.induct) (simp_all add: Let_def)

text \<open>Base64 and the media types of files are ASCII, so that no encoding changes them.\<close>

lemma ascii_Nil [simp]: "ascii []" and ascii_Cons: "ascii (c # s) \<longleftrightarrow> (of_char c :: nat) < 0x80 \<and> ascii s"
  and ascii_append [simp]: "ascii (s @ t) \<longleftrightarrow> ascii s \<and> ascii t"
  by (simp_all add: ascii_def)

lemma ascii_base64_char [simp]: "n < 64 \<Longrightarrow> (of_char (base64_char n) :: nat) < 0x80"
  by (cases "n < 26"; cases "n < 52"; cases "n < 62") (auto simp: base64_char_def)

lemma ascii_base64 [simp]: "ascii (base64 b)"
  by (induction b rule: base64.induct) (simp_all add: Let_def ascii_Cons)

lemma inferred_type [simp]: "ascii (inferMediaType t)" "CHR '','' \<notin> set (inferMediaType t)"
  by (simp_all add: inferMediaType_def ascii_Cons)

section \<open>Reading a request\<close>

definition at_key :: "string \<Rightarrow> json_out \<Rightarrow> json_out option" where
  "at_key k j = (case j of OObj m \<Rightarrow> map_of m k | _ \<Rightarrow> None)"

definition first_item :: "json_out \<Rightarrow> json_out option" where
  "first_item j = (case j of OArr (x # _) \<Rightarrow> Some x | _ \<Rightarrow> None)"

definition string_at :: "string \<Rightarrow> json_out \<Rightarrow> string option" where
  "string_at k j = (case at_key k j of Some (OStr t) \<Rightarrow> Some t | _ \<Rightarrow> None)"

text \<open>The first block of the first message.\<close>

definition first_block :: "string \<Rightarrow> json_out \<Rightarrow> json_out option" where
  "first_block messages body =
    Option.bind (Option.bind (Option.bind (at_key messages body) first_item) (at_key ''content'')) first_item"

text \<open>What a provider is given to read: a PDF, a picture with its media type, or a text.\<close>

datatype document = Pdf bytes | Image string bytes | Plain string

text \<open>A text that was left out of its block is empty.\<close>

definition plain_block :: "json_out \<Rightarrow> document option" where
  "plain_block block =
    (case at_key ''text'' block of None \<Rightarrow> Some (Plain []) | Some _ \<Rightarrow> map_option Plain (string_at ''text'' block))"

definition anthropic_document :: "json_out \<Rightarrow> document option" where
  "anthropic_document block =
    (let data = Option.bind (at_key ''source'' block) (\<lambda>source.
           if string_at ''type'' source = Some ''base64'' then map_option unbase64 (string_at ''data'' source) else None);
         media = Option.bind (at_key ''source'' block) (string_at ''media_type'')
     in case string_at ''type'' block of
          None \<Rightarrow> None
        | Some kind \<Rightarrow>
            if kind = ''document'' then (if media = Some ''application/pdf'' then map_option Pdf data else None)
            else if kind = ''image'' then Option.bind media (\<lambda>mt. map_option (Image mt) data)
            else if kind = ''text'' then plain_block block
            else None)"

definition anthropic_read :: "bytes \<Rightarrow> document option" where
  "anthropic_read body = Option.bind (Option.bind (read_json body) (first_block ''messages'')) anthropic_document"

text \<open>A data URL in base64: its media type and its bytes.\<close>

definition data_url :: "string \<Rightarrow> (string \<times> bytes) option" where
  "data_url url =
    (let intro = takeWhile (\<lambda>ch. ch \<noteq> CHR '','') url; n = length intro - 7 in
     if take 5 intro = ''data:'' \<and> drop n intro = '';base64'' \<and> length intro < length url
     then Some (drop 5 (take n intro), unbase64 (drop (Suc (length intro)) url)) else None)"

definition openai_document :: "json_out \<Rightarrow> document option" where
  "openai_document block =
    (case string_at ''type'' block of
       None \<Rightarrow> None
     | Some kind \<Rightarrow>
         if kind = ''input_file'' then
           (case Option.bind (string_at ''file_data'' block) data_url of
              None \<Rightarrow> None
            | Some (mt, data) \<Rightarrow> if mt = ''application/pdf'' then Some (Pdf data) else None)
         else if kind = ''input_image'' then
           map_option (\<lambda>(mt, data). Image mt data) (Option.bind (string_at ''image_url'' block) data_url)
         else if kind = ''input_text'' then plain_block block
         else None)"

definition openai_read :: "bytes \<Rightarrow> document option" where
  "openai_read body = Option.bind (Option.bind (read_json body) (first_block ''input'')) openai_document"

lemma data_url_base64:
  assumes "CHR '','' \<notin> set mt"
  shows "data_url (''data:'' @ mt @ '';base64,'' @ base64 b) = Some (mt, b)"
proof -
  have "takeWhile (\<lambda>ch. ch \<noteq> CHR '','') (''data:'' @ mt @ '';base64'' @ CHR '','' # base64 b) = ''data:'' @ mt @ '';base64''"
    using assms by (simp add: takeWhile_append)
  then show ?thesis by (simp add: data_url_def unbase64_base64)
qed

text \<open>The document for a file: a text arrives as valid UTF-8.\<close>

definition document_for :: "string \<Rightarrow> bytes \<Rightarrow> string \<Rightarrow> document" where
  "document_for t b mt =
    (if t = ''pdf'' then Pdf b else if t = ''image'' then Image mt b else Plain (to_valid b))"

text \<open>A provider whose requests carry the document so that \<open>read\<close> finds it again.\<close>

locale document_provider = llm_provider +
  fixes read :: "bytes \<Rightarrow> document option"
  assumes reads: "ascii mt \<Longrightarrow> CHR '','' \<notin> set mt
    \<Longrightarrow> read (snd (pv_BuildRequest pv m t b mt)) = Some (document_for t b mt)"
begin

lemma extract_documents:
  assumes "gm_get (cl_providers c) (cloud_provider c req) = Some pv"
    and "CloudExtract env c req s = (r, s')" "xr_FileBytes req \<noteq> []"
  shows "\<exists>cs. s' = s @ cs \<and> (\<forall>call \<in> set cs. \<exists>t b mt. cloud_document env req = Inr (b, t, mt)
    \<and> read (hc_Body call) = Some (document_for t b mt))"
proof (rule extract_shape [OF assms(1,2)])
  fix b t mt r' w
  let ?k = "cloud_key c req (cloud_provider c req)" and ?body = "snd (pv_BuildRequest pv (asked_model req) t b mt)"
  assume d: "cloud_document env req = Inr (b, t, mt)" and call: "callProvider env pv endpoint ?k ?body s = (r', w, s')"
  have "mt = inferMediaType (xr_FileType req) \<or> mt = ''text/plain''"
    using d assms(3) by (auto simp: cloud_document_def split: if_splits sum.splits)
  then have "ascii mt" "CHR '','' \<notin> set mt" by (auto simp: ascii_Cons)
  then have "read ?body = Some (document_for t b mt)" by (rule reads)
  moreover from callProvider_same_call [OF call] obtain cs where "s' = s @ cs"
    "set cs \<subseteq> {api_call pv endpoint ?k ?body}" by auto
  ultimately show ?thesis using d by (intro exI [of _ cs]) (fastforce simp: api_call_def)
qed simp

end

lemmas request_reading = first_block_def at_key_def first_item_def string_at_def plain_block_def omit_empty_def
  read_marshal ascii_Cons document_for_def

interpretation anthropic_documents: document_provider "AnthropicProvider decode model" anthropicEndpoint anthropic_read
  for decode model
  by unfold_locales
    (auto simp: AnthropicProvider_def anthropic_build_def anthropic_encoding anthropic_read_def
      anthropic_document_def request_reading unbase64_base64 Let_def)

interpretation openai_documents: document_provider "OpenAIProvider decode model" openaiEndpoint openai_read
  for decode model
proof unfold_locales
  fix mt m t b
  assume mt: "ascii mt" "CHR '','' \<notin> set mt"
  have pdf: "data_url (''data:application/pdf;base64,'' @ base64 b) = Some (''application/pdf'', b)"
    using data_url_base64 [of "''application/pdf''" b] by simp
  note urls = data_url_base64 [OF mt(2), of b, simplified] pdf [simplified]
  consider "t = ''pdf''" | "t = ''image''" | "t \<noteq> ''pdf''" "t \<noteq> ''image''" by blast
  then show "openai_read (snd (pv_BuildRequest (OpenAIProvider decode model) m t b mt)) = Some (document_for t b mt)"
    by cases (use mt urls in \<open>simp_all add: OpenAIProvider_def openai_build_def openai_encoding openai_read_def
      openai_document_def request_reading Let_def\<close>)
qed

text \<open>
  C28: the provider gets the file. When the backend is given the bytes of a file, the JSON body of every
  request that it makes, retries included, holds as the first block of its first message the document: for
  the type pdf a file block with exactly these bytes under the media type application/pdf, for the type
  image a picture block with exactly these bytes under the media type image/png, whatever the format of
  the picture, for docx a text block with the text extracted from the
  file, and for every other type a text block with the bytes as text, in which a byte that belongs to no
  UTF-8 sequence has become U+FFFD (so a CSV or XML file in another encoding does not arrive as it is).
\<close>

theorem document_sent_intact:
  assumes "NewCloudExtractor da db opts = Inr c" "CloudExtract env c req s = (r, s')" "xr_FileBytes req \<noteq> []"
  shows "\<exists>cs. s' = s @ cs \<and> (\<forall>call \<in> set cs. \<exists>doc.
      (if cloud_provider c req = ''anthropic'' then anthropic_read else openai_read) (hc_Body call) = Some doc
      \<and> (if xr_FileType req = ''pdf'' then doc = Pdf (xr_FileBytes req)
         else if xr_FileType req = ''image'' then doc = Image ''image/png'' (xr_FileBytes req)
         else if xr_FileType req = ''docx''
         then \<exists>t. ExtractDocxText (ev_zip env) (xr_FileBytes req) = Inr t \<and> doc = Plain (to_valid t)
         else doc = Plain (to_valid (xr_FileBytes req))))"
proof -
  have doc: "if xr_FileType req = ''pdf'' then document_for t b mt = Pdf (xr_FileBytes req)
         else if xr_FileType req = ''image'' then document_for t b mt = Image ''image/png'' (xr_FileBytes req)
         else if xr_FileType req = ''docx''
         then \<exists>t'. ExtractDocxText (ev_zip env) (xr_FileBytes req) = Inr t' \<and> document_for t b mt = Plain (to_valid t')
         else document_for t b mt = Plain (to_valid (xr_FileBytes req))"
    if "cloud_document env req = Inr (b, t, mt)" for t b mt
    using that assms(3) by (auto simp: cloud_document_def document_for_def inferMediaType_def split: if_splits sum.splits)
  show ?thesis
    using assms(1)
  proof (rule cloud_choice [of da db opts c req])
    assume p: "cloud_provider c req = ''anthropic''"
      and "gm_get (cl_providers c) (cloud_provider c req) = Some (AnthropicProvider da (co_AnthropicModel opts))"
    from anthropic_documents.extract_documents [OF this(2) assms(2,3)] doc show ?thesis unfolding p by fastforce
  next
    assume p: "cloud_provider c req = ''openai''"
      and "gm_get (cl_providers c) (cloud_provider c req) = Some (OpenAIProvider db (co_OpenAIModel opts))"
    from openai_documents.extract_documents [OF this(2) assms(2,3)] doc show ?thesis unfolding p by fastforce
  qed (use CloudExtract_no_provider [OF _ assms(2)] in simp)
qed

text \<open>A PDF for OpenAI, whose first request meets an error and is made again.\<close>

theorem document_sent_intact_witness:
  "\<exists>c. NewCloudExtractor plain_reply openai_reply one_key = Inr c
    \<and> map (openai_read \<circ> hc_Body) (snd (CloudExtract recovering c ((byok_request ''openai'' ''own'')\<lparr>xr_FileType := ''pdf''\<rparr>) []))
      = [Some (Pdf ''a,b''), Some (Pdf ''a,b'')]"
proof -
  obtain c where c: "NewCloudExtractor plain_reply openai_reply one_key = Inr c"
    by (simp add: NewCloudExtractor_def one_key_def Let_def)
  let ?req = "(byok_request ''openai'' ''own'')\<lparr>xr_FileType := ''pdf''\<rparr>"
  let ?x = "CloudExtract recovering c ?req []"
  have two: "length (snd ?x) = Suc (Suc 0)"
    using c by (auto simp: cloud_evaluation one_key_def Let_def split: prod.split)
  from document_sent_intact [OF c, of recovering ?req "[]" "fst ?x" "snd ?x"]
  have "\<forall>call \<in> set (snd ?x). openai_read (hc_Body call) = Some (Pdf ''a,b'')"
    by (auto simp: cloud_provider_def byok_request_def)
  with two c show ?thesis by (auto simp: length_Suc_conv)
qed

end
