(* ===== verification/Bridge.thy ===== *)
theory Bridge
  imports Store Queue Cloud Orchestrator Config
begin

text \<open>
  \<open>cmd/extractor-bridge/main.go\<close>: the service between the extraction queue and the delivery queue. It
  downloads the file of an event, stores it, has it extracted and puts the event, with or without the
  extracted data, into the delivery queue. The HTTP client, the object store, the parser of URLs and the
  JSON codec are fields of \<open>bridge_env\<close>; a panic of the handler is the value \<open>None\<close>.
\<close>

section \<open>Downloading\<close>

text \<open>
  What the HTTP client does with a URL: no request or no response, or a status with the bytes that
  arrive, which end regularly or (a message) with an error.
\<close>

datatype fetch = NoFetchRequest string | NoFetchResponse string | Fetched int bytes "string option"

text \<open>
  \<open>io.ReadAll\<close> over a limit of \<open>maxSize + 1\<close> bytes: once the limit is reached the reader ends, and an
  error that comes later is not seen. The addition is one of \<open>int64\<close>.
\<close>

definition downloadFile :: "fetch \<Rightarrow> int \<Rightarrow> string + bytes" where
  "downloadFile f maxSize =
    (case f of
       NoFetchRequest err \<Rightarrow> Inl (''create request: '' @ err)
     | NoFetchResponse err \<Rightarrow> Inl (''http get: '' @ err)
     | Fetched code body broken \<Rightarrow>
         if code \<noteq> 200 then Inl (''http status '' @ format_int code)
         else
           let limit = nat (wrap64 (maxSize + 1)); data = take limit body in
           if length body < limit \<and> broken \<noteq> None
           then Inl (''read body: '' @ the broken)
           else if int (length data) > maxSize
           then Inl (''file exceeds max size '' @ format_int maxSize @ '' bytes'')
           else Inr data)"

section \<open>Paths\<close>

text \<open>\<open>path.Base\<close>: the last element of a path, without the slashes at its end.\<close>

definition path_base :: "string \<Rightarrow> string" where
  "path_base p =
    (if p = [] then ''.''
     else
       let q = rev (dropWhile (\<lambda>c. c = CHR ''/'') (rev p));
           b = rev (takeWhile (\<lambda>c. c \<noteq> CHR ''/'') (rev q))
       in if b = [] then ''/'' else b)"

text \<open>\<open>parse_url\<close> gives the path of a URL, or \<open>None\<close> when \<open>url.Parse\<close> fails.\<close>

definition extractFilename :: "(string \<Rightarrow> string option) \<Rightarrow> string \<Rightarrow> string \<Rightarrow> string" where
  "extractFilename parse_url fileURL eventID =
    (case parse_url fileURL of
       None \<Rightarrow> eventID
     | Some p \<Rightarrow>
         let base = path_base p in
         if base = [] \<or> base = ''.'' \<or> base = ''/'' then eventID else base)"

definition two_digits :: "int \<Rightarrow> string" where
  "two_digits n = (if 0 \<le> n \<and> n < 10 then CHR ''0'' # format_int n else format_int n)"

definition object_path :: "string \<Rightarrow> int \<times> int \<times> int \<Rightarrow> string \<Rightarrow> string \<Rightarrow> string" where
  "object_path sourceID date eventID filename =
    (case date of (y, m, d) \<Rightarrow>
       sourceID @ ''/'' @ format_int y @ ''/'' @ two_digits m @ ''/'' @ two_digits d @ ''/'' @ eventID
         @ ''/'' @ filename)"

section \<open>One event\<close>

record bridge_env =
  be_fetch :: "string \<Rightarrow> fetch"
  be_maxSize :: int
  be_zip :: unzip
  be_url :: "string \<Rightarrow> string option"
  be_date :: "int \<times> int \<times> int"
  be_upload :: "string \<Rightarrow> bytes \<Rightarrow> string option"
  be_presign :: "string \<Rightarrow> string + string"
  be_parse :: "bytes \<Rightarrow> json option"
  be_print :: "json \<Rightarrow> bytes option"
  be_elapsed :: int

text \<open>The stores, the queues, the objects uploaded so far and the state of the extraction backend.\<close>

record 's bridge =
  br_pg :: pg
  br_rd :: redis
  br_files :: "(string \<times> bytes) list"
  br_ext :: 's

definition base_record :: "WebhookEvent \<Rightarrow> ExtractionRecord" where
  "base_record event =
    \<lparr>er_EventID = ev_ID event, er_SourceID = ev_SourceID event, er_FileURL = ev_FileURL event,
     er_MinIOPath = [], er_FileType = [], er_TemplateID = [], er_CacheHit = False,
     er_ExtractedData = None, er_DurationMs = 0, er_Success = False, er_ErrorMessage = []\<rparr>"

text \<open>Errors of the insertion and of the push are only logged.\<close>

definition record_extraction :: "ExtractionRecord \<Rightarrow> 's bridge \<Rightarrow> 's bridge" where
  "record_extraction r s = s\<lparr>br_pg := snd (InsertExtractionRecord r (br_pg s))\<rparr>"

definition enqueueForDelivery :: "WebhookEvent \<Rightarrow> 's bridge \<Rightarrow> 's bridge" where
  "enqueueForDelivery event s = s\<lparr>br_rd := snd (Enqueue QueueDelivery event (br_rd s))\<rparr>"

text \<open>The end of every branch that fails: record the failure and deliver the event without data.\<close>

definition give_up ::
    "bridge_env \<Rightarrow> string \<Rightarrow> ExtractionRecord \<Rightarrow> WebhookEvent \<Rightarrow> 's bridge \<Rightarrow> 's bridge" where
  "give_up env msg r event s =
    enqueueForDelivery event
      (record_extraction (r\<lparr>er_Success := False, er_ErrorMessage := msg, er_DurationMs := be_elapsed env\<rparr>) s)"

definition detected_type :: "bridge_env \<Rightarrow> bytes \<Rightarrow> string" where
  "detected_type env fileData =
    (let fileType = DetectFileType (take 16 fileData) in
     if fileType = ''zip'' then ClassifyZip (be_zip env) fileData else fileType)"

definition extracted_data :: "bridge_env \<Rightarrow> string \<Rightarrow> json gomap option" where
  "extracted_data env extractedJSON =
    (case unmarshal_map (be_parse env) (StripCodeFences extractedJSON) of
       None \<Rightarrow> Some [(''raw'', JStr extractedJSON)]
     | Some m \<Rightarrow> m)"

definition map_value :: "json gomap option \<Rightarrow> json" where
  "map_value m = (case m of None \<Rightarrow> JNull | Some m' \<Rightarrow> JObj m')"

text \<open>Writing into the \<open>nil\<close> map that a body \<open>null\<close> leaves panics.\<close>

definition merge_extracted ::
    "bridge_env \<Rightarrow> json gomap option \<Rightarrow> WebhookEvent \<Rightarrow> WebhookEvent option" where
  "merge_extracted env extractedData event =
    (case unmarshal_map (be_parse env) (ev_RawBody event) of
       None \<Rightarrow> Some event
     | Some None \<Rightarrow> None
     | Some (Some payload) \<Rightarrow>
         (case be_print env (JObj (gm_set ''extracted'' (map_value extractedData) payload)) of
            None \<Rightarrow> Some event
          | Some merged \<Rightarrow> Some (event\<lparr>ev_RawBody := merged\<rparr>)))"

definition template_of :: "ExtractResponse \<Rightarrow> WebhookEvent \<Rightarrow> string \<Rightarrow> json gomap option \<Rightarrow> Template" where
  "template_of resp event fileType extractedData =
    \<lparr>tm_TemplateID = xp_TemplateID resp, tm_SourceID = ev_SourceID event, tm_FileType = fileType,
     tm_FieldPositionMap = extractedData, tm_SampleEventID = ev_ID event, tm_UseCount = 0\<rparr>"

text \<open>Steps 6 to 8: merge the data into the payload, record the success, keep the template, deliver.\<close>

definition deliver_extracted ::
    "bridge_env \<Rightarrow> ExtractResponse \<Rightarrow> string \<Rightarrow> ExtractionRecord \<Rightarrow> WebhookEvent \<Rightarrow> 's bridge
     \<Rightarrow> 's bridge option" where
  "deliver_extracted env resp fileType r event s =
    (let extractedData = extracted_data env (xp_ExtractedJSON resp) in
     case merge_extracted env extractedData
            (event\<lparr>ev_ExtractedData := extractedData, ev_ExtractionMs := xp_DurationMs resp\<rparr>) of
       None \<Rightarrow> None
     | Some event' \<Rightarrow>
         let s1 = record_extraction (r\<lparr>er_Success := True, er_ExtractedData := extractedData,
                    er_TemplateID := xp_TemplateID resp, er_CacheHit := xp_CacheHit resp,
                    er_DurationMs := be_elapsed env\<rparr>) s;
             s2 = (if xp_TemplateID resp \<noteq> []
                   then s1\<lparr>br_pg := snd (UpsertTemplate (template_of resp event' fileType extractedData) (br_pg s1))\<rparr>
                   else s1)
         in Some (enqueueForDelivery event' s2))"

definition extract_request :: "WebhookEvent \<Rightarrow> string \<Rightarrow> string \<Rightarrow> string \<Rightarrow> bytes \<Rightarrow> ExtractRequest" where
  "extract_request event objectPath fileType presignedURL fileData =
    \<lparr>xr_EventID = ev_ID event, xr_SourceID = ev_SourceID event, xr_FilePath = objectPath,
     xr_FileType = fileType, xr_PresignedURL = presignedURL, xr_FileBytes = fileData,
     xr_APIKey = ev_APIKeyOverride event, xr_Provider = ev_ProviderOverride event,
     xr_Model = ev_ModelOverride event\<rparr>"

text \<open>Step 5: the call of the backend. Reading the response \<open>nil\<close> panics.\<close>

definition call_backend ::
    "bridge_env \<Rightarrow> 's backend \<Rightarrow> ExtractRequest \<Rightarrow> ExtractionRecord \<Rightarrow> WebhookEvent \<Rightarrow> 's bridge
     \<Rightarrow> 's bridge option" where
  "call_backend env ext req r event s =
    (case ext req (br_ext s) of
       ((_, Some err), x) \<Rightarrow> Some (give_up env (''grpc failed: '' @ err) r event (s\<lparr>br_ext := x\<rparr>))
     | ((None, None), x) \<Rightarrow> None
     | ((Some resp, None), x) \<Rightarrow>
         if \<not> xp_Success resp then Some (give_up env (xp_ErrorMessage resp) r event (s\<lparr>br_ext := x\<rparr>))
         else deliver_extracted env resp (xr_FileType req) r event (s\<lparr>br_ext := x\<rparr>))"

definition processEvent ::
    "bridge_env \<Rightarrow> 's backend \<Rightarrow> WebhookEvent \<Rightarrow> 's bridge \<Rightarrow> 's bridge option" where
  "processEvent env ext event s =
    (let r = base_record event in
     case downloadFile (be_fetch env (ev_FileURL event)) (be_maxSize env) of
       Inl err \<Rightarrow> Some (give_up env (''download failed: '' @ err) r event s)
     | Inr fileData \<Rightarrow>
         let fileType = detected_type env fileData; r1 = r\<lparr>er_FileType := fileType\<rparr> in
         if fileType = ''unknown'' then Some (give_up env ''unknown file type'' r1 event s)
         else
           let filename = extractFilename (be_url env) (ev_FileURL event) (ev_ID event);
               objectPath = object_path (ev_SourceID event) (be_date env) (ev_ID event) filename in
           case be_upload env objectPath fileData of
             Some err \<Rightarrow> Some (give_up env (''minio upload failed: '' @ err) r1 event s)
           | None \<Rightarrow>
               let s1 = s\<lparr>br_files := br_files s @ [(objectPath, fileData)]\<rparr>;
                   r2 = r1\<lparr>er_MinIOPath := objectPath\<rparr>; event1 = event\<lparr>ev_FileStorePath := objectPath\<rparr> in
               case be_presign env objectPath of
                 Inl err \<Rightarrow> Some (give_up env (''presign failed: '' @ err) r2 event1 s1)
               | Inr presignedURL \<Rightarrow>
                   call_backend env ext
                     (extract_request event1 objectPath fileType presignedURL fileData) r2 event1 s1)"

section \<open>The worker\<close>

text \<open>One round of a worker; \<open>None\<close> is a panic, which ends the process.\<close>

definition bridge_worker :: "bridge_env \<Rightarrow> 's backend \<Rightarrow> 's bridge \<Rightarrow> 's bridge option" where
  "bridge_worker env ext s =
    (case Dequeue False QueueExtraction (br_rd s) of
       (Inl _, q) \<Rightarrow> Some (s\<lparr>br_rd := q\<rparr>)
     | (Inr None, q) \<Rightarrow> Some (s\<lparr>br_rd := q\<rparr>)
     | (Inr (Some event), q) \<Rightarrow> processEvent env ext event (s\<lparr>br_rd := q\<rparr>))"

text \<open>One tick of the scaler: the number of workers after it. The configured maximum becomes an \<open>int32\<close>.\<close>

definition bridge_scaler :: "ExtractorBridgeConfig \<Rightarrow> 32 word \<Rightarrow> redis \<Rightarrow> 32 word \<times> redis" where
  "bridge_scaler cfg current q =
    (case QueueLen QueueExtraction q of
       (None, q1) \<Rightarrow> (current, q1)
     | (Some depth, q1) \<Rightarrow>
         (current + scale_up (int depth) (bc_QueueScaleThreshold cfg) current (word_of_int (bc_MaxWorkers cfg)), q1))"

section \<open>The choice of the backend\<close>

definition cloud_options :: "ExtractorConfig \<Rightarrow> CloudExtractorOptions" where
  "cloud_options cfg =
    \<lparr>co_AnthropicAPIKey = ec_AnthropicAPIKey cfg, co_AnthropicModel = ec_AnthropicModel cfg,
     co_OpenAIAPIKey = ec_OpenAIAPIKey cfg, co_OpenAIModel = ec_OpenAIModel cfg,
     co_DefaultProvider = ec_CloudProvider cfg\<rparr>"

text \<open>
  \<open>cloud\<close> is \<open>NewCloudExtractor\<close> with its result as a backend and \<open>local\<close> the outcome of
  \<open>NewLocalExtractor\<close>. The names compared are ASCII, so the lower case of ASCII letters is enough.
\<close>

definition buildExtractorBackend ::
    "(CloudExtractorOptions \<Rightarrow> string + 's backend) \<Rightarrow> string + 's backend \<Rightarrow> ExtractorConfig \<Rightarrow> string
     \<Rightarrow> string + 's backend" where
  "buildExtractorBackend cloud local cfg kind =
    (let k = to_lower kind in
     if k = ''cloud'' then cloud (cloud_options cfg)
     else if k = ''local'' \<or> k = [] then local
     else Inl (''unknown extractor backend '' @ kind))"

definition newExtractor ::
    "(CloudExtractorOptions \<Rightarrow> string + 's backend) \<Rightarrow> string + 's backend \<Rightarrow> ExtractorConfig
     \<Rightarrow> string + 's backend" where
  "newExtractor cloud local cfg =
    (case buildExtractorBackend cloud local cfg (ec_Backend cfg) of
       Inl err \<Rightarrow> Inl err
     | Inr primary \<Rightarrow>
         let fallbackKind = to_lower (ec_Fallback cfg) in
         if fallbackKind = [] \<or> fallbackKind = ''none'' then Inr primary
         else if fallbackKind = to_lower (ec_Backend cfg) then Inr primary
         else case buildExtractorBackend cloud local cfg fallbackKind of
                Inl _ \<Rightarrow> Inr primary
              | Inr fallback \<Rightarrow> Inr (FallbackExtract primary fallback))"

section \<open>What is downloaded\<close>

text \<open>
  Only whole files within the limit. A download succeeds exactly when the server answered 200 and
  the body arrived without an error and is not longer than the limit, and then the file is that body:
  neither a file cut at the limit nor one cut by a broken connection is ever extracted.
\<close>

theorem downloadFile_iff:
  assumes "0 \<le> maxSize" "maxSize < max64"
  shows "downloadFile f maxSize = Inr data \<longleftrightarrow> f = Fetched 200 data None \<and> int (length data) \<le> maxSize"
proof -
  have w: "wrap64 (maxSize + 1) = maxSize + 1" using assms by (intro wrap64_id) (auto simp: min64_def max64_def)
  have t: "take (nat (maxSize + 1)) b = b" if "length b < nat (maxSize + 1)" for b :: bytes
    using that by simp
  have l: "int (length (take (nat (maxSize + 1)) b)) > maxSize" if "\<not> length b < nat (maxSize + 1)" for b :: bytes
    using that assms by (simp add: min_def)
  show ?thesis
  proof (cases f)
    case (Fetched code body broken)
    then show ?thesis
      using l [of body] t [of body] assms
      by (cases "length body < nat (maxSize + 1)") (auto simp: downloadFile_def w Let_def)
  qed (auto simp: downloadFile_def)
qed

theorem downloadFile_iff_witness:
  "downloadFile (Fetched 200 ''%PDF'' None) 4 = Inr ''%PDF'' \<and> downloadFile (Fetched 200 ''%PDF'' None) 3 \<noteq> Inr ''%PDF''
    \<and> downloadFile (Fetched 200 ''%PD'' (Some ''EOF'')) 4 \<noteq> Inr ''%PD''"
  using downloadFile_iff [of 4 "Fetched 200 ''%PDF'' None" "''%PDF''"]
    downloadFile_iff [of 3 "Fetched 200 ''%PDF'' None" "''%PDF''"]
    downloadFile_iff [of 4 "Fetched 200 ''%PD'' (Some ''EOF'')" "''%PD''"]
  by (simp add: max64_def)

section \<open>What becomes of an event\<close>

text \<open>
  The event has been settled: one record of the extraction was added, one event was put into the
  delivery queue, and it is the one that came in, except for its file path and what a successful
  extraction adds.
\<close>

definition settled :: "WebhookEvent \<Rightarrow> 's bridge \<Rightarrow> 's bridge \<Rightarrow> ExtractionRecord \<Rightarrow> WebhookEvent \<Rightarrow> bool" where
  "settled event s s' r event' \<longleftrightarrow>
    pg_extractions (br_pg s') = pg_extractions (br_pg s) @ [r]
    \<and> queue_entries (br_rd s') = (queue_entries (br_rd s))(QueueDelivery :=
        queue_entries (br_rd s) QueueDelivery @ [Some (wire event')])
    \<and> pg_up (br_pg s') \<and> queue_up (br_rd s')
    \<and> er_EventID r = ev_ID event \<and> er_SourceID r = ev_SourceID event \<and> er_FileURL r = ev_FileURL event
    \<and> event' = event\<lparr>ev_FileStorePath := ev_FileStorePath event', ev_RawBody := ev_RawBody event',
        ev_ExtractedData := ev_ExtractedData event', ev_ExtractionMs := ev_ExtractionMs event'\<rparr>
    \<and> (\<not> er_Success r \<longrightarrow> event' = event\<lparr>ev_FileStorePath := ev_FileStorePath event'\<rparr>)"

lemma record_extraction_up:
  "pg_up (br_pg s) \<Longrightarrow> pg_extractions (br_pg (record_extraction r s)) = pg_extractions (br_pg s) @ [r]
    \<and> pg_up (br_pg (record_extraction r s)) \<and> br_rd (record_extraction r s) = br_rd s"
  by (simp add: record_extraction_def InsertExtractionRecord_def)

lemma enqueueForDelivery_up:
  "queue_up (br_rd s) \<Longrightarrow> queue_entries (br_rd (enqueueForDelivery e s)) =
      (queue_entries (br_rd s))(QueueDelivery := queue_entries (br_rd s) QueueDelivery @ [Some (wire e)])
    \<and> queue_up (br_rd (enqueueForDelivery e s)) \<and> br_pg (enqueueForDelivery e s) = br_pg s"
  using rq.enq_entries [of "br_rd s" QueueDelivery e] rq.enq_up [of "br_rd s" QueueDelivery e]
  by (simp add: enqueueForDelivery_def)

lemma UpsertTemplate_up: "pg_up p \<Longrightarrow> pg_up (snd (UpsertTemplate t p))
    \<and> pg_extractions (snd (UpsertTemplate t p)) = pg_extractions p"
  by (simp add: UpsertTemplate_def)

lemma give_up_settled:
  assumes "pg_up (br_pg s)" "queue_up (br_rd s)"
    and "er_EventID r = ev_ID event" "er_SourceID r = ev_SourceID event" "er_FileURL r = ev_FileURL event"
  shows "\<exists>r'. settled event s (give_up env msg r (event\<lparr>ev_FileStorePath := p\<rparr>) s) r'
    (event\<lparr>ev_FileStorePath := p\<rparr>) \<and> \<not> er_Success r' \<and> er_ErrorMessage r' = msg"
proof -
  let ?r = "r\<lparr>er_Success := False, er_ErrorMessage := msg, er_DurationMs := be_elapsed env\<rparr>"
  from record_extraction_up [OF assms(1), of ?r] assms(2)
    enqueueForDelivery_up [of "record_extraction ?r s" "event\<lparr>ev_FileStorePath := p\<rparr>"] assms(3-)
  show ?thesis by (intro exI [of _ ?r]) (simp add: settled_def give_up_def)
qed

text \<open>The success: the record and the event carry the same data, merged into the body where that is possible.\<close>

definition merged_body :: "bridge_env \<Rightarrow> WebhookEvent \<Rightarrow> ExtractionRecord \<Rightarrow> WebhookEvent \<Rightarrow> bool" where
  "merged_body env event r event' \<longleftrightarrow>
    ev_ExtractedData event' = er_ExtractedData r
    \<and> (case be_parse env (ev_RawBody event) of
         Some (JObj m) \<Rightarrow>
           (case be_print env (JObj (gm_set ''extracted'' (map_value (er_ExtractedData r)) m)) of
              Some b \<Rightarrow> ev_RawBody event' = b
            | None \<Rightarrow> ev_RawBody event' = ev_RawBody event)
       | _ \<Rightarrow> ev_RawBody event' = ev_RawBody event)"

lemma merged_body_event:
  assumes "ev_RawBody e = ev_RawBody e'"
  shows "merged_body env e = merged_body env e'"
  by (intro ext) (unfold merged_body_def assms, rule refl)

lemma merge_extracted_some:
  assumes "be_parse env (ev_RawBody event) \<noteq> Some JNull" "ev_ExtractedData event = er_ExtractedData r"
  shows "\<exists>b. merge_extracted env (er_ExtractedData r) event = Some (event\<lparr>ev_RawBody := b\<rparr>)
    \<and> merged_body env event r (event\<lparr>ev_RawBody := b\<rparr>)"
  using assms
  by (cases "be_parse env (ev_RawBody event)")
     (auto simp: merge_extracted_def merged_body_def unmarshal_map_def split: json.split option.split)

lemma deliver_extracted_settled:
  assumes "pg_up (br_pg s)" "queue_up (br_rd s)" "be_parse env (ev_RawBody event) \<noteq> Some JNull"
    and "er_EventID r = ev_ID event" "er_SourceID r = ev_SourceID event" "er_FileURL r = ev_FileURL event"
  shows "\<exists>s' r' event'. deliver_extracted env resp ft r (event\<lparr>ev_FileStorePath := p\<rparr>) s = Some s'
    \<and> settled event s s' r' event' \<and> er_Success r' \<and> merged_body env event r' event'"
proof -
  let ?d = "extracted_data env (xp_ExtractedJSON resp)"
  let ?e = "event\<lparr>ev_FileStorePath := p, ev_ExtractedData := ?d, ev_ExtractionMs := xp_DurationMs resp\<rparr>"
  let ?r = "r\<lparr>er_Success := True, er_ExtractedData := ?d, er_TemplateID := xp_TemplateID resp,
    er_CacheHit := xp_CacheHit resp, er_DurationMs := be_elapsed env\<rparr>"
  have "\<exists>b. merge_extracted env (er_ExtractedData ?r) ?e = Some (?e\<lparr>ev_RawBody := b\<rparr>)
      \<and> merged_body env ?e ?r (?e\<lparr>ev_RawBody := b\<rparr>)"
    by (rule merge_extracted_some) (simp_all add: assms(3))
  then obtain b where m: "merge_extracted env ?d ?e = Some (?e\<lparr>ev_RawBody := b\<rparr>)"
    and "merged_body env ?e ?r (?e\<lparr>ev_RawBody := b\<rparr>)" by auto
  then have b: "merged_body env event ?r (?e\<lparr>ev_RawBody := b\<rparr>)" using merged_body_event [of ?e event env] by simp
  let ?s1 = "record_extraction ?r s"
  let ?s2 = "if xp_TemplateID resp \<noteq> []
    then ?s1\<lparr>br_pg := snd (UpsertTemplate (template_of resp (?e\<lparr>ev_RawBody := b\<rparr>) ft ?d) (br_pg ?s1))\<rparr> else ?s1"
  have s2: "pg_extractions (br_pg ?s2) = pg_extractions (br_pg s) @ [?r]" "pg_up (br_pg ?s2)" "br_rd ?s2 = br_rd s"
    using record_extraction_up [OF assms(1), of ?r] UpsertTemplate_up [of "br_pg ?s1"] by auto
  have "deliver_extracted env resp ft r (event\<lparr>ev_FileStorePath := p\<rparr>) s
      = Some (enqueueForDelivery (?e\<lparr>ev_RawBody := b\<rparr>) ?s2)"
    using m by (simp add: deliver_extracted_def Let_def)
  moreover have "settled event s (enqueueForDelivery (?e\<lparr>ev_RawBody := b\<rparr>) ?s2) ?r (?e\<lparr>ev_RawBody := b\<rparr>)"
    using s2 enqueueForDelivery_up [of ?s2 "?e\<lparr>ev_RawBody := b\<rparr>"] assms(2,4-) by (simp add: settled_def)
  ultimately show ?thesis using b by (intro exI [of _ ?r] exI conjI) auto
qed

section \<open>The contract of a backend\<close>

text \<open>
  A backend that never returns neither a response nor an error keeps the handler from panicking; the
  body \<open>null\<close>, which the orchestrator does not send here, is the other way to a panic.
\<close>

context extractor
begin

lemma backend_settles:
  assumes "pg_up (br_pg s)" "queue_up (br_rd s)" "be_parse env (ev_RawBody event) \<noteq> Some JNull"
    and "er_EventID r = ev_ID event" "er_SourceID r = ev_SourceID event" "er_FileURL r = ev_FileURL event"
  shows "\<exists>s' r' event'. call_backend env ext req r (event\<lparr>ev_FileStorePath := p\<rparr>) s = Some s'
    \<and> settled event s s' r' event' \<and> (er_Success r' \<longrightarrow> merged_body env event r' event')"
proof -
  obtain resp err x where c: "ext req (br_ext s) = ((resp, err), x)" by (metis prod.collapse)
  let ?s = "s\<lparr>br_ext := x\<rparr>"
  have up: "pg_up (br_pg ?s)" "queue_up (br_rd ?s)" using assms by simp_all
  have st: "settled event ?s = settled event s" by (simp add: settled_def fun_eq_iff)
  show ?thesis
  proof (cases err)
    case (Some e)
    then have "call_backend env ext req r (event\<lparr>ev_FileStorePath := p\<rparr>) s
        = Some (give_up env (''grpc failed: '' @ e) r (event\<lparr>ev_FileStorePath := p\<rparr>) ?s)"
      using c by (cases resp) (simp_all add: call_backend_def)
    with give_up_settled [OF up assms(4-6), of env "''grpc failed: '' @ e" p] st show ?thesis by auto
  next
    case None
    then obtain rp where rp: "resp = Some rp" using answers [of req "br_ext s"] c by auto
    show ?thesis
    proof (cases "xp_Success rp")
      case True
      with deliver_extracted_settled [OF up assms(3-6), of rp "xr_FileType req" p] c st None rp show ?thesis
        by (auto simp: call_backend_def)
    next
      case False
      with give_up_settled [OF up assms(4-6), of env "xp_ErrorMessage rp" p] c st None rp show ?thesis
        by (auto simp: call_backend_def)
    qed
  qed
qed

lemma process_settles:
  assumes up: "pg_up (br_pg s)" "queue_up (br_rd s)" and nn: "be_parse env (ev_RawBody event) \<noteq> Some JNull"
  shows "\<exists>s' r event'. processEvent env ext event s = Some s'
    \<and> settled event s s' r event' \<and> (er_Success r \<longrightarrow> merged_body env event r event')"
proof -
  let ?P = "\<lambda>res. \<exists>s' r event'. res = Some s' \<and> settled event s s' r event'
    \<and> (er_Success r \<longrightarrow> merged_body env event r event')"
  have g: "?P (Some (give_up env msg r (event\<lparr>ev_FileStorePath := p\<rparr>) t))"
    if "br_pg t = br_pg s" "br_rd t = br_rd s" "er_EventID r = ev_ID event"
      "er_SourceID r = ev_SourceID event" "er_FileURL r = ev_FileURL event" for msg r p t
  proof -
    from that have "settled event t = settled event s" by (simp add: settled_def fun_eq_iff)
    with give_up_settled [of t r event env msg p] that up show ?thesis by auto
  qed
  have g0: "?P (Some (give_up env msg r event s))"
    if "er_EventID r = ev_ID event" "er_SourceID r = ev_SourceID event" "er_FileURL r = ev_FileURL event" for msg r
    using g [OF refl refl that, of msg "ev_FileStorePath event"] by simp
  show ?thesis
  proof (cases "downloadFile (be_fetch env (ev_FileURL event)) (be_maxSize env)")
    case (Inl err)
    then have "processEvent env ext event s = Some (give_up env (''download failed: '' @ err) (base_record event) event s)"
      by (simp add: processEvent_def Let_def)
    with g0 [of "base_record event"] show ?thesis by (simp add: base_record_def)
  next
    case (Inr fileData)
    let ?ft = "detected_type env fileData"
    let ?path = "object_path (ev_SourceID event) (be_date env) (ev_ID event)
      (extractFilename (be_url env) (ev_FileURL event) (ev_ID event))"
    let ?r1 = "base_record event\<lparr>er_FileType := ?ft\<rparr>"
    let ?s1 = "s\<lparr>br_files := br_files s @ [(?path, fileData)]\<rparr>"
    have r1: "er_EventID ?r1 = ev_ID event" "er_SourceID ?r1 = ev_SourceID event" "er_FileURL ?r1 = ev_FileURL event"
      by (simp_all add: base_record_def)
    show ?thesis
    proof (cases "?ft = ''unknown'' \<or> be_upload env ?path fileData \<noteq> None")
      case True
      then obtain msg where "processEvent env ext event s = Some (give_up env msg ?r1 event s)"
        using Inr by (cases "?ft = ''unknown''") (auto simp: processEvent_def Let_def)
      with g0 [OF r1] show ?thesis by simp
    next
      case False
      then have u: "?ft \<noteq> ''unknown''" "be_upload env ?path fileData = None" by auto
      show ?thesis
      proof (cases "be_presign env ?path")
        case (Inl err)
        then have "processEvent env ext event s = Some (give_up env (''presign failed: '' @ err)
            (?r1\<lparr>er_MinIOPath := ?path\<rparr>) (event\<lparr>ev_FileStorePath := ?path\<rparr>) ?s1)"
          using Inr u by (simp add: processEvent_def Let_def)
        with g [of ?s1 "?r1\<lparr>er_MinIOPath := ?path\<rparr>" _ ?path] r1 show ?thesis by simp
      next
        case (Inr purl)
        have st: "settled event ?s1 = settled event s" by (simp add: settled_def fun_eq_iff)
        from backend_settles [of ?s1 env event "?r1\<lparr>er_MinIOPath := ?path\<rparr>"
            "extract_request (event\<lparr>ev_FileStorePath := ?path\<rparr>) ?path ?ft purl fileData" ?path] up nn r1 st
          Inr u \<open>downloadFile _ _ = Inr fileData\<close>
        show ?thesis by (simp add: processEvent_def Let_def)
      qed
    qed
  qed
qed

end

section \<open>The backends of a deployment\<close>

context fallback_extractor
begin

lemma contract: "extractor (FallbackExtract primary fallback)"
  by (rule fb.extractor_axioms)

end

lemma extractor_fallback: "extractor fallback \<Longrightarrow> extractor (FallbackExtract primary fallback)"
  by (rule fallback_extractor.contract [OF fallback_extractor.intro])

lemma newExtractor_contract:
  assumes "\<And>opts b. cloud opts = Inr b \<Longrightarrow> extractor b" "\<And>b. local = Inr b \<Longrightarrow> extractor b"
    and "newExtractor cloud local cfg = Inr b"
  shows "extractor b"
proof -
  have built: "buildExtractorBackend cloud local cfg kind = Inr b' \<Longrightarrow> extractor b'" for kind b'
    using assms(1,2) by (auto simp: buildExtractorBackend_def Let_def split: if_splits)
  show ?thesis
    using assms(3) built extractor_fallback
    by (auto simp: newExtractor_def Let_def split: sum.splits if_splits)
qed

text \<open>The two backends that \<open>buildExtractorBackend\<close> constructs.\<close>

definition cloud_backend ::
    "environment \<Rightarrow> (bytes \<Rightarrow> anthropic_response option) \<Rightarrow> (bytes \<Rightarrow> openai_response option)
     \<Rightarrow> CloudExtractorOptions \<Rightarrow> string + http_call list backend" where
  "cloud_backend ce decode_a decode_o opts =
    (case NewCloudExtractor decode_a decode_o opts of Inl err \<Rightarrow> Inl err | Inr c \<Rightarrow> Inr (CloudExtract ce c))"

lemma deployed_contract:
  assumes "newExtractor (cloud_backend ce da db) (Inr (LocalExtract grpc)) cfg = Inr ext"
  shows "extractor ext"
  by (rule newExtractor_contract [OF _ _ assms])
     (auto simp: cloud_backend_def split: sum.splits intro: cloud.extractor_axioms local.extractor_axioms)

text \<open>
  C6: every event that reaches the bridge is settled. With any backend that a configuration can build,
  however the download, the object store and the backend behave, the handler returns without a panic
  (unless the body is the literal \<open>null\<close>), and while the stores answer it adds exactly one extraction
  record and puts exactly one event into the delivery queue: the event that came, unchanged up to its file path when
  the extraction failed, and with the recorded data merged into its body under \<open>extracted\<close> when it succeeded.
\<close>

theorem bridge_settles_event:
  assumes "newExtractor (cloud_backend ce da db) (Inr (LocalExtract grpc)) cfg = Inr ext"
    and "pg_up (br_pg s)" "queue_up (br_rd s)" "be_parse env (ev_RawBody event) \<noteq> Some JNull"
  shows "\<exists>s' r event'. processEvent env ext event s = Some s' \<and> settled event s s' r event'
    \<and> (er_Success r \<longrightarrow> merged_body env event r event')"
  by (rule extractor.process_settles [OF deployed_contract [OF assms(1)] assms(2-4)])

text \<open>What the orchestrator sends to extraction has an object for a body.\<close>

lemma routed_to_extraction:
  "route_event parse e = (QueueExtraction, e1) \<Longrightarrow>
    e1 = e\<lparr>ev_FileURL := ev_FileURL e1\<rparr> \<and> (\<exists>m. parse (ev_RawBody e1) = Some (JObj m))"
  by (auto simp: route_event_def unmarshal_map_def map_entries_def split: option.splits json.splits if_splits)

text \<open>The tables that the bridge does not write, whatever the stores answer.\<close>

definition untouched :: "'s bridge \<Rightarrow> 's bridge \<Rightarrow> bool" where
  "untouched s s' \<longleftrightarrow> pg_dests (br_pg s') = pg_dests (br_pg s) \<and> pg_rules (br_pg s') = pg_rules (br_pg s)
    \<and> pg_attempts (br_pg s') = pg_attempts (br_pg s) \<and> pg_dlq (br_pg s') = pg_dlq (br_pg s)"

lemma record_extraction_untouched [simp]: "untouched s (record_extraction r t) = untouched s t"
  by (simp add: untouched_def record_extraction_def InsertExtractionRecord_def pg_exec_def pg_tick_def)

lemma enqueueForDelivery_untouched [simp]: "untouched s (enqueueForDelivery e t) = untouched s t"
  by (simp add: untouched_def enqueueForDelivery_def)

lemma give_up_untouched [simp]: "untouched s (give_up env msg r e t) = untouched s t"
  by (simp add: give_up_def)

lemma upsert_untouched [simp]: "untouched s (t\<lparr>br_pg := snd (UpsertTemplate tm (br_pg t))\<rparr>) = untouched s t"
  by (simp add: untouched_def UpsertTemplate_def pg_exec_def pg_tick_def)

lemma fields_untouched [simp]:
  "untouched s (t\<lparr>br_ext := x\<rparr>) = untouched s t" "untouched s (t\<lparr>br_files := fs\<rparr>) = untouched s t"
  "untouched s (t\<lparr>br_rd := q\<rparr>) = untouched s t" "untouched s s"
  by (simp_all add: untouched_def)

lemma call_backend_untouched:
  "call_backend env ext req r e t = Some s' \<Longrightarrow> untouched s t \<Longrightarrow> untouched s s'"
  by (auto simp: call_backend_def deliver_extracted_def Let_def split: prod.splits option.splits if_splits)

lemma processEvent_untouched: "processEvent env ext e t = Some s' \<Longrightarrow> untouched s t \<Longrightarrow> untouched s s'"
  by (auto simp: processEvent_def Let_def split: sum.splits option.splits if_splits intro: call_backend_untouched)

lemma bridge_worker_untouched: "bridge_worker env ext s = Some s' \<Longrightarrow> untouched s s'"
  by (auto simp: bridge_worker_def split: prod.splits sum.splits option.splits
      dest!: processEvent_untouched [where s = s])

section \<open>From the incoming queue to the delivery queue\<close>

lemma file_event_forwarded:
  assumes ext: "newExtractor (cloud_backend ce da db) (Inr (LocalExtract grpc)) cfg = Inr ext"
    and up: "pg_up (br_pg s)" "queue_up (br_rd s)"
    and q: "queue_entries (br_rd s) QueueIncoming = Some e # rest" "queue_entries (br_rd s) QueueExtraction = []"
    and route: "fst (route_event (be_parse env) e) = QueueExtraction"
  shows "\<exists>s' e'. bridge_worker env ext (s\<lparr>br_rd := orchestrator_worker (be_parse env) (br_rd s)\<rparr>) = Some s'
    \<and> queue_entries (br_rd s') = (queue_entries (br_rd s))(QueueIncoming := rest,
        QueueDelivery := queue_entries (br_rd s) QueueDelivery @ [Some e'])
    \<and> ev_ID e' = to_valid (ev_ID e) \<and> ev_SourceID e' = to_valid (ev_SourceID e)
    \<and> ev_ReceivedAt e' = ev_ReceivedAt e \<and> ev_Headers e' = wire_map (wire_map (ev_Headers e))
    \<and> pg_up (br_pg s') \<and> queue_up (br_rd s')"
proof -
  let ?rd1 = "orchestrator_worker (be_parse env) (br_rd s)"
  obtain e1 where r: "route_event (be_parse env) e = (QueueExtraction, e1)" using route by (metis prod.collapse)
  have ne: "fst (route_event (be_parse env) x) \<noteq> QueueIncoming" for x by (rule route_target)
  have up1: "queue_up ?rd1" unfolding orchestrator_worker_def by (rule rq.forward_up [OF up(2)])
  have q1: "queue_entries ?rd1 = (queue_entries (br_rd s))(QueueIncoming := rest, QueueExtraction := [Some (wire e1)])"
    using rq.forward_entries [OF up(2) ne] q r
    by (auto simp: orchestrator_worker_def fun_eq_iff routed_def List.map_filter_def)
  obtain q2 where d: "Dequeue False QueueExtraction ?rd1 = (Inr (Some (wire e1)), q2)"
    using rq.deq_result [OF up1, of QueueExtraction] q1 by (metis (no_types, lifting) fun_upd_same list.simps(5) option.simps(5) prod.collapse)
  have q2: "queue_up q2" "queue_entries q2 = (queue_entries (br_rd s))(QueueIncoming := rest, QueueExtraction := [])"
    using rq.deq_up [OF up1, of QueueExtraction] rq.deq_entries [OF up1, of QueueExtraction] d q1 by simp_all
  have e1: "e1 = e\<lparr>ev_FileURL := ev_FileURL e1\<rparr>" "be_parse env (ev_RawBody (wire e1)) \<noteq> Some JNull"
    using routed_to_extraction [OF r] by auto
  obtain s' r' e' where p: "processEvent env ext (wire e1) (s\<lparr>br_rd := q2\<rparr>) = Some s'"
    and st: "settled (wire e1) (s\<lparr>br_rd := q2\<rparr>) s' r' e'"
    using extractor.process_settles [OF deployed_contract [OF ext], of "s\<lparr>br_rd := q2\<rparr>" env "wire e1"] up q2 e1
    by auto
  from st have e': "e' = wire e1\<lparr>ev_FileStorePath := ev_FileStorePath e', ev_RawBody := ev_RawBody e',
      ev_ExtractedData := ev_ExtractedData e', ev_ExtractionMs := ev_ExtractionMs e'\<rparr>"
    by (simp add: settled_def)
  have w: "ev_ID e' = to_valid (ev_ID e)" "ev_SourceID e' = to_valid (ev_SourceID e)"
    "ev_ReceivedAt e' = ev_ReceivedAt e" "ev_Headers e' = wire_map (ev_Headers e)"
    by (subst e', subst e1(1), simp add: wire_def)+
  have "queue_entries (br_rd s') = (queue_entries (br_rd s))(QueueIncoming := rest,
        QueueDelivery := queue_entries (br_rd s) QueueDelivery @ [Some (wire e')])"
    using st q2 q by (auto simp: settled_def fun_eq_iff)
  moreover have "pg_up (br_pg s')" "queue_up (br_rd s')" using st by (simp_all add: settled_def)
  moreover have "bridge_worker env ext (s\<lparr>br_rd := ?rd1\<rparr>) = Some s'"
    using d p by (simp add: bridge_worker_def)
  ultimately show ?thesis using w
    by (intro exI [of _ s'] exI [of _ "wire e'"]) (simp add: wire_def to_valid_idem)
qed

section \<open>A run\<close>

text \<open>A deployment with the cloud backend, an event that names a PDF, and a model that answers at the second try.\<close>

definition demo_bridge_env :: bridge_env where
  "demo_bridge_env =
    \<lparr>be_fetch = (\<lambda>u. Fetched 200 ''%PDF-1.7'' None), be_maxSize = 100, be_zip = (\<lambda>b. None),
     be_url = (\<lambda>u. Some ''/a.pdf''), be_date = (2026, 1, 5), be_upload = (\<lambda>p b. None),
     be_presign = (\<lambda>p. Inr ''http://minio/a.pdf''),
     be_parse = (\<lambda>b. if b = ''{}'' then Some (JObj []) else Some (JObj [(''file_url'', JStr ''u'')])),
     be_print = (\<lambda>j. Some ''merged''), be_elapsed = 3\<rparr>"

definition demo_config :: ExtractorConfig where
  "demo_config = \<lparr>ec_Backend = ''cloud'', ec_Fallback = ''local'', ec_GRPCAddr = [],
    ec_GRPCTimeoutSeconds = 0, ec_AnthropicAPIKey = co_AnthropicAPIKey one_key,
    ec_AnthropicModel = co_AnthropicModel one_key, ec_OpenAIAPIKey = co_OpenAIAPIKey one_key,
    ec_OpenAIModel = co_OpenAIModel one_key, ec_CloudProvider = co_DefaultProvider one_key,
    ec_CloudTimeoutSeconds = 0\<rparr>"

definition demo_bridge :: "string list \<Rightarrow> http_call list bridge" where
  "demo_bridge ids =
    \<lparr>br_pg = fresh_pg ''s'', br_rd = redis_of [(QueueIncoming, map (\<lambda>i. EventText (plain i ''s'' ''body'')) ids)],
     br_files = [], br_ext = []\<rparr>"

lemma demo_backend:
  "\<exists>b. newExtractor (cloud_backend recovering plain_reply openai_reply) (Inr (LocalExtract (\<lambda>r s. (Inl ''down'', s))))
      demo_config = Inr b"
  by (simp add: newExtractor_def buildExtractorBackend_def cloud_backend_def demo_config_def cloud_options_def one_key_def
      NewCloudExtractor_def to_lower_def lower_char_def Let_def)

theorem bridge_settles_event_witness:
  "\<exists>b s' r e'. newExtractor (cloud_backend recovering plain_reply openai_reply)
        (Inr (LocalExtract (\<lambda>r s. (Inl ''down'', s)))) demo_config = Inr b
    \<and> processEvent demo_bridge_env b (plain ''e'' ''s'' ''body'') (demo_bridge []) = Some s'
    \<and> pg_extractions (br_pg s') = [r] \<and> queue_entries (br_rd s') QueueDelivery = [Some (wire e')]
    \<and> ev_ID e' = ''e''"
proof -
  from demo_backend obtain b where b: "newExtractor (cloud_backend recovering plain_reply openai_reply)
      (Inr (LocalExtract (\<lambda>r s. (Inl ''down'', s)))) demo_config = Inr b" by blast
  have "pg_up (br_pg (demo_bridge []))" "queue_up (br_rd (demo_bridge []))"
    "be_parse demo_bridge_env (ev_RawBody (plain ''e'' ''s'' ''body'')) \<noteq> Some JNull"
    by (simp_all add: demo_bridge_def demo_bridge_env_def plain_def)
  from bridge_settles_event [OF b this] obtain s' r e'
    where p: "processEvent demo_bridge_env b (plain ''e'' ''s'' ''body'') (demo_bridge []) = Some s'"
      and st: "settled (plain ''e'' ''s'' ''body'') (demo_bridge []) s' r e'" by blast
  from st have x: "pg_extractions (br_pg s') = [r]" "queue_entries (br_rd s') QueueDelivery = [Some (wire e')]"
    by (simp_all add: settled_def demo_bridge_def fresh_pg_def queue_entries_def redis_of_def)
  from st have "e' = plain ''e'' ''s'' ''body''\<lparr>ev_FileStorePath := ev_FileStorePath e', ev_RawBody := ev_RawBody e',
      ev_ExtractedData := ev_ExtractedData e', ev_ExtractionMs := ev_ExtractionMs e'\<rparr>"
    by (simp add: settled_def)
  from arg_cong [OF this, of ev_ID] have "ev_ID e' = ''e''" by (simp add: plain_def)
  with b p x show ?thesis by blast
qed

end
