(* ===== verification/Dashboard.thy ===== *)
theory Dashboard
  imports Store
begin

text \<open>
  The queries of \<open>internal/store/postgres.go\<close> that serve the management API: replay sessions and the
  lists and details of the dashboard.
\<close>

section \<open>Replay sessions\<close>

definition CreateReplaySession :: "ReplaySession \<Rightarrow> pg \<Rightarrow> string query" where
  "CreateReplaySession rs s =
    (let s1 = pg_tick s in
     if pg_fails s then (Inl QueryFailed, s1)
     else case pg_fresh s1 of
            [] \<Rightarrow> (Inl QueryFailed, s1)
          | i # is \<Rightarrow>
              (Inr i, s1\<lparr>pg_sessions := pg_sessions s1 @
                 [rs\<lparr>rs_ID := i, rs_EventsReplayed := 0, rs_EventsTotal := None,
                     rs_StartedAt := pg_now s1, rs_CompletedAt := None\<rparr>], pg_fresh := is\<rparr>))"

definition GetReplaySession :: "string \<Rightarrow> pg \<Rightarrow> ReplaySession query" where
  "GetReplaySession sessionID =
    pg_query (\<lambda>s. case find (\<lambda>r. rs_ID r = sessionID) (pg_sessions s) of
                    None \<Rightarrow> Inl NoRows | Some r \<Rightarrow> Inr r)"

definition update_session :: "string \<Rightarrow> (ReplaySession \<Rightarrow> ReplaySession) \<Rightarrow> pg \<Rightarrow> pg" where
  "update_session sessionID f s =
    s\<lparr>pg_sessions := map (\<lambda>r. if rs_ID r = sessionID then f r else r) (pg_sessions s)\<rparr>"

definition UpdateReplaySessionStatus :: "string \<Rightarrow> string \<Rightarrow> pg \<Rightarrow> exec" where
  "UpdateReplaySessionStatus sessionID status =
    pg_exec (\<lambda>s. (None, update_session sessionID
      (\<lambda>r. r\<lparr>rs_Status := status,
             rs_CompletedAt := (if status = ''completed'' \<or> status = ''failed'' then Some (pg_now s)
                                else rs_CompletedAt r)\<rparr>) s))"

definition UpdateReplaySessionProgress :: "string \<Rightarrow> int \<Rightarrow> int \<Rightarrow> pg \<Rightarrow> exec" where
  "UpdateReplaySessionProgress sessionID replayed tot =
    pg_exec (\<lambda>s. (None, update_session sessionID
      (\<lambda>r. r\<lparr>rs_EventsReplayed := replayed, rs_EventsTotal := Some tot\<rparr>) s))"

section \<open>Lists\<close>

text \<open>A source is listed by its id, which is also its name.\<close>

definition ListSources :: "pg \<Rightarrow> string list query" where
  "ListSources =
    pg_query (\<lambda>s. Inr (sort (remdups (map da_SourceID (pg_attempts s) @ map dl_SourceID (pg_dlq s)))))"

record WebhookListItem =
  wl_EventID :: string
  wl_SourceID :: string
  wl_ReceivedAt :: int
  wl_StatusCode :: int
  wl_Success :: bool
  wl_DurationMs :: int
  wl_HasExtraction :: bool
  wl_ExtractionHit :: bool

definition list_item :: "DeliveryAttempt \<Rightarrow> ExtractionRecord option \<Rightarrow> WebhookListItem" where
  "list_item a er =
    \<lparr>wl_EventID = da_EventID a, wl_SourceID = da_SourceID a, wl_ReceivedAt = da_AttemptedAt a,
     wl_StatusCode = da_StatusCode a, wl_Success = da_Success a, wl_DurationMs = da_DurationMs a,
     wl_HasExtraction = (er \<noteq> None), wl_ExtractionHit = (case er of None \<Rightarrow> False | Some r \<Rightarrow> er_CacheHit r)\<rparr>"

text \<open>The left join: an attempt without an extraction record gives one row, otherwise one per record.\<close>

definition join_extractions :: "ExtractionRecord list \<Rightarrow> DeliveryAttempt \<Rightarrow> WebhookListItem list" where
  "join_extractions ers a =
    (case filter (\<lambda>r. er_EventID r = da_EventID a) ers of
       [] \<Rightarrow> [list_item a None]
     | rs \<Rightarrow> map (\<lambda>r. list_item a (Some r)) rs)"

definition ListWebhooks :: "string \<Rightarrow> int \<Rightarrow> int \<Rightarrow> pg \<Rightarrow> WebhookListItem list query" where
  "ListWebhooks sourceID limit offset =
    pg_query (\<lambda>s. pg_page limit offset
      (sort_key (\<lambda>i. - wl_ReceivedAt i)
        (concat (map (join_extractions (pg_extractions s))
          (filter (\<lambda>a. da_SourceID a = sourceID \<and> da_AttemptNumber a = 1) (pg_attempts s))))))"

text \<open>The newest difference first; \<open>pg_diffs\<close> lists them in the order of their computation.\<close>

definition GetWebhookDiffs :: "string \<Rightarrow> int \<Rightarrow> pg \<Rightarrow> WebhookDiff list query" where
  "GetWebhookDiffs sourceID limit =
    pg_query (\<lambda>s. pg_page limit 0 (rev (filter (\<lambda>d. wd_SourceID d = sourceID) (pg_diffs s))))"

section \<open>The detail of a webhook\<close>

record WebhookDetail =
  we_EventID :: string
  we_SourceID :: string
  we_RawBody :: "bytes option"
  we_Headers :: "string gomap"
  we_Attempts :: "DeliveryAttempt list"
  we_Extraction :: "ExtractionRecord option"
  we_Diff :: "bytes option"

text \<open>Three statements; an error of the second or third counts as a row that is not there.\<close>

definition attempts_of_event :: "string \<Rightarrow> pg \<Rightarrow> DeliveryAttempt list query" where
  "attempts_of_event eventID =
    pg_query (\<lambda>s. Inr (sort_key da_AttemptNumber (filter (\<lambda>a. da_EventID a = eventID) (pg_attempts s))))"

definition extraction_of_event :: "string \<Rightarrow> pg \<Rightarrow> ExtractionRecord query" where
  "extraction_of_event eventID =
    pg_query (\<lambda>s. case find (\<lambda>r. er_EventID r = eventID) (pg_extractions s) of
                    None \<Rightarrow> Inl NoRows | Some r \<Rightarrow> Inr r)"

definition diff_of_event :: "string \<Rightarrow> pg \<Rightarrow> bytes query" where
  "diff_of_event eventID =
    pg_query (\<lambda>s. case find (\<lambda>d. wd_EventID d = eventID) (pg_diffs s) of
                    None \<Rightarrow> Inl NoRows | Some d \<Rightarrow> Inr (wd_DiffData d))"

definition GetWebhookDetail :: "string \<Rightarrow> pg \<Rightarrow> WebhookDetail query" where
  "GetWebhookDetail eventID s =
    (case attempts_of_event eventID s of
       (Inl e, s1) \<Rightarrow> (Inl e, s1)
     | (Inr as, s1) \<Rightarrow>
         (case extraction_of_event eventID s1 of (er, s2) \<Rightarrow>
          case diff_of_event eventID s2 of (d, s3) \<Rightarrow>
            (Inr \<lparr>we_EventID = eventID, we_SourceID = (if as = [] then [] else da_SourceID (last as)),
                  we_RawBody = None, we_Headers = [], we_Attempts = as,
                  we_Extraction = (case er of Inl _ \<Rightarrow> None | Inr r \<Rightarrow> Some r),
                  we_Diff = (case d of Inl _ \<Rightarrow> None | Inr b \<Rightarrow> Some b)\<rparr>, s3)))"

section \<open>The effect of an update\<close>

lemma update_session_simps [simp]:
  "pg_up (update_session i f s) = pg_up s"
  "map rs_ID (pg_sessions (update_session i f s)) = map rs_ID (pg_sessions s)"
  if "\<And>r. rs_ID (f r) = rs_ID r" for f
  using that by (simp_all add: update_session_def comp_def if_distrib cong: if_cong)

end
