(* ===== verification/Replay.thy ===== *)
theory Replay
  imports Dashboard Delivery
begin

text \<open>
  \<open>internal/replay/engine.go\<close>: replaying the archived events of a source. Requests of the API change the
  status of the session while the engine runs; \<open>rp_world\<close> lists what they set between one look of the
  engine at the session and the next.
\<close>

section \<open>The engine\<close>

record replay =
  rp_pg :: pg
  rp_sc :: scylla
  rp_posts :: "HttpRequest list"
  rp_world :: "string list list"

text \<open>What the API did to the session meanwhile.\<close>

definition meanwhile :: "string \<Rightarrow> replay \<Rightarrow> replay" where
  "meanwhile sessionID s =
    (case rp_world s of
       [] \<Rightarrow> s
     | sts # later \<Rightarrow>
         s\<lparr>rp_pg := fold (\<lambda>st p. update_session sessionID (\<lambda>r. r\<lparr>rs_Status := st\<rparr>) p) sts (rp_pg s),
           rp_world := later\<rparr>)"

text \<open>A statement of the engine on the session; errors of updates are ignored.\<close>

definition look :: "string \<Rightarrow> replay \<Rightarrow> (pg_error + ReplaySession) \<times> replay" where
  "look sessionID s =
    (let s1 = meanwhile sessionID s in
     case GetReplaySession sessionID (rp_pg s1) of (r, p) \<Rightarrow> (r, s1\<lparr>rp_pg := p\<rparr>))"

definition set_status :: "string \<Rightarrow> string \<Rightarrow> replay \<Rightarrow> replay" where
  "set_status sessionID st s = s\<lparr>rp_pg := snd (UpdateReplaySessionStatus sessionID st (rp_pg s))\<rparr>"

definition set_progress :: "string \<Rightarrow> nat \<Rightarrow> nat \<Rightarrow> replay \<Rightarrow> replay" where
  "set_progress sessionID i tot s =
    s\<lparr>rp_pg := snd (UpdateReplaySessionProgress sessionID (int i) (int tot) (rp_pg s))\<rparr>"

text \<open>
  \<open>deliverReplayEvent\<close>: the request, when the URL makes one. The answer decides only what is logged, so
  it is left out.
\<close>

definition replay_request :: "(string \<Rightarrow> string) \<Rightarrow> string \<Rightarrow> WebhookEvent \<Rightarrow> HttpRequest" where
  "replay_request canonical destURL event =
    \<lparr>hr_URL = destURL, hr_Body = ev_RawBody event,
     hr_Headers =
       gm_set (canonical ''X-Original-Event-ID'') (ev_ID event)
         (gm_set (canonical ''X-Replay'') ''true''
           (fold (\<lambda>p. gm_set (canonical (fst p)) (snd p)) (ev_Headers event) []))\<rparr>"

definition deliverReplayEvent :: "(string \<Rightarrow> string) \<Rightarrow> (string \<Rightarrow> bool) \<Rightarrow> WebhookEvent \<Rightarrow> string \<Rightarrow> replay \<Rightarrow> replay" where
  "deliverReplayEvent canonical url_ok event destURL s =
    (if url_ok destURL then s\<lparr>rp_posts := rp_posts s @ [replay_request canonical destURL event]\<rparr> else s)"

datatype waiting = Resumed | GaveUp | StillPaused

text \<open>The loop of a paused session looks every two seconds; the number bounds the looks.\<close>

fun wait_resumed :: "nat \<Rightarrow> string \<Rightarrow> replay \<Rightarrow> waiting \<times> replay" where
  "wait_resumed 0 sessionID s = (StillPaused, s)"
| "wait_resumed (Suc n) sessionID s =
     (case look sessionID s of
        (Inl _, s1) \<Rightarrow> (GaveUp, set_status sessionID ''cancelled'' s1)
      | (Inr r, s1) \<Rightarrow>
          if rs_Status r = ''cancelled'' then (GaveUp, set_status sessionID ''cancelled'' s1)
          else if rs_Status r = ''running'' then (Resumed, s1)
          else wait_resumed n sessionID s1)"

datatype ending = Finished | Abandoned | Waiting

text \<open>The loop over the events; \<open>break\<close> leaves it and completes the session.\<close>

definition finish :: "string \<Rightarrow> replay \<Rightarrow> ending \<times> replay" where
  "finish sessionID s = (Finished, set_status sessionID ''completed'' (meanwhile sessionID s))"

fun replay_loop ::
    "nat \<Rightarrow> (string \<Rightarrow> string) \<Rightarrow> (string \<Rightarrow> bool) \<Rightarrow> string \<Rightarrow> string \<Rightarrow> nat \<Rightarrow> nat
     \<Rightarrow> WebhookEvent list \<Rightarrow> replay \<Rightarrow> ending \<times> replay" where
  "replay_loop looks canonical url_ok sessionID destURL tot i [] s = finish sessionID s"
| "replay_loop looks canonical url_ok sessionID destURL tot i (event # events) s =
     (case look sessionID s of
        (Inl _, s1) \<Rightarrow> finish sessionID s1
      | (Inr r, s1) \<Rightarrow>
          (case (if rs_Status r = ''paused'' then wait_resumed looks sessionID s1 else (Resumed, s1)) of
             (StillPaused, s2) \<Rightarrow> (Waiting, s2)
           | (GaveUp, s2) \<Rightarrow> (Abandoned, s2)
           | (Resumed, s2) \<Rightarrow>
               if rs_Status r = ''cancelled'' then (Abandoned, s2)
               else replay_loop looks canonical url_ok sessionID destURL tot (i + 1) events
                      (set_progress sessionID (i + 1) tot
                        (deliverReplayEvent canonical url_ok event destURL s2))))"

definition StartReplay ::
    "nat \<Rightarrow> (string \<Rightarrow> string) \<Rightarrow> (string \<Rightarrow> bool) \<Rightarrow> string \<Rightarrow> replay \<Rightarrow> ending \<times> replay" where
  "StartReplay looks canonical url_ok sessionID s =
    (case GetReplaySession sessionID (rp_pg s) of
       (Inl _, p) \<Rightarrow> (Abandoned, s\<lparr>rp_pg := p\<rparr>)
     | (Inr session, p) \<Rightarrow>
         (case GetEventsBySourceSince (rs_SourceID session) (rs_FromTimestamp session) (rp_sc s) of
            (None, sc) \<Rightarrow> (Abandoned, set_status sessionID ''failed'' (s\<lparr>rp_pg := p, rp_sc := sc\<rparr>))
          | (Some events, sc) \<Rightarrow>
              replay_loop looks canonical url_ok sessionID (rs_DestinationURL session) (length events) 0 events
                (set_progress sessionID 0 (length events) (s\<lparr>rp_pg := p, rp_sc := sc\<rparr>))))"

section \<open>The row of a session\<close>

definition session_row :: "string \<Rightarrow> pg \<Rightarrow> ReplaySession option" where
  "session_row sessionID p = find (\<lambda>r. rs_ID r = sessionID) (pg_sessions p)"

lemma find_map_keep:
  "(\<And>r. P (f r) = P r) \<Longrightarrow> find P (map f xs) = map_option f (find P xs)"
  by (induction xs) auto

lemma session_row_update:
  assumes "\<And>r. rs_ID (f r) = rs_ID r"
  shows "session_row i (update_session i f p) = map_option f (session_row i p)"
proof -
  have "find (\<lambda>r. rs_ID r = i) (map (\<lambda>r. if rs_ID r = i then f r else r) xs) = map_option f (find (\<lambda>r. rs_ID r = i) xs)"
    for xs using assms by (induction xs) auto
  then show ?thesis by (simp add: session_row_def update_session_def)
qed

lemma session_row_tick [simp]: "session_row i (pg_tick p) = session_row i p"
  by (simp add: session_row_def)

text \<open>The database answers and the row of the session shows \<open>i\<close> of \<open>tot\<close> events.\<close>

definition at_progress :: "string \<Rightarrow> nat \<Rightarrow> nat \<Rightarrow> replay \<Rightarrow> bool" where
  "at_progress sessionID i tot s \<longleftrightarrow> pg_up (rp_pg s) \<and> (\<exists>r. session_row sessionID (rp_pg s) = Some r
    \<and> rs_EventsReplayed r = int i \<and> rs_EventsTotal r = Some (int tot))"

lemma fold_status:
  "session_row i (fold (\<lambda>st p. update_session i (\<lambda>r. r\<lparr>rs_Status := st\<rparr>) p) sts p)
    = map_option (\<lambda>r. r\<lparr>rs_Status := (if sts = [] then rs_Status r else last sts)\<rparr>) (session_row i p)
   \<and> pg_up (fold (\<lambda>st p. update_session i (\<lambda>r. r\<lparr>rs_Status := st\<rparr>) p) sts p) = pg_up p"
  by (induction sts arbitrary: p) (auto simp: session_row_update option.map_comp comp_def option.map_ident)

lemma meanwhile_keeps:
  "rp_posts (meanwhile i s) = rp_posts s" "pg_up (rp_pg (meanwhile i s)) = pg_up (rp_pg s)"
  "session_row i (rp_pg (meanwhile i s)) = map_option (\<lambda>r. r\<lparr>rs_Status :=
     (case rp_world s of [] \<Rightarrow> rs_Status r | sts # _ \<Rightarrow> if sts = [] then rs_Status r else last sts)\<rparr>) (session_row i (rp_pg s))"
  "rp_world (meanwhile i s) = tl (rp_world s)"
  using fold_status [of i]
  by (auto simp: meanwhile_def option.map_ident split: list.split)

lemma meanwhile_progress: "at_progress i k tot (meanwhile i s) = at_progress i k tot s"
  by (auto simp: at_progress_def meanwhile_keeps)

lemma look_keeps: "look i s = (x, s1) \<Longrightarrow> rp_posts s1 = rp_posts s \<and> rp_world s1 = tl (rp_world s)"
  by (auto simp: look_def Let_def meanwhile_keeps split: prod.splits)

lemma look_progress:
  assumes "at_progress i k tot s"
  shows "\<exists>r. look i s = (Inr r, snd (look i s)) \<and> at_progress i k tot (snd (look i s))
    \<and> session_row i (rp_pg (snd (look i s))) = Some r \<and> session_row i (rp_pg (meanwhile i s)) = Some r"
proof -
  from assms have m: "at_progress i k tot (meanwhile i s)" by (simp add: meanwhile_progress)
  then obtain r where "session_row i (rp_pg (meanwhile i s)) = Some r" "pg_up (rp_pg (meanwhile i s))"
    by (auto simp: at_progress_def)
  moreover from this have "GetReplaySession i (rp_pg (meanwhile i s)) = (Inr r, pg_tick (rp_pg (meanwhile i s)))"
    by (simp add: GetReplaySession_def session_row_def)
  ultimately show ?thesis using m by (simp add: look_def Let_def at_progress_def)
qed

lemma set_status_keeps [simp]: "rp_posts (set_status i st s) = rp_posts s"
  by (simp add: set_status_def)

lemma set_status_row:
  assumes "at_progress i k tot s"
  shows "at_progress i k tot (set_status i st s)"
    "map_option rs_Status (session_row i (rp_pg (set_status i st s))) = Some st"
    "st = ''completed'' \<Longrightarrow> map_option rs_CompletedAt (session_row i (rp_pg (set_status i st s))) = Some (Some (pg_now (rp_pg s)))"
proof -
  from assms obtain r where r: "pg_up (rp_pg s)" "session_row i (rp_pg s) = Some r"
    "rs_EventsReplayed r = int k" "rs_EventsTotal r = Some (int tot)" by (auto simp: at_progress_def)
  let ?r = "r\<lparr>rs_Status := st, rs_CompletedAt := (if st = ''completed'' \<or> st = ''failed''
    then Some (pg_now (rp_pg s)) else rs_CompletedAt r)\<rparr>"
  have n: "session_row i (rp_pg (set_status i st s)) = Some ?r" "pg_up (rp_pg (set_status i st s))"
    using r(1,2) by (simp_all only: set_status_def UpdateReplaySessionStatus_def pg_exec_up) (simp_all add: session_row_update)
  show "at_progress i k tot (set_status i st s)"
    "map_option rs_Status (session_row i (rp_pg (set_status i st s))) = Some st"
    "st = ''completed'' \<Longrightarrow> map_option rs_CompletedAt (session_row i (rp_pg (set_status i st s))) = Some (Some (pg_now (rp_pg s)))"
    using n r(3,4) unfolding at_progress_def by simp_all
qed

lemma set_progress_row:
  "at_progress i k tot s \<Longrightarrow> at_progress i k' tot' (set_progress i k' tot' s)"
  by (auto simp: at_progress_def set_progress_def UpdateReplaySessionProgress_def session_row_update)

lemma set_progress_keeps [simp]: "rp_posts (set_progress i k tot s) = rp_posts s"
  by (simp add: set_progress_def)

lemma deliver_progress [simp]: "at_progress i k tot (deliverReplayEvent c ok e url s) = at_progress i k tot s"
  by (simp add: at_progress_def deliverReplayEvent_def)

section \<open>What a replay delivers\<close>

text \<open>The session is closed as completed.\<close>

definition completed :: "string \<Rightarrow> replay \<Rightarrow> bool" where
  "completed sessionID s \<longleftrightarrow> (\<exists>r. session_row sessionID (rp_pg s) = Some r \<and> rs_Status r = ''completed''
    \<and> rs_CompletedAt r \<noteq> None)"

lemma finish_progress:
  assumes "at_progress i k tot s"
  shows "at_progress i k tot (snd (finish i s)) \<and> completed i (snd (finish i s))"
proof -
  have m: "at_progress i k tot (meanwhile i s)" using assms by (simp add: meanwhile_progress)
  from set_status_row [OF m, of "''completed''"] show ?thesis
    by (auto simp: finish_def completed_def at_progress_def)
qed





text \<open>Two archived events and a running session that replays them.\<close>

definition demo_session :: ReplaySession where
  "demo_session =
    \<lparr>rs_ID = ''r'', rs_SourceID = ''s'', rs_DestinationURL = ''http://d'', rs_FromTimestamp = 0,
     rs_ToTimestamp = None, rs_Status = ''running'', rs_EventsReplayed = 0, rs_EventsTotal = None,
     rs_StartedAt = 0, rs_CompletedAt = None, rs_InitiatedBy = []\<rparr>"

definition demo_row :: "int \<Rightarrow> string \<Rightarrow> ArchiveRow" where
  "demo_row t i = \<lparr>ar_SourceID = ''s'', ar_ReceivedAt = t, ar_EventID = i, ar_RawBody = i, ar_Headers = []\<rparr>"

definition demo_replay :: "string list list \<Rightarrow> replay" where
  "demo_replay world =
    \<lparr>rp_pg = (fresh_pg ''s'')\<lparr>pg_sessions := [demo_session]\<rparr>,
     rp_sc = \<lparr>sc_rows = [demo_row 0 ''a'', demo_row 1000000 ''b''], sc_faults = []\<rparr>, rp_posts = [], rp_world = world\<rparr>"

lemma demo_replay_up: "pg_up (rp_pg (demo_replay w))"
  by (simp add: demo_replay_def)

lemma demo_replay_session: "\<exists>p. GetReplaySession ''r'' (rp_pg (demo_replay w)) = (Inr demo_session, p)"
  by (simp add: GetReplaySession_def demo_replay_def demo_session_def)

lemma demo_replay_events:
  "fst (GetEventsBySourceSince ''s'' 0 (rp_sc (demo_replay w))) =
    Some (map (\<lambda>r. archived_event (ar_EventID r) r) [demo_row 1000000 ''b'', demo_row 0 ''a''])"
  by (simp add: GetEventsBySourceSince_def demo_replay_def sc_fails_def partition_def demo_row_def millis_def)


section \<open>Cancellations and faults\<close>

lemma running_loop:
  assumes "at_progress i k tot s" "map_option rs_Status (session_row i (rp_pg s)) = Some ''running''"
    and "rp_world s = replicate (length events) [] @ [sts]"
  shows "fst (replay_loop looks c ok i url tot k events s) = Finished
    \<and> completed i (snd (replay_loop looks c ok i url tot k events s))"
  using assms
proof (induction events arbitrary: k s)
  case Nil
  with finish_progress [of i k tot s] show ?case by (simp add: finish_def)
next
  case (Cons ev events)
  from look_progress [OF Cons.prems(1)] obtain r where
    r: "look i s = (Inr r, snd (look i s))" "at_progress i k tot (snd (look i s))"
      "session_row i (rp_pg (snd (look i s))) = Some r" "session_row i (rp_pg (meanwhile i s)) = Some r" by blast
  have st: "rs_Status r = ''running''" using r(4) Cons.prems(2,3) by (auto simp: meanwhile_keeps)
  let ?s2 = "deliverReplayEvent c ok ev url (snd (look i s))"
  let ?s3 = "set_progress i (k + 1) tot ?s2"
  have up: "pg_up (rp_pg ?s2)" "session_row i (rp_pg ?s2) = Some r"
    using r(2,3) by (auto simp: at_progress_def deliverReplayEvent_def)
  have "at_progress i (k + 1) tot ?s3" using r(2) set_progress_row [of i k tot ?s2] by simp
  moreover have "map_option rs_Status (session_row i (rp_pg ?s3)) = Some ''running''"
    using up st by (simp add: set_progress_def UpdateReplaySessionProgress_def session_row_update)
  moreover have "rp_world ?s3 = replicate (length events) [] @ [sts]"
    using look_keeps [OF r(1)] Cons.prems(3) by (simp add: set_progress_def deliverReplayEvent_def)
  ultimately have "fst (replay_loop looks c ok i url tot (k + 1) events ?s3) = Finished
      \<and> completed i (snd (replay_loop looks c ok i url tot (k + 1) events ?s3))" by (rule Cons.IH)
  moreover have "replay_loop looks c ok i url tot k (ev # events) s = replay_loop looks c ok i url tot (k + 1) events ?s3"
    by (subst replay_loop.simps(2), subst r(1)) (simp add: st)
  ultimately show ?case by simp
qed

text \<open>
  A late cancellation is overwritten. When a session is cancelled after the engine has looked at it
  for the last time, while the last event is being delivered, the engine still marks it completed.
\<close>

theorem late_cancel_overwritten:
  assumes "GetReplaySession i (rp_pg s) = (Inr session, p)" "pg_up (rp_pg s)" "rs_Status session = ''running''"
    and "fst (GetEventsBySourceSince (rs_SourceID session) (rs_FromTimestamp session) (rp_sc s)) = Some events"
    and "rp_world s = replicate (length events) [] @ [[''cancelled'']]"
  shows "fst (StartReplay looks c ok i s) = Finished \<and> completed i (snd (StartReplay looks c ok i s))"
proof -
  obtain sc where ev: "GetEventsBySourceSince (rs_SourceID session) (rs_FromTimestamp session) (rp_sc s) = (Some events, sc)"
    using assms(4) by (metis prod.collapse)
  let ?s1 = "set_progress i 0 (length events) (s\<lparr>rp_pg := p, rp_sc := sc\<rparr>)"
  have p: "pg_up p" "session_row i p = Some session"
    using assms(1,2) by (auto simp: GetReplaySession_def session_row_def split: option.splits)
  then have "at_progress i 0 (length events) ?s1" "map_option rs_Status (session_row i (rp_pg ?s1)) = Some ''running''"
    using assms(3) by (simp_all add: at_progress_def set_progress_def UpdateReplaySessionProgress_def session_row_update)
  moreover have "rp_world ?s1 = replicate (length events) [] @ [[''cancelled'']]" using assms(5) by (simp add: set_progress_def)
  ultimately show ?thesis using running_loop assms(1) ev by (simp add: StartReplay_def)
qed

theorem late_cancel_overwritten_witness:
  "completed ''r'' (snd (StartReplay 5 id (\<lambda>u. True) ''r'' (demo_replay [[], [], [''cancelled'']])))"
proof -
  let ?s = "demo_replay [[], [], [''cancelled'']]"
  obtain p where p: "GetReplaySession ''r'' (rp_pg ?s) = (Inr demo_session, p)" using demo_replay_session by blast
  from late_cancel_overwritten [OF p demo_replay_up, of _ 5 id "\<lambda>u. True"] demo_replay_events [of "[[], [], [''cancelled'']]"]
  show ?thesis by (simp add: demo_session_def demo_replay_def numeral_2_eq_2)
qed

text \<open>
  A failed look completes the session. When the database fails to answer the engine's first look, no event
  is delivered at all, and yet the session is marked completed.
\<close>

theorem read_fault_completes_session:
  assumes "find (\<lambda>r. rs_ID r = i) (pg_sessions (rp_pg s)) = Some session" "pg_faults (rp_pg s) = [False, False, True]"
    and "fst (GetEventsBySourceSince (rs_SourceID session) (rs_FromTimestamp session) (rp_sc s)) = Some events"
    and "events \<noteq> []" "rp_world s = []"
  shows "rp_posts (snd (StartReplay looks c ok i s)) = rp_posts s \<and> completed i (snd (StartReplay looks c ok i s))"
proof -
  obtain sc where ev: "GetEventsBySourceSince (rs_SourceID session) (rs_FromTimestamp session) (rp_sc s) = (Some events, sc)"
    using assms(3) by (metis prod.collapse)
  obtain ev evs where e: "events = ev # evs" using assms(4) by (cases events) auto
  let ?s1 = "set_progress i 0 (length events) (s\<lparr>rp_pg := pg_tick (rp_pg s), rp_sc := sc\<rparr>)"
  have g: "GetReplaySession i (rp_pg s) = (Inr session, pg_tick (rp_pg s))"
    using assms(1,2) by (simp add: GetReplaySession_def pg_query_def pg_fails_def)
  have f: "pg_faults (rp_pg ?s1) = [True]" "rp_world ?s1 = []" "rp_posts ?s1 = rp_posts s"
    using assms(2,5)
    by (simp_all add: set_progress_def UpdateReplaySessionProgress_def pg_exec_def pg_fails_def pg_tick_def update_session_def)
  have row: "\<exists>r. session_row i (rp_pg ?s1) = Some r"
    using assms(1,2)
    by (simp add: set_progress_def UpdateReplaySessionProgress_def pg_exec_def pg_fails_def pg_tick_def
        session_row_update) (simp add: session_row_def)
  let ?s2 = "?s1\<lparr>rp_pg := pg_tick (rp_pg ?s1)\<rparr>"
  have l: "look i ?s1 = (Inl QueryFailed, ?s2)"
    using f by (simp add: look_def meanwhile_def Let_def GetReplaySession_def pg_query_def pg_fails_def)
  have "pg_up (rp_pg ?s2)" using f by (simp add: pg_up_def pg_tick_def)
  then have c: "completed i (snd (finish i ?s2))"
    using row f(2)
    by (auto simp: finish_def completed_def set_status_def meanwhile_def UpdateReplaySessionStatus_def session_row_update)
  have "StartReplay looks c ok i s = finish i ?s2"
    using g ev l by (simp add: StartReplay_def e)
  with c f show ?thesis by (simp add: finish_def meanwhile_keeps)
qed

theorem read_fault_completes_session_witness:
  "rp_posts (snd (StartReplay 5 id (\<lambda>u. True) ''r'' ((demo_replay [])\<lparr>rp_pg :=
      (rp_pg (demo_replay []))\<lparr>pg_faults := [False, False, True]\<rparr>\<rparr>))) = []"
  using read_fault_completes_session [of "''r''" "(demo_replay [])\<lparr>rp_pg := (rp_pg (demo_replay []))\<lparr>pg_faults := [False, False, True]\<rparr>\<rparr>"
      demo_session _ 5 id "\<lambda>u. True"] demo_replay_events [of "[]"]
  by (simp add: demo_session_def demo_replay_def)

end
