(* ===== verification/Metrics.thy ===== *)
theory Metrics
  imports Signature Json
begin

text \<open>
  \<open>internal/pubsub/metrics.go\<close>: one Redis sorted set per metric, whose members are the minutes (Unix
  seconds in decimal) and whose scores are the values. The scores are floating point numbers in Redis and
  integers here, which is the same below \<open>2 ^ 53\<close>.
\<close>

section \<open>Sorted sets\<close>

type_synonym zset = "(string \<times> int) list"

definition ZIncrBy :: "int \<Rightarrow> string \<Rightarrow> zset \<Rightarrow> zset" where
  "ZIncrBy n m z = AList.update m ((case map_of z m of None \<Rightarrow> 0 | Some v \<Rightarrow> v) + n) z"

text \<open>\<open>ZADD GT\<close> adds a member, or raises its score.\<close>

definition ZAddGT :: "int \<Rightarrow> string \<Rightarrow> zset \<Rightarrow> zset" where
  "ZAddGT n m z = (case map_of z m of
     None \<Rightarrow> AList.update m n z
   | Some v \<Rightarrow> if n > v then AList.update m n z else z)"

text \<open>\<open>ZRANGE 0 -1\<close> lists the members by score, those of equal score by name.\<close>

definition ZRangeWithScores :: "zset \<Rightarrow> zset" where
  "ZRangeWithScores z = sort_key snd (sort_key fst z)"

section \<open>Metrics\<close>

definition minute :: int where "minute = 60 * second"

text \<open>\<open>t.Truncate(time.Minute).Unix()\<close>.\<close>

definition minute_ts :: "int \<Rightarrow> int" where
  "minute_ts t = t div minute * 60"

definition RecordThroughput :: "int \<Rightarrow> zset \<Rightarrow> zset" where
  "RecordThroughput now = ZIncrBy 1 (format_int (minute_ts now))"

definition RecordLatency :: "int \<Rightarrow> int \<Rightarrow> zset \<Rightarrow> zset" where
  "RecordLatency now ms = ZAddGT ms (format_int (minute_ts now))"

record MetricPoint =
  mp_Timestamp :: int
  mp_Value :: int

text \<open>Members that are no number and minutes before the range are left out.\<close>

definition metric_point :: "int \<Rightarrow> string \<times> int \<Rightarrow> MetricPoint option" where
  "metric_point since z =
    (case parse_int (fst z) of
       None \<Rightarrow> None
     | Some ts \<Rightarrow> if ts < since then None else Some \<lparr>mp_Timestamp = ts * second, mp_Value = snd z\<rparr>)"

definition metrics_since :: "int \<Rightarrow> int \<Rightarrow> int" where
  "metrics_since now rangeMinutes = minute_ts (now + wrap64 (wrap64 (- rangeMinutes) * minute))"

text \<open>\<open>zrange\<close> is the set that Redis answers with, or \<open>None\<close> for an error.\<close>

definition getMetrics :: "int \<Rightarrow> int \<Rightarrow> zset option \<Rightarrow> MetricPoint list option" where
  "getMetrics now rangeMinutes zrange =
    map_option (\<lambda>z. List.map_filter (metric_point (metrics_since now rangeMinutes)) (ZRangeWithScores z)) zrange"

section \<open>What is counted\<close>

definition count_at :: "int \<Rightarrow> int list \<Rightarrow> nat" where
  "count_at ts stamps = length (filter (\<lambda>t. minute_ts t = ts) stamps)"

lemma format_int_inj:
  assumes "min64 \<le> a" "a \<le> max64" "min64 \<le> b" "b \<le> max64" "format_int a = format_int b"
  shows "a = b"
  using parse_format_int [OF assms(1,2)] parse_format_int [OF assms(3,4)] assms(5) by (metis option.inject)

definition in_range :: "int \<Rightarrow> bool" where
  "in_range t \<longleftrightarrow> min64 \<le> minute_ts t \<and> minute_ts t \<le> max64"

lemma throughput_counts:
  assumes "list_all in_range stamps" "in_range t"
  shows "map_of (fold RecordThroughput stamps []) (format_int (minute_ts t)) =
    (if count_at (minute_ts t) stamps = 0 then None else Some (int (count_at (minute_ts t) stamps)))"
  using assms(1)
proof (induction stamps rule: rev_induct)
  case (snoc u us)
  have "format_int (minute_ts u) = format_int (minute_ts t) \<longleftrightarrow> minute_ts u = minute_ts t"
    using snoc.prems assms(2) format_int_inj [of "minute_ts u" "minute_ts t"] by (auto simp: in_range_def)
  with snoc show ?case
    by (auto simp: RecordThroughput_def ZIncrBy_def count_at_def update_conv')
qed (simp add: count_at_def)

lemma throughput_keys:
  "fst ` set (fold RecordThroughput stamps []) = (\<lambda>t. format_int (minute_ts t)) ` set stamps
    \<and> distinct (map fst (fold RecordThroughput stamps []))"
  by (induction stamps rule: rev_induct) (auto simp: RecordThroughput_def ZIncrBy_def dom_update distinct_update)

lemma throughput_entries:
  assumes "list_all in_range stamps"
  shows "set (fold RecordThroughput stamps []) = (\<lambda>ts. (format_int ts, int (count_at ts stamps))) ` minute_ts ` set stamps"
    (is "set ?z = ?r")
proof (rule set_eqI)
  fix x :: "string \<times> int"
  obtain m v where x: "x = (m, v)" by (cases x)
  have pos: "count_at (minute_ts t) stamps \<noteq> 0" if "t \<in> set stamps" for t
    using that by (auto simp: count_at_def filter_empty_conv)
  have d: "x \<in> set ?z \<longleftrightarrow> map_of ?z m = Some v"
    using throughput_keys [of stamps] map_of_eq_Some_iff [of ?z m v] by (simp add: x)
  show "x \<in> set ?z \<longleftrightarrow> x \<in> ?r"
  proof
    assume "x \<in> set ?z"
    then obtain t where "t \<in> set stamps" "m = format_int (minute_ts t)"
      using throughput_keys [of stamps] by (force simp: x)
    with \<open>x \<in> set ?z\<close> d throughput_counts [OF assms, of t] assms pos show "x \<in> ?r"
      by (auto simp: x list_all_iff)
  next
    assume "x \<in> ?r"
    then obtain t where t: "t \<in> set stamps" "m = format_int (minute_ts t)" "v = int (count_at (minute_ts t) stamps)"
      by (auto simp: x)
    with throughput_counts [OF assms, of t] assms pos [of t] d show "x \<in> set ?z"
      by (simp add: list_all_iff)
  qed
qed

text \<open>What a chart shows of a sorted set whose members are minutes.\<close>

lemma chart:
  assumes z: "set z = (\<lambda>ts. (format_int ts, v ts)) ` M" "distinct (map fst z)" and M: "\<forall>ts \<in> M. min64 \<le> ts \<and> ts \<le> max64"
  shows "\<exists>ps. getMetrics now r (Some z) = Some ps
    \<and> set ps = (\<lambda>ts. \<lparr>mp_Timestamp = ts * second, mp_Value = v ts\<rparr>) ` {ts \<in> M. metrics_since now r \<le> ts}
    \<and> distinct ps \<and> sorted (map mp_Value ps)"
proof -
  let ?since = "metrics_since now r"
  let ?f = "metric_point ?since" and ?g = "\<lambda>ts. (format_int ts, v ts)"
  let ?ps = "List.map_filter ?f (ZRangeWithScores z)" and ?zs = "filter (\<lambda>x. ?f x \<noteq> None) (ZRangeWithScores z)"
  have ps: "?ps = map (\<lambda>x. the (?f x)) ?zs" by (simp add: List.map_filter_def comp_def)
  have zset: "set (ZRangeWithScores z) = ?g ` M" using z(1) by (simp add: ZRangeWithScores_def)
  have dz: "distinct ?zs" using z(2) by (simp add: ZRangeWithScores_def distinct_map)
  have "parse_int (format_int ts) = Some ts" if "ts \<in> M" for ts
    using that M by (intro parse_format_int) auto
  then have f: "?f (?g ts) = (if ts < ?since then None
      else Some \<lparr>mp_Timestamp = ts * second, mp_Value = v ts\<rparr>)" if "ts \<in> M" for ts
    using that by (simp add: metric_point_def)
  have zs: "set ?zs = ?g ` {ts \<in> M. ?since \<le> ts}"
    using f by (auto simp: zset simp del: image_image split: if_splits)
  have "set ?ps = (\<lambda>ts. the (?f (?g ts))) ` {ts \<in> M. ?since \<le> ts}"
    unfolding ps set_map zs image_image ..
  also have "\<dots> = (\<lambda>ts. \<lparr>mp_Timestamp = ts * second, mp_Value = v ts\<rparr>) ` {ts \<in> M. ?since \<le> ts}"
    by (rule image_cong [OF refl]) (use f in auto)
  finally have set: "set ?ps = (\<lambda>ts. \<lparr>mp_Timestamp = ts * second, mp_Value = v ts\<rparr>) ` {ts \<in> M. ?since \<le> ts}" .
  have "inj_on (\<lambda>x. the (?f x)) (set ?zs)"
  proof (rule inj_onI)
    fix x y
    assume "x \<in> set ?zs" "y \<in> set ?zs" and e: "the (?f x) = the (?f y)"
    then obtain a b where ab: "x = ?g a" "a \<in> M" "?since \<le> a" "y = ?g b" "b \<in> M" "?since \<le> b"
      unfolding zs by blast
    with e f [OF ab(2)] f [OF ab(5)] show "x = y" by (simp add: second_def)
  qed
  with dz have "distinct ?ps" unfolding ps by (simp only: distinct_map)
  moreover have "map mp_Value ?ps = map snd ?zs"
    unfolding ps map_map by (rule map_cong [OF refl]) (auto simp: metric_point_def split: option.splits if_splits)
  then have "sorted (map mp_Value ?ps)"
    by (simp add: sorted_filter ZRangeWithScores_def)
  ultimately show ?thesis using set by (simp add: getMetrics_def)
qed

section \<open>Latencies\<close>

text \<open>A latency is recorded at an instant; what is left of a minute is its greatest.\<close>

definition record_latency :: "int \<times> int \<Rightarrow> zset \<Rightarrow> zset" where
  "record_latency rec = RecordLatency (fst rec) (snd rec)"

definition latencies_at :: "int \<Rightarrow> (int \<times> int) list \<Rightarrow> int set" where
  "latencies_at ts recs = {ms. \<exists>t. (t, ms) \<in> set recs \<and> minute_ts t = ts}"

lemma finite_latencies [simp]: "finite (latencies_at ts recs)"
  by (rule finite_subset [of _ "snd ` set recs"]) (force simp: latencies_at_def)+

lemma map_of_ZAddGT:
  "map_of (ZAddGT n m z) k = (if k = m then Some (case map_of z m of None \<Rightarrow> n | Some v \<Rightarrow> if n > v then n else v)
    else map_of z k)"
  by (simp add: ZAddGT_def update_conv' split: option.split)

lemma keys_ZAddGT: "fst ` set (ZAddGT n m z) = insert m (fst ` set z)"
proof -
  have "dom (map_of (ZAddGT n m z)) = insert m (dom (map_of z))"
    by (auto simp: map_of_ZAddGT split: if_splits)
  then show ?thesis by (simp only: dom_map_of_conv_image_fst)
qed

lemma distinct_ZAddGT: "distinct (map fst z) \<Longrightarrow> distinct (map fst (ZAddGT n m z))"
  by (simp add: ZAddGT_def distinct_update split: option.split)

lemma latency_maximum:
  assumes "list_all (in_range \<circ> fst) recs" "in_range t"
  shows "map_of (fold record_latency recs []) (format_int (minute_ts t)) =
    (if latencies_at (minute_ts t) recs = {} then None else Some (Max (latencies_at (minute_ts t) recs)))"
  using assms(1)
proof (induction recs rule: rev_induct)
  case (snoc rec recs)
  obtain u ms where rec: "rec = (u, ms)" by (cases rec)
  have same: "format_int (minute_ts t) = format_int (minute_ts u) \<longleftrightarrow> minute_ts u = minute_ts t"
    using snoc.prems assms(2) format_int_inj [of "minute_ts u" "minute_ts t"] by (auto simp: in_range_def rec)
  have at: "latencies_at (minute_ts t) (recs @ [rec]) =
      (if minute_ts u = minute_ts t then insert ms (latencies_at (minute_ts t) recs) else latencies_at (minute_ts t) recs)"
    by (auto simp: latencies_at_def rec)
  let ?S = "latencies_at (minute_ts t) recs" and ?z = "fold record_latency recs []"
  have step: "fold record_latency (recs @ [rec]) [] = ZAddGT ms (format_int (minute_ts u)) ?z"
    by (simp add: rec record_latency_def RecordLatency_def)
  have IH: "map_of ?z (format_int (minute_ts t)) = (if ?S = {} then None else Some (Max ?S))"
    using snoc by simp
  have ins: "Max (insert ms ?S) = (if ms > Max ?S then ms else Max ?S)" if "?S \<noteq> {}"
    using Max_insert [OF finite_latencies that, of ms] by (simp add: max_def)
  show ?case
    using IH same ins unfolding at step by (simp add: map_of_ZAddGT del: Max_less_iff Max_insert)
qed (simp add: latencies_at_def)

lemma latency_keys:
  "fst ` set (fold record_latency recs []) = (\<lambda>p. format_int (minute_ts (fst p))) ` set recs
    \<and> distinct (map fst (fold record_latency recs []))"
  by (induction recs rule: rev_induct)
    (simp_all add: record_latency_def RecordLatency_def keys_ZAddGT distinct_ZAddGT)

lemma latency_entries:
  assumes "list_all (in_range \<circ> fst) recs"
  shows "set (fold record_latency recs []) = (\<lambda>ts. (format_int ts, Max (latencies_at ts recs))) ` (\<lambda>p. minute_ts (fst p)) ` set recs"
    (is "set ?z = ?r")
proof (rule set_eqI)
  fix x :: "string \<times> int"
  obtain m v where x: "x = (m, v)" by (cases x)
  have pos: "latencies_at (minute_ts (fst p)) recs \<noteq> {}" if "p \<in> set recs" for p
    using that by (simp add: latencies_at_def) (metis prod.collapse)
  have d: "x \<in> set ?z \<longleftrightarrow> map_of ?z m = Some v"
    using latency_keys [of recs] map_of_eq_Some_iff [of ?z m v] by (simp add: x)
  have ir: "in_range (fst p)" if "p \<in> set recs" for p using assms that by (simp add: list_all_iff)
  show "x \<in> set ?z \<longleftrightarrow> x \<in> ?r"
  proof
    assume z: "x \<in> set ?z"
    then obtain p where "p \<in> set recs" "m = format_int (minute_ts (fst p))"
      using latency_keys [of recs] by (force simp: x)
    with z d latency_maximum [OF assms ir] pos show "x \<in> ?r" by (auto simp: x)
  next
    assume "x \<in> ?r"
    then obtain p where "p \<in> set recs" "m = format_int (minute_ts (fst p))" "v = Max (latencies_at (minute_ts (fst p)) recs)"
      by (auto simp: x)
    with latency_maximum [OF assms ir] pos [of p] d show "x \<in> set ?z" by simp
  qed
qed

text \<open>
  After any sequence of records the throughput chart has, for each minute in the
  range asked for in which something was recorded, one point with the number of records of that minute, and
  the latency chart one point with the greatest latency recorded in that minute (not an average, nor the
  latest); there are no other points. They come in the order of their values, because the read sorts by
  score and not by time.
\<close>

lemma metrics_reported:
  assumes "list_all in_range stamps" "list_all (in_range \<circ> fst) recs"
  shows "(\<exists>ps. getMetrics now r (Some (fold RecordThroughput stamps [])) = Some ps
      \<and> set ps = (\<lambda>ts. \<lparr>mp_Timestamp = ts * second, mp_Value = int (count_at ts stamps)\<rparr>) `
          {ts \<in> minute_ts ` set stamps. metrics_since now r \<le> ts}
      \<and> distinct ps \<and> sorted (map mp_Value ps))
   \<and> (\<exists>ps. getMetrics now r (Some (fold record_latency recs [])) = Some ps
      \<and> set ps = (\<lambda>ts. \<lparr>mp_Timestamp = ts * second, mp_Value = Max (latencies_at ts recs)\<rparr>) `
          {ts \<in> (\<lambda>p. minute_ts (fst p)) ` set recs. metrics_since now r \<le> ts}
      \<and> distinct ps \<and> sorted (map mp_Value ps))"
proof
  show "\<exists>ps. getMetrics now r (Some (fold RecordThroughput stamps [])) = Some ps
      \<and> set ps = (\<lambda>ts. \<lparr>mp_Timestamp = ts * second, mp_Value = int (count_at ts stamps)\<rparr>) `
          {ts \<in> minute_ts ` set stamps. metrics_since now r \<le> ts}
      \<and> distinct ps \<and> sorted (map mp_Value ps)"
    using assms(1) throughput_keys [of stamps] by (intro chart throughput_entries) (auto simp: list_all_iff in_range_def)
  show "\<exists>ps. getMetrics now r (Some (fold record_latency recs [])) = Some ps
      \<and> set ps = (\<lambda>ts. \<lparr>mp_Timestamp = ts * second, mp_Value = Max (latencies_at ts recs)\<rparr>) `
          {ts \<in> (\<lambda>p. minute_ts (fst p)) ` set recs. metrics_since now r \<le> ts}
      \<and> distinct ps \<and> sorted (map mp_Value ps)"
    using assms(2) latency_keys [of recs] by (intro chart latency_entries) (auto simp: list_all_iff in_range_def)
qed

end
