(* ===== verification/Api.thy ===== *)
theory Api
  imports Dashboard Queue Metrics Cloud
begin

text \<open>
  \<open>internal/api\<close>: the handlers of the management API. A reply carries what the handler encodes as JSON, or
  the status and the text of an error. The URL parameters are arguments and \<open>query\<close> gives the query
  parameters; decoding a request body is \<open>None\<close> for an invalid one.
\<close>

section \<open>The server\<close>

datatype 'a reply = Reply int 'a | Failure int string

record server =
  ap_pg :: pg
  ap_sc :: scylla
  ap_rd :: redis
  ap_started :: "string list"

type_synonym 'a handler = "server \<Rightarrow> 'a reply \<times> server"

type_synonym params = "string \<Rightarrow> string"

text \<open>\<open>strconv.Atoi\<close> reads an \<open>int\<close> of 64 bits.\<close>

definition queryInt :: "params \<Rightarrow> string \<Rightarrow> int \<Rightarrow> int" where
  "queryInt query key defaultVal =
    (if query key = [] then defaultVal
     else case parse_int (query key) of None \<Rightarrow> defaultVal | Some n \<Rightarrow> n)"

text \<open>A handler that runs one query and encodes its result.\<close>

definition serve :: "'a query \<Rightarrow> int \<Rightarrow> string \<Rightarrow> 'a handler" where
  "serve q code err s =
    (case q of (r, p) \<Rightarrow>
      (case r of Inl _ \<Rightarrow> Failure code err | Inr x \<Rightarrow> Reply 200 x, s\<lparr>ap_pg := p\<rparr>))"

definition serve_exec :: "exec \<Rightarrow> string \<Rightarrow> 'a \<Rightarrow> 'a handler" where
  "serve_exec e err ok s =
    (case e of (r, p) \<Rightarrow> (case r of Some _ \<Rightarrow> Failure 500 err | None \<Rightarrow> Reply 200 ok, s\<lparr>ap_pg := p\<rparr>))"

section \<open>Schemas, drifts, differences\<close>

definition handleGetSchema :: "string \<Rightarrow> PayloadSchema handler" where
  "handleGetSchema sourceID s = serve (GetPayloadSchema sourceID (ap_pg s)) 404 ''schema not found'' s"

definition handleGetDrifts :: "params \<Rightarrow> string \<Rightarrow> DriftEvent list handler" where
  "handleGetDrifts query sourceID s =
    serve (GetDriftEvents sourceID (queryInt query ''limit'' 50) (ap_pg s)) 500 ''failed to fetch drifts'' s"

definition handleGetDiffs :: "params \<Rightarrow> string \<Rightarrow> WebhookDiff list handler" where
  "handleGetDiffs query sourceID s =
    serve (GetWebhookDiffs sourceID (queryInt query ''limit'' 50) (ap_pg s)) 500 ''failed to fetch diffs'' s"

section \<open>Routing rules\<close>

record RuleInput =
  ri_DestinationID :: string
  ri_Name :: string
  ri_Priority :: int
  ri_LogicOperator :: string
  ri_Conditions :: json
  ri_IsActive :: bool

text \<open>\<open>print\<close> is \<open>json.Marshal\<close>; the rule is stored with the defaults of the handler.\<close>

definition new_rule :: "(json \<Rightarrow> bytes) \<Rightarrow> string \<Rightarrow> RuleInput \<Rightarrow> RoutingRule" where
  "new_rule print sourceID input =
    \<lparr>rr_ID = [], rr_SourceID = sourceID, rr_DestinationID = ri_DestinationID input, rr_Name = ri_Name input,
     rr_Priority = (if ri_Priority input = 0 then 100 else ri_Priority input),
     rr_LogicOperator = (if ri_LogicOperator input = [] then ''AND'' else ri_LogicOperator input),
     rr_Conditions = print (ri_Conditions input), rr_IsActive = True\<rparr>"

definition handleCreateRule :: "(json \<Rightarrow> bytes) \<Rightarrow> string \<Rightarrow> RuleInput option \<Rightarrow> string handler" where
  "handleCreateRule print sourceID body s =
    (case body of
       None \<Rightarrow> (Failure 400 ''invalid request body'', s)
     | Some input \<Rightarrow>
         (case CreateRoutingRule (new_rule print sourceID input) (ap_pg s) of
            (Inl _, p) \<Rightarrow> (Failure 500 ''failed to create rule'', s\<lparr>ap_pg := p\<rparr>)
          | (Inr i, p) \<Rightarrow> (Reply 201 i, s\<lparr>ap_pg := p\<rparr>)))"

definition handleListRules :: "string \<Rightarrow> RoutingRule list handler" where
  "handleListRules sourceID s = serve (GetRoutingRules sourceID (ap_pg s)) 500 ''failed to fetch rules'' s"

definition changed_rule :: "(json \<Rightarrow> bytes) \<Rightarrow> RuleInput \<Rightarrow> RoutingRule" where
  "changed_rule print input =
    \<lparr>rr_ID = [], rr_SourceID = [], rr_DestinationID = [], rr_Name = ri_Name input,
     rr_Priority = ri_Priority input, rr_LogicOperator = ri_LogicOperator input,
     rr_Conditions = print (ri_Conditions input), rr_IsActive = ri_IsActive input\<rparr>"

definition handleUpdateRule :: "(json \<Rightarrow> bytes) \<Rightarrow> string \<Rightarrow> RuleInput option \<Rightarrow> string handler" where
  "handleUpdateRule print ruleID body s =
    (case body of
       None \<Rightarrow> (Failure 400 ''invalid request body'', s)
     | Some input \<Rightarrow>
         serve_exec (UpdateRoutingRule ruleID (changed_rule print input) (ap_pg s)) ''failed to update rule'' ''updated'' s)"

definition handleDeleteRule :: "string \<Rightarrow> string handler" where
  "handleDeleteRule ruleID s =
    serve_exec (DeleteRoutingRule ruleID (ap_pg s)) ''failed to delete rule'' ''deleted'' s"

definition handleTestRule :: "unit handler" where
  "handleTestRule s = (Failure 501 ''not implemented'', s)"

section \<open>Replay sessions\<close>

record ReplayInput =
  rq_DestinationURL :: string
  rq_FromTimestamp :: string
  rq_InitiatedBy :: string

definition new_session :: "string \<Rightarrow> ReplayInput \<Rightarrow> int \<Rightarrow> ReplaySession" where
  "new_session sourceID input t =
    \<lparr>rs_ID = [], rs_SourceID = sourceID, rs_DestinationURL = rq_DestinationURL input, rs_FromTimestamp = t,
     rs_ToTimestamp = None, rs_Status = ''running'', rs_EventsReplayed = 0, rs_EventsTotal = None,
     rs_StartedAt = 0, rs_CompletedAt = None, rs_InitiatedBy = rq_InitiatedBy input\<rparr>"

text \<open>\<open>parse_time\<close> is \<open>time.Parse\<close> of RFC 3339; a replay engine that is started is noted in \<open>ap_started\<close>.\<close>

definition handleStartReplay ::
    "(string \<Rightarrow> int option) \<Rightarrow> bool \<Rightarrow> string \<Rightarrow> ReplayInput option \<Rightarrow> string handler" where
  "handleStartReplay parse_time has_engine sourceID body s =
    (case body of
       None \<Rightarrow> (Failure 400 ''invalid request body'', s)
     | Some input \<Rightarrow>
         (case parse_time (rq_FromTimestamp input) of
            None \<Rightarrow> (Failure 400 ''invalid from_timestamp, use RFC3339 format'', s)
          | Some t \<Rightarrow>
              (case CreateReplaySession (new_session sourceID input t) (ap_pg s) of
                 (Inl _, p) \<Rightarrow> (Failure 500 ''failed to create replay session'', s\<lparr>ap_pg := p\<rparr>)
               | (Inr i, p) \<Rightarrow>
                   (Reply 201 i, s\<lparr>ap_pg := p, ap_started := ap_started s @ (if has_engine then [i] else [])\<rparr>))))"

definition handleGetReplay :: "string \<Rightarrow> ReplaySession handler" where
  "handleGetReplay sessionID s = serve (GetReplaySession sessionID (ap_pg s)) 404 ''session not found'' s"

definition handlePauseReplay :: "string \<Rightarrow> string handler" where
  "handlePauseReplay sessionID s =
    serve_exec (UpdateReplaySessionStatus sessionID ''paused'' (ap_pg s)) ''failed to pause'' ''paused'' s"

definition handleResumeReplay :: "string \<Rightarrow> string handler" where
  "handleResumeReplay sessionID s =
    serve_exec (UpdateReplaySessionStatus sessionID ''running'' (ap_pg s)) ''failed to resume'' ''running'' s"

definition handleCancelReplay :: "string \<Rightarrow> string handler" where
  "handleCancelReplay sessionID s =
    serve_exec (UpdateReplaySessionStatus sessionID ''cancelled'' (ap_pg s)) ''failed to cancel'' ''cancelled'' s"

section \<open>Dashboard\<close>

definition handleListSources :: "string list handler" where
  "handleListSources s = serve (ListSources (ap_pg s)) 500 ''failed to list sources'' s"

definition handleListWebhooks :: "params \<Rightarrow> string \<Rightarrow> WebhookListItem list handler" where
  "handleListWebhooks query sourceID s =
    serve (ListWebhooks sourceID (queryInt query ''limit'' 50) (queryInt query ''offset'' 0) (ap_pg s))
      500 ''failed to list webhooks'' s"

text \<open>
  The envelope of a body that is no JSON text, as \<open>json.Marshal\<close> writes it: the keys in order, the body in
  base64. An empty body comes out of the archive as \<open>nil\<close>, which is written \<open>null\<close>.
\<close>

definition wrapped_body :: "bytes \<Rightarrow> bytes" where
  "wrapped_body b =
    ''{\"_note\":\"request body was not valid JSON '' @ [CHR 0xE2, CHR 0x80, CHR 0x94]
      @ '' wrapped for safe transport\",\"base64\":'' @ (if b = [] then ''null'' else ''\"'' @ base64 b @ ''\"'')
      @ '',\"size_bytes\":'' @ format_nat (length b) @ ''}''"

text \<open>\<open>valid\<close> is \<open>json.Valid\<close> and \<open>uuid\<close> the parser of event ids in the archive.\<close>

definition add_archived :: "(bytes \<Rightarrow> bool) \<Rightarrow> string \<Rightarrow> WebhookEvent option \<Rightarrow> WebhookDetail \<Rightarrow> WebhookDetail" where
  "add_archived valid sourceID ev d =
    (case ev of
       None \<Rightarrow> d
     | Some event \<Rightarrow>
         d\<lparr>we_Headers := ev_Headers event,
           we_RawBody := Some (if valid (ev_RawBody event) then ev_RawBody event else wrapped_body (ev_RawBody event)),
           we_SourceID := (if we_SourceID d = [] then sourceID else we_SourceID d)\<rparr>)"

definition handleGetWebhookDetail ::
    "(bytes \<Rightarrow> bool) \<Rightarrow> (string \<Rightarrow> string option) \<Rightarrow> params \<Rightarrow> string \<Rightarrow> WebhookDetail handler" where
  "handleGetWebhookDetail valid uuid query eventID s =
    (case GetWebhookDetail eventID (ap_pg s) of
       (Inl _, p) \<Rightarrow> (Failure 404 ''webhook not found'', s\<lparr>ap_pg := p\<rparr>)
     | (Inr detail, p) \<Rightarrow>
         let sourceID = (if we_SourceID detail = [] then query ''source_id'' else we_SourceID detail);
             (ev, sc) = (if sourceID \<noteq> [] then GetEvent uuid sourceID eventID (ap_sc s) else (None, ap_sc s));
             d = add_archived valid sourceID ev detail
         in (if (\<exists>b. we_RawBody d = Some b \<and> \<not> valid b) \<or> (\<exists>b. we_Diff d = Some b \<and> \<not> valid b)
             then Failure 500 ''failed to encode webhook detail'' else Reply 200 d,
             s\<lparr>ap_pg := p, ap_sc := sc\<rparr>))"

section \<open>Dead letters\<close>

definition handleListDLQ :: "params \<Rightarrow> DeadLetterEntry list handler" where
  "handleListDLQ query s =
    serve (ListDLQEntries (query ''source_id'') (queryInt query ''limit'' 50) (queryInt query ''offset'' 0) (ap_pg s))
      500 ''failed to list DLQ entries'' s"

text \<open>\<open>has_queue\<close> is \<open>False\<close> for a server without a connection to Redis.\<close>

definition handleRetryDLQ :: "bool \<Rightarrow> string \<Rightarrow> string handler" where
  "handleRetryDLQ has_queue eventID s =
    (if \<not> has_queue then (Failure 503 ''queue unavailable'', s)
     else case FindDLQEntry eventID (ap_rd s) of
       (None, q) \<Rightarrow> (Failure 500 ''failed to read DLQ'', s\<lparr>ap_rd := q\<rparr>)
     | (Some None, q) \<Rightarrow> (Failure 404 ''DLQ entry not found'', s\<lparr>ap_rd := q\<rparr>)
     | (Some (Some (rawValue, event)), q) \<Rightarrow>
         (case Enqueue QueueDelivery event q of
            (ok, q1) \<Rightarrow>
              if \<not> ok then (Failure 500 ''failed to re-enqueue for delivery'', s\<lparr>ap_rd := q1\<rparr>)
              else (Reply 200 eventID,
                    s\<lparr>ap_rd := snd (RemoveDLQEntry rawValue q1), ap_pg := snd (ResolveDLQEntry eventID (ap_pg s))\<rparr>)))"

definition handleDiscardDLQ :: "bool \<Rightarrow> string \<Rightarrow> string handler" where
  "handleDiscardDLQ has_queue eventID s =
    (let q = (if has_queue then
                (case FindDLQEntry eventID (ap_rd s) of
                   (Some (Some (rawValue, _)), q) \<Rightarrow> snd (RemoveDLQEntry rawValue q)
                 | (_, q) \<Rightarrow> q)
              else ap_rd s)
     in case ResolveDLQEntry eventID (ap_pg s) of
          (Some _, p) \<Rightarrow> (Failure 500 ''failed to mark DLQ entry resolved'', s\<lparr>ap_rd := q, ap_pg := p\<rparr>)
        | (None, p) \<Rightarrow> (Reply 200 eventID, s\<lparr>ap_rd := q, ap_pg := p\<rparr>))"

section \<open>Metrics\<close>

text \<open>\<open>zrange\<close> is what Redis answers, \<open>None\<close> for a server without a publisher.\<close>

definition serve_metrics :: "params \<Rightarrow> int \<Rightarrow> zset option option \<Rightarrow> string \<Rightarrow> MetricPoint list reply" where
  "serve_metrics query now zrange err =
    (case zrange of
       None \<Rightarrow> Reply 200 []
     | Some z \<Rightarrow>
         (case getMetrics now (queryInt query ''range'' 60) z of
            None \<Rightarrow> Failure 500 err
          | Some points \<Rightarrow> Reply 200 points))"

definition handleThroughputMetrics :: "params \<Rightarrow> int \<Rightarrow> zset option option \<Rightarrow> MetricPoint list reply" where
  "handleThroughputMetrics query now zrange = serve_metrics query now zrange ''failed to get throughput metrics''"

definition handleLatencyMetrics :: "params \<Rightarrow> int \<Rightarrow> zset option option \<Rightarrow> MetricPoint list reply" where
  "handleLatencyMetrics query now zrange = serve_metrics query now zrange ''failed to get latency metrics''"

section \<open>What retrying a dead letter does\<close>

text \<open>The three writes of a retry, whatever the stores answer.\<close>

lemma FindDLQEntry_frame:
  "FindDLQEntry i q = (r, q1) \<Longrightarrow>
    rd_lists q1 = rd_lists q \<and> (r = None \<or> r = Some (find_event i (rd_lists q QueueDLQ)))"
  by (auto simp: FindDLQEntry_def rd_command_def split: fate.splits)

lemma RemoveDLQEntry_cases:
  "rd_lists (snd (RemoveDLQEntry raw q)) = rd_lists q
   \<or> rd_lists (snd (RemoveDLQEntry raw q)) = (rd_lists q)(QueueDLQ := remove1 raw (rd_lists q QueueDLQ))"
  by (auto simp: RemoveDLQEntry_def rd_command_def split: fate.splits)

lemma find_event_remove:
  assumes "find_event i es = Some (raw, e)"
  obtains pre post where "es = pre @ raw # post" "remove1 raw es = pre @ post"
    "unmarshal_event raw = Some e" "ev_ID e = i"
    "\<forall>t \<in> set pre. \<forall>e'. unmarshal_event t = Some e' \<longrightarrow> ev_ID e' \<noteq> i"
  using find_event_Some [OF assms] by (auto simp: remove1_append)

definition resolve_row :: "string \<Rightarrow> int \<Rightarrow> DeadLetterEntry \<Rightarrow> DeadLetterEntry" where
  "resolve_row i now d =
    (if dl_EventID d = i \<and> \<not> dl_Resolved d then d\<lparr>dl_Resolved := True, dl_ResolvedAt := Some now\<rparr> else d)"

lemma resolve_row_open: "\<not> dl_Resolved (resolve_row i now d) \<Longrightarrow> dl_EventID (resolve_row i now d) \<noteq> i"
  by (simp add: resolve_row_def split: if_splits)

lemma ResolveDLQEntry_up:
  "pg_up p \<Longrightarrow> ResolveDLQEntry i p =
    (None, (pg_tick p)\<lparr>pg_dlq := map (resolve_row i (pg_now p)) (pg_dlq p)\<rparr>)"
  by (simp add: ResolveDLQEntry_def resolve_row_def pg_tick_def cong: map_cong)

lemma retry_up:
  assumes "queue_up (ap_rd s)" "pg_up (ap_pg s)" "find_event i (rd_lists (ap_rd s) QueueDLQ) = Some (raw, e)"
  shows "fst (handleRetryDLQ True i s) = Reply 200 i"
    "rd_lists (ap_rd (snd (handleRetryDLQ True i s))) = (rd_lists (ap_rd s))
      (QueueDLQ := remove1 raw (rd_lists (ap_rd s) QueueDLQ),
       QueueDelivery := rd_lists (ap_rd s) QueueDelivery @ [marshal_event e])"
    "pg_dlq (ap_pg (snd (handleRetryDLQ True i s))) = map (resolve_row i (pg_now (ap_pg s))) (pg_dlq (ap_pg s))"
  using assms
  by (simp_all add: handleRetryDLQ_def FindDLQEntry_def Enqueue_def RemoveDLQEntry_def rpush_def
      ResolveDLQEntry_up fun_upd_twist)

text \<open>
  Retrying a dead letter moves it. With both stores up and a dead letter of the event in the list, the
  handler answers 200, the delivery queue gains exactly the event (as its JSON form) at its end, the dead
  letter list loses exactly the entry that was found, the first one of the event, and no other queue
  changes.
\<close>

theorem retry_moves_dead_letter:
  assumes "queue_up (ap_rd s)" "pg_up (ap_pg s)" "find_event i (rd_lists (ap_rd s) QueueDLQ) = Some (raw, e)"
  shows "\<exists>pre post s'. handleRetryDLQ True i s = (Reply 200 i, s')
    \<and> rd_lists (ap_rd s) QueueDLQ = pre @ raw # post \<and> ev_ID e = i
    \<and> (\<forall>t \<in> set pre. \<forall>e'. unmarshal_event t = Some e' \<longrightarrow> ev_ID e' \<noteq> i)
    \<and> rd_lists (ap_rd s') = (rd_lists (ap_rd s))
        (QueueDLQ := pre @ post, QueueDelivery := rd_lists (ap_rd s) QueueDelivery @ [marshal_event e])"
proof -
  obtain rep s' where h: "handleRetryDLQ True i s = (rep, s')" by (cases "handleRetryDLQ True i s")
  then have "handleRetryDLQ True i s = (Reply 200 i, s')" using retry_up(1) [OF assms] by simp
  moreover obtain pre post where
    "rd_lists (ap_rd s) QueueDLQ = pre @ raw # post" and r: "remove1 raw (rd_lists (ap_rd s) QueueDLQ) = pre @ post"
    and "unmarshal_event raw = Some e" "ev_ID e = i"
    "\<forall>t \<in> set pre. \<forall>e'. unmarshal_event t = Some e' \<longrightarrow> ev_ID e' \<noteq> i"
    by (rule find_event_remove [OF assms(3)])
  moreover have "rd_lists (ap_rd s') = (rd_lists (ap_rd s))
      (QueueDLQ := pre @ post, QueueDelivery := rd_lists (ap_rd s) QueueDelivery @ [marshal_event e])"
    using retry_up(2) [OF assms] by (simp only: h snd_conv r)
  ultimately show ?thesis by blast
qed

text \<open>
  C21: a retry never loses an event. Whatever the stores answer and whichever replies get lost, the dead
  letter list is as before, or it lost one entry of the event and that event is in the delivery queue; no
  entry of any other event is touched; and the handler answers 200 only when the event is in the delivery
  queue.
\<close>

theorem retry_never_loses:
  "\<exists>q. rd_lists (ap_rd (snd (handleRetryDLQ has_queue i s))) = q
    \<and> (q QueueDLQ = rd_lists (ap_rd s) QueueDLQ
       \<or> (\<exists>raw e. unmarshal_event raw = Some e \<and> ev_ID e = i
            \<and> q QueueDLQ = remove1 raw (rd_lists (ap_rd s) QueueDLQ) \<and> raw \<in> set (rd_lists (ap_rd s) QueueDLQ)
            \<and> q QueueDelivery = rd_lists (ap_rd s) QueueDelivery @ [marshal_event e]))
    \<and> ((\<exists>c m. fst (handleRetryDLQ has_queue i s) = Failure c m)
       \<or> (\<exists>e. ev_ID e = i \<and> q QueueDelivery = rd_lists (ap_rd s) QueueDelivery @ [marshal_event e]))"
proof -
  obtain r q where f: "FindDLQEntry i (ap_rd s) = (r, q)" by (cases "FindDLQEntry i (ap_rd s)")
  note frame = FindDLQEntry_frame [OF f]
  consider "\<not> has_queue" | "r = None" | "r = Some None"
    | raw e where "has_queue" "r = Some (Some (raw, e))"
    by (metis not_None_eq surj_pair)
  then show ?thesis
  proof cases
    case 4
    with frame have found: "find_event i (rd_lists (ap_rd s) QueueDLQ) = Some (raw, e)" by simp
    obtain ok q1 where e: "Enqueue QueueDelivery e q = (ok, q1)" by (cases "Enqueue QueueDelivery e q")
    from find_event_Some [OF found] have raw: "raw \<in> set (rd_lists (ap_rd s) QueueDLQ)" by auto
    have ev: "unmarshal_event raw = Some e" "ev_ID e = i" using find_event_Some [OF found] by auto
    have h: "handleRetryDLQ has_queue i s =
      (if ok then (Reply 200 i, s\<lparr>ap_rd := snd (RemoveDLQEntry raw q1), ap_pg := snd (ResolveDLQEntry i (ap_pg s))\<rparr>)
       else (Failure 500 ''failed to re-enqueue for delivery'', s\<lparr>ap_rd := q1\<rparr>))"
      using 4 f e by (simp add: handleRetryDLQ_def)
    show ?thesis
    proof (cases ok)
      case True
      with Enqueue_ok [of QueueDelivery e q] e frame have "rd_lists q1 = (rd_lists (ap_rd s))
        (QueueDelivery := rd_lists (ap_rd s) QueueDelivery @ [marshal_event e])" by simp
      moreover from this RemoveDLQEntry_cases [of raw q1]
      have "rd_lists (snd (RemoveDLQEntry raw q1)) QueueDelivery = rd_lists (ap_rd s) QueueDelivery @ [marshal_event e]"
        "rd_lists (snd (RemoveDLQEntry raw q1)) QueueDLQ \<in>
          {rd_lists (ap_rd s) QueueDLQ, remove1 raw (rd_lists (ap_rd s) QueueDLQ)}" by auto
      ultimately show ?thesis using ev raw True by (simp add: h) blast
    next
      case False
      with Enqueue_cases [of QueueDelivery e q] e frame show ?thesis by (auto simp: h)
    qed
  qed (use f frame in \<open>auto simp: handleRetryDLQ_def\<close>)
qed

text \<open>The entries of an event in the dead letter list.\<close>

definition dead_letters :: "string \<Rightarrow> raw_text list \<Rightarrow> raw_text list" where
  "dead_letters i es = filter (\<lambda>raw. case unmarshal_event raw of None \<Rightarrow> False | Some e \<Rightarrow> ev_ID e = i) es"

lemma dead_letters_found: "dead_letters i es \<noteq> [] \<Longrightarrow> \<exists>raw e. find_event i es = Some (raw, e)"
proof (rule ccontr)
  assume "dead_letters i es \<noteq> []" "\<not> (\<exists>raw e. find_event i es = Some (raw, e))"
  moreover from this(2) have "find_event i es = None" by (cases "find_event i es") auto
  ultimately show False
    by (auto simp: find_event_None dead_letters_def filter_empty_conv split: option.splits)
qed

lemma dead_letters_remove:
  assumes "find_event i es = Some (raw, e)"
  shows "Suc (length (dead_letters i (remove1 raw es))) = length (dead_letters i es)"
proof -
  obtain pre post where "es = pre @ raw # post" "remove1 raw es = pre @ post" "unmarshal_event raw = Some e" "ev_ID e = i"
    by (rule find_event_remove [OF assms])
  then show ?thesis by (simp add: dead_letters_def)
qed

text \<open>
  C39: a retry answers for all dead letters of an event and moves one. When an event failed at several
  destinations, the list holds one entry for each, wherever they stand; a retry takes out exactly one of
  them, so at least one is still in Redis, while every row of the event in Postgres is resolved, so no page
  of the dead letter listing shows it any more.
\<close>

theorem retry_hides_other_entries:
  assumes "queue_up (ap_rd s)" "pg_up (ap_pg s)" "2 \<le> length (dead_letters i (rd_lists (ap_rd s) QueueDLQ))"
  shows "\<exists>s'. handleRetryDLQ True i s = (Reply 200 i, s')
    \<and> Suc (length (dead_letters i (rd_lists (ap_rd s') QueueDLQ))) = length (dead_letters i (rd_lists (ap_rd s) QueueDLQ))
    \<and> dead_letters i (rd_lists (ap_rd s') QueueDLQ) \<noteq> []
    \<and> (\<forall>query. case fst (handleListDLQ query s') of Reply _ ds \<Rightarrow> i \<notin> dl_EventID ` set ds | Failure _ _ \<Rightarrow> True)"
proof -
  have "dead_letters i (rd_lists (ap_rd s) QueueDLQ) \<noteq> []" using assms(3) by auto
  then obtain raw e where f: "find_event i (rd_lists (ap_rd s) QueueDLQ) = Some (raw, e)"
    using dead_letters_found by blast
  obtain rep s' where h: "handleRetryDLQ True i s = (rep, s')" by (cases "handleRetryDLQ True i s")
  with retry_up [OF assms(1,2) f] have s': "rep = Reply 200 i"
    "rd_lists (ap_rd s') QueueDLQ = remove1 raw (rd_lists (ap_rd s) QueueDLQ)"
    "pg_dlq (ap_pg s') = map (resolve_row i (pg_now (ap_pg s))) (pg_dlq (ap_pg s))"
    by auto
  have left: "Suc (length (dead_letters i (rd_lists (ap_rd s') QueueDLQ))) = length (dead_letters i (rd_lists (ap_rd s) QueueDLQ))"
    unfolding s'(2) by (rule dead_letters_remove [OF f])
  have shown: "i \<notin> dl_EventID ` set ds" if "fst (ListDLQEntries src limit off (ap_pg s')) = Inr ds" for src limit off ds
  proof -
    have "set ds \<subseteq> {d \<in> set (pg_dlq (ap_pg s')). \<not> dl_Resolved d}"
      using that by (auto simp: ListDLQEntries_def pg_query_def pg_page_def pg_tick_def
          split: if_splits dest!: in_set_takeD in_set_dropD)
    then have "\<exists>x. d = resolve_row i (pg_now (ap_pg s)) x \<and> \<not> dl_Resolved d" if "d \<in> set ds" for d
      unfolding s'(3) set_map using that by blast
    then show ?thesis using resolve_row_open by (metis image_iff)
  qed
  have "case fst (handleListDLQ query s') of Reply _ ds \<Rightarrow> i \<notin> dl_EventID ` set ds | Failure _ _ \<Rightarrow> True" for query
  proof -
    let ?q = "ListDLQEntries (query ''source_id'') (queryInt query ''limit'' 50) (queryInt query ''offset'' 0) (ap_pg s')"
    show ?thesis
      using shown [of "query ''source_id''" "queryInt query ''limit'' 50" "queryInt query ''offset'' 0"]
      by (cases ?q; cases "fst ?q") (auto simp: handleListDLQ_def serve_def)
  qed
  moreover have "dead_letters i (rd_lists (ap_rd s') QueueDLQ) \<noteq> []" using left assms(3) by auto
  ultimately show ?thesis using h s'(1) left by blast
qed

text \<open>An event that failed at two destinations, with its two entries.\<close>

definition twice_dead :: server where
  "twice_dead =
    \<lparr>ap_pg = (fresh_pg ''s'')\<lparr>pg_dlq := [\<lparr>dl_EventID = ''e'', dl_SourceID = ''s'', dl_DestinationID = ''d'',
        dl_RawBody = [], dl_Headers = [], dl_FailedAt = 0, dl_FailureReason = [], dl_Resolved = False,
        dl_ResolvedAt = None\<rparr>]\<rparr>,
     ap_sc = \<lparr>sc_rows = [], sc_faults = []\<rparr>,
     ap_rd = redis_of [(QueueDLQ, [EventText (plain ''e'' ''s'' []), EventText (plain ''e'' ''s'' [])])],
     ap_started = []\<rparr>"

lemma twice_dead_facts:
  "queue_up (ap_rd twice_dead)" "pg_up (ap_pg twice_dead)"
  "rd_lists (ap_rd twice_dead) QueueDLQ = [EventText (plain ''e'' ''s'' []), EventText (plain ''e'' ''s'' [])]"
  "rd_lists (ap_rd twice_dead) QueueDelivery = []" "ev_ID (plain ''e'' ''s'' []) = ''e''"
  by (simp_all add: twice_dead_def fresh_pg_def pg_up_def) (simp_all add: redis_of_def plain_def)

lemma twice_dead_found:
  "find_event ''e'' (rd_lists (ap_rd twice_dead) QueueDLQ) = Some (EventText (plain ''e'' ''s'' []), plain ''e'' ''s'' [])"
  by (simp add: twice_dead_facts)

theorem retry_moves_dead_letter_witness:
  "fst (handleRetryDLQ True ''e'' twice_dead) = Reply 200 ''e''
    \<and> rd_lists (ap_rd (snd (handleRetryDLQ True ''e'' twice_dead))) QueueDelivery = [marshal_event (plain ''e'' ''s'' [])]"
  using retry_moves_dead_letter [OF twice_dead_facts(1,2) twice_dead_found] by (auto simp: twice_dead_facts)

theorem retry_hides_other_entries_witness:
  "dead_letters ''e'' (rd_lists (ap_rd (snd (handleRetryDLQ True ''e'' twice_dead))) QueueDLQ) \<noteq> []
    \<and> pg_dlq (ap_pg twice_dead) \<noteq> []"
proof -
  have "2 \<le> length (dead_letters ''e'' (rd_lists (ap_rd twice_dead) QueueDLQ))"
    unfolding twice_dead_facts(3) by (simp add: dead_letters_def twice_dead_facts(5))
  from retry_hides_other_entries [OF twice_dead_facts(1,2) this] show ?thesis by (auto simp: twice_dead_def)
qed

end
