(* ===== verification/Hub.thy ===== *)
theory Hub
  imports Json "HOL-Library.Sublist"
begin

text \<open>
  \<open>internal/sse\<close>: the hub that fans messages out to the dashboard's event streams. A channel is a
  number, with its buffer and whether it is closed; an operation that would panic is \<open>None\<close>. The server
  of \<open>cmd/sse\<close>, one subscriber that broadcasts and a handler for each stream, is a step relation:
  the lock of the hub is taken by a broadcast for the whole loop over its clients, so a client comes and
  goes only between two broadcasts, while handlers read their channels at any time.
\<close>

section \<open>Messages\<close>

record Message =
  ms_Type :: string
  ms_Data :: bytes

text \<open>
  \<open>decode\<close> is \<open>json.Unmarshal\<close> into the envelope: its type and the text of its data. The source is
  the member \<open>source_id\<close> of the data, when the data are an object and the member is a string.
\<close>

definition message_source :: "(bytes \<Rightarrow> json option) \<Rightarrow> bytes \<Rightarrow> string" where
  "message_source parse data =
    (case unmarshal_map parse data of
       None \<Rightarrow> []
     | Some m \<Rightarrow> (case map_of (map_entries m) ''source_id'' of Some (JStr s) \<Rightarrow> s | _ \<Rightarrow> []))"

definition open_envelope ::
    "(bytes \<Rightarrow> (string \<times> bytes) option) \<Rightarrow> (bytes \<Rightarrow> json option) \<Rightarrow> bytes \<Rightarrow> (string \<times> Message) option" where
  "open_envelope decode parse rawPayload =
    map_option (\<lambda>(t, d). (message_source parse d, \<lparr>ms_Type = t, ms_Data = d\<rparr>)) (decode rawPayload)"

section \<open>The hub\<close>

record chan =
  ch_buf :: "Message list"
  ch_closed :: bool

record hub =
  hb_clients :: "nat \<Rightarrow> string option"
  hb_chans :: "nat \<Rightarrow> chan"
  hb_next :: nat

definition NewHub :: hub where
  "NewHub = \<lparr>hb_clients = (\<lambda>_. None), hb_chans = (\<lambda>_. \<lparr>ch_buf = [], ch_closed = False\<rparr>), hb_next = 0\<rparr>"

definition channel_slots :: nat where "channel_slots = 64"

definition Register :: "string \<Rightarrow> hub \<Rightarrow> nat \<times> hub" where
  "Register sourceFilter h =
    (let ch = hb_next h
     in (ch, h\<lparr>hb_clients := (hb_clients h)(ch \<mapsto> sourceFilter),
               hb_chans := (hb_chans h)(ch := \<lparr>ch_buf = [], ch_closed = False\<rparr>), hb_next := Suc ch\<rparr>))"

text \<open>Closing a closed channel panics.\<close>

definition Unregister :: "nat \<Rightarrow> hub \<Rightarrow> hub option" where
  "Unregister ch h =
    (if ch_closed (hb_chans h ch) then None
     else Some (h\<lparr>hb_clients := (hb_clients h)(ch := None),
                  hb_chans := (hb_chans h)(ch := (hb_chans h ch)\<lparr>ch_closed := True\<rparr>)\<rparr>))"

text \<open>A send in a \<open>select\<close> with a default: it panics on a closed channel and gives up on a full one.\<close>

definition try_send :: "Message \<Rightarrow> nat \<Rightarrow> hub \<Rightarrow> hub option" where
  "try_send msg ch h =
    (let c = hb_chans h ch
     in if ch_closed c then None
        else if length (ch_buf c) < channel_slots
        then Some (h\<lparr>hb_chans := (hb_chans h)(ch := c\<lparr>ch_buf := ch_buf c @ [msg]\<rparr>)\<rparr>)
        else Some h)"

text \<open>One round of the loop of a broadcast.\<close>

definition offer :: "string \<Rightarrow> Message \<Rightarrow> nat \<Rightarrow> hub \<Rightarrow> hub option" where
  "offer sourceID msg ch h =
    (case hb_clients h ch of
       None \<Rightarrow> Some h
     | Some wanted \<Rightarrow>
         if wanted \<noteq> [] \<and> sourceID \<noteq> [] \<and> wanted \<noteq> sourceID then Some h else try_send msg ch h)"

fun offer_all :: "string \<Rightarrow> Message \<Rightarrow> nat list \<Rightarrow> hub \<Rightarrow> hub option" where
  "offer_all sourceID msg [] h = Some h"
| "offer_all sourceID msg (ch # chs) h = Option.bind (offer sourceID msg ch h) (offer_all sourceID msg chs)"

text \<open>\<open>order\<close> lists the clients as the range over the map visits them.\<close>

definition Broadcast ::
    "(bytes \<Rightarrow> (string \<times> bytes) option) \<Rightarrow> (bytes \<Rightarrow> json option) \<Rightarrow> nat list \<Rightarrow> bytes \<Rightarrow> hub \<Rightarrow> hub option" where
  "Broadcast decode parse order rawPayload h =
    (case open_envelope decode parse rawPayload of
       None \<Rightarrow> Some h
     | Some (sourceID, msg) \<Rightarrow> offer_all sourceID msg order h)"

definition ClientCount :: "hub \<Rightarrow> nat" where
  "ClientCount h = card (dom (hb_clients h))"

section \<open>The event streams\<close>

text \<open>What a handler writes, and its text.\<close>

datatype sse_event = Connected | Event Message | Ping

fun render :: "sse_event \<Rightarrow> string" where
  "render Connected = ''event: connected\<newline>data: {\"status\":\"ok\"}\<newline>\<newline>''"
| "render (Event msg) = ''event: '' @ ms_Type msg @ ''\<newline>data: '' @ ms_Data msg @ ''\<newline>\<newline>''"
| "render Ping = '': ping\<newline>\<newline>''"

fun event_message :: "sse_event \<Rightarrow> Message option" where
  "event_message (Event msg) = Some msg"
| "event_message _ = None"

text \<open>
  \<open>sv_serving\<close> are the handlers between registering and their deferred unregistering, \<open>sv_casting\<close>
  is the broadcast in progress with the clients it has still to visit. The last three fields are history:
  the broadcasts so far, and for each channel its filter and the number of broadcasts when it came.
\<close>

record sse_server =
  sv_hub :: hub
  sv_serving :: "nat set"
  sv_out :: "nat \<Rightarrow> sse_event list"
  sv_casting :: "(string \<times> Message \<times> nat list) option"
  sv_crashed :: bool
  sv_log :: "(string \<times> Message) list"
  sv_filter :: "nat \<Rightarrow> string"
  sv_since :: "nat \<Rightarrow> nat"

definition sse_start :: sse_server where
  "sse_start = \<lparr>sv_hub = NewHub, sv_serving = {}, sv_out = (\<lambda>_. []), sv_casting = None, sv_crashed = False,
    sv_log = [], sv_filter = (\<lambda>_. []), sv_since = (\<lambda>_. 0)\<rparr>"

definition connected :: "string \<Rightarrow> sse_server \<Rightarrow> sse_server" where
  "connected sourceFilter s =
    (case Register sourceFilter (sv_hub s) of (ch, h) \<Rightarrow>
      s\<lparr>sv_hub := h, sv_serving := insert ch (sv_serving s), sv_out := (sv_out s)(ch := [Connected]),
        sv_filter := (sv_filter s)(ch := sourceFilter), sv_since := (sv_since s)(ch := length (sv_log s))\<rparr>)"

definition written :: "nat \<Rightarrow> sse_event \<Rightarrow> sse_server \<Rightarrow> sse_server" where
  "written ch e s = s\<lparr>sv_out := (sv_out s)(ch := sv_out s ch @ [e])\<rparr>"

definition received :: "nat \<Rightarrow> Message list \<Rightarrow> sse_server \<Rightarrow> sse_server" where
  "received ch ms s =
    s\<lparr>sv_hub := (sv_hub s)\<lparr>hb_chans := (hb_chans (sv_hub s))(ch := (hb_chans (sv_hub s) ch)\<lparr>ch_buf := ms\<rparr>)\<rparr>\<rparr>"

text \<open>
  The steps of the subscriber, and those of the handlers. A broadcast may begin with any message and
  source, so whatever the subscriber reads is one of them.
\<close>

inductive cast_step :: "sse_server \<Rightarrow> sse_server \<Rightarrow> bool" where
  begin_cast: "sv_casting s = None \<Longrightarrow> distinct order \<Longrightarrow> set order = dom (hb_clients (sv_hub s)) \<Longrightarrow>
    cast_step s (s\<lparr>sv_casting := Some (sourceID, msg, order), sv_log := sv_log s @ [(sourceID, msg)]\<rparr>)"
| send: "sv_casting s = Some (sourceID, msg, ch # chs) \<Longrightarrow> offer sourceID msg ch (sv_hub s) = Some h \<Longrightarrow>
    cast_step s (s\<lparr>sv_hub := h, sv_casting := Some (sourceID, msg, chs)\<rparr>)"
| send_panic: "sv_casting s = Some (sourceID, msg, ch # chs) \<Longrightarrow> offer sourceID msg ch (sv_hub s) = None \<Longrightarrow>
    cast_step s (s\<lparr>sv_crashed := True\<rparr>)"
| end_cast: "sv_casting s = Some (sourceID, msg, []) \<Longrightarrow> cast_step s (s\<lparr>sv_casting := None\<rparr>)"

inductive handler_step :: "sse_server \<Rightarrow> sse_server \<Rightarrow> bool" where
  connect: "sv_casting s = None \<Longrightarrow> handler_step s (connected sourceFilter s)"
| forward: "ch \<in> sv_serving s \<Longrightarrow> ch_buf (hb_chans (sv_hub s) ch) = msg # ms \<Longrightarrow>
    handler_step s (written ch (Event msg) (received ch ms s))"
| ping: "ch \<in> sv_serving s \<Longrightarrow> handler_step s (written ch Ping s)"
| leave: "ch \<in> sv_serving s \<Longrightarrow> sv_casting s = None \<Longrightarrow> Unregister ch (sv_hub s) = Some h \<Longrightarrow>
    handler_step s (s\<lparr>sv_hub := h, sv_serving := sv_serving s - {ch}\<rparr>)"
| leave_panic: "ch \<in> sv_serving s \<Longrightarrow> sv_casting s = None \<Longrightarrow> Unregister ch (sv_hub s) = None \<Longrightarrow>
    handler_step s (s\<lparr>sv_crashed := True\<rparr>)"

inductive sse_reachable :: "sse_server \<Rightarrow> bool" where
  start: "sse_reachable sse_start"
| cast: "sse_reachable s \<Longrightarrow> cast_step s s' \<Longrightarrow> sse_reachable s'"
| handle: "sse_reachable s \<Longrightarrow> handler_step s s' \<Longrightarrow> sse_reachable s'"

text \<open>
  The front of the server: the paths of its mux, the answer to a client that cannot stream, and the
  health check, which counts the streams.
\<close>

datatype sse_route = EventStream | Health | NotFound

definition sse_mux :: "string \<Rightarrow> sse_route" where
  "sse_mux path = (if path = ''/events'' then EventStream else if path = ''/health'' then Health else NotFound)"

definition ServeHTTP :: "bool \<Rightarrow> string \<Rightarrow> sse_server \<Rightarrow> (nat \<times> string) + sse_server" where
  "ServeHTTP flusher sourceFilter s =
    (if \<not> flusher then Inl (500, ''streaming unsupported\<newline>'') else Inr (connected sourceFilter s))"

definition sse_health :: "sse_server \<Rightarrow> string" where
  "sse_health s = ''{\"status\":\"ok\",\"clients\":'' @ format_nat (ClientCount (sv_hub s)) @ ''}''"

section \<open>No panic\<close>

definition hub_safe :: "sse_server \<Rightarrow> bool" where
  "hub_safe s \<longleftrightarrow> \<not> sv_crashed s \<and> dom (hb_clients (sv_hub s)) = sv_serving s
    \<and> (\<forall>ch \<in> sv_serving s. ch < hb_next (sv_hub s) \<and> \<not> ch_closed (hb_chans (sv_hub s) ch))
    \<and> (\<forall>src msg chs. sv_casting s = Some (src, msg, chs) \<longrightarrow> distinct chs \<and> set chs \<subseteq> sv_serving s)"

lemma offer_open: "\<not> ch_closed (hb_chans h ch) \<Longrightarrow> offer src msg ch h \<noteq> None"
  by (auto simp: offer_def try_send_def Let_def split: option.split)

lemma offer_frame:
  assumes "offer src msg ch h = Some h'"
  shows "hb_clients h' = hb_clients h" "hb_next h' = hb_next h"
    "ch_closed (hb_chans h' c) = ch_closed (hb_chans h c)" "c \<noteq> ch \<Longrightarrow> hb_chans h' c = hb_chans h c"
  using assms by (auto simp: offer_def try_send_def Let_def split: option.splits if_splits)

lemma cast_step_safe: "cast_step s s' \<Longrightarrow> hub_safe s \<Longrightarrow> hub_safe s'"
proof (induction rule: cast_step.induct)
  case (send s src msg ch chs h)
  then show ?case by (auto simp: hub_safe_def offer_frame)
next
  case (send_panic s src msg ch chs)
  then have "ch \<in> sv_serving s" by (auto simp: hub_safe_def)
  with send_panic.prems have "\<not> ch_closed (hb_chans (sv_hub s) ch)" by (simp add: hub_safe_def)
  with send_panic.hyps(2) offer_open show ?case by blast
qed (auto simp: hub_safe_def)

lemma handler_step_safe: "handler_step s s' \<Longrightarrow> hub_safe s \<Longrightarrow> hub_safe s'"
proof (induction rule: handler_step.induct)
  case (leave_panic ch s)
  then show ?case by (auto simp: hub_safe_def Unregister_def split: if_splits)
next
  case (leave ch s h)
  then show ?case by (clarsimp simp: hub_safe_def Unregister_def split: if_splits)
qed (auto simp: hub_safe_def connected_def Register_def Let_def written_def received_def)

lemma reachable_safe: "sse_reachable s \<Longrightarrow> hub_safe s"
proof (induction rule: sse_reachable.induct)
  case start
  show ?case by (simp add: hub_safe_def sse_start_def NewHub_def)
qed (auto intro: cast_step_safe handler_step_safe)

text \<open>
  C14: the hub never panics. In every reachable state of the server, whatever order clients come, read,
  and leave in around the broadcasts, no message was sent on a closed channel and no channel was closed
  twice; the registered channels are exactly those that a handler serves, they are open, and the health check reports their number.
\<close>

theorem hub_never_panics:
  assumes "sse_reachable s"
  shows "\<not> sv_crashed s \<and> dom (hb_clients (sv_hub s)) = sv_serving s
    \<and> (\<forall>ch \<in> sv_serving s. \<not> ch_closed (hb_chans (sv_hub s) ch))
    \<and> sse_health s = ''{\"status\":\"ok\",\"clients\":'' @ format_nat (card (sv_serving s)) @ ''}''"
  using reachable_safe [OF assms] by (simp add: hub_safe_def sse_health_def ClientCount_def)

section \<open>What a stream carries\<close>

definition shown :: "string \<Rightarrow> string \<Rightarrow> bool" where
  "shown wanted src \<longleftrightarrow> wanted = [] \<or> src = [] \<or> wanted = src"

text \<open>
  The messages meant for a channel since it came, those that reached it (written out, or in its buffer),
  and the one that the broadcast in progress has still to offer it.
\<close>

definition meant :: "nat \<Rightarrow> sse_server \<Rightarrow> Message list" where
  "meant ch s = map snd (filter (\<lambda>x. shown (sv_filter s ch) (fst x)) (drop (sv_since s ch) (sv_log s)))"

definition reached :: "nat \<Rightarrow> sse_server \<Rightarrow> Message list" where
  "reached ch s = List.map_filter event_message (sv_out s ch) @ ch_buf (hb_chans (sv_hub s) ch)"

definition pending :: "nat \<Rightarrow> sse_server \<Rightarrow> Message list" where
  "pending ch s =
    (case sv_casting s of
       None \<Rightarrow> []
     | Some (src, msg, chs) \<Rightarrow> if ch \<in> set chs \<and> shown (sv_filter s ch) src then [msg] else [])"

definition stream_ok :: "nat \<Rightarrow> sse_server \<Rightarrow> bool" where
  "stream_ok ch s \<longleftrightarrow>
    (ch \<in> sv_serving s \<longrightarrow> hb_clients (sv_hub s) ch = Some (sv_filter s ch))
    \<and> sv_since s ch \<le> length (sv_log s)
    \<and> length (ch_buf (hb_chans (sv_hub s) ch)) \<le> channel_slots
    \<and> subseq (reached ch s @ pending ch s) (meant ch s)
    \<and> (ch \<in> sv_serving s \<and> length (meant ch s) \<le> channel_slots \<longrightarrow> reached ch s @ pending ch s = meant ch s)"

lemma offer_client:
  "hb_clients h ch = Some wanted \<Longrightarrow> \<not> ch_closed (hb_chans h ch) \<Longrightarrow> offer src msg ch h =
    Some (if shown wanted src \<and> length (ch_buf (hb_chans h ch)) < channel_slots
          then h\<lparr>hb_chans := (hb_chans h)(ch := (hb_chans h ch)\<lparr>ch_buf := ch_buf (hb_chans h ch) @ [msg]\<rparr>)\<rparr> else h)"
  by (auto simp: offer_def try_send_def shown_def Let_def)

text \<open>A step that only moves a message along its stream, or takes clients away.\<close>

lemma stream_frame:
  assumes "stream_ok ch s" "sv_casting s' = sv_casting s" "sv_filter s' = sv_filter s" "sv_since s' = sv_since s"
    "sv_log s' = sv_log s" "reached ch s' = reached ch s"
    "length (ch_buf (hb_chans (sv_hub s') ch)) \<le> length (ch_buf (hb_chans (sv_hub s) ch))"
    "ch \<in> sv_serving s' \<Longrightarrow> ch \<in> sv_serving s \<and> hb_clients (sv_hub s') ch = hb_clients (sv_hub s) ch"
  shows "stream_ok ch s'"
proof -
  have "meant ch s' = meant ch s" "pending ch s' = pending ch s"
    unfolding meant_def pending_def assms(2-5) by (rule refl)+
  with assms(1,3-8) show ?thesis by (auto simp: stream_ok_def)
qed

lemma begin_cast_stream:
  assumes "stream_ok ch s" "sv_casting s = None" "ch \<in> set order \<longrightarrow> ch \<in> sv_serving s" "ch \<in> sv_serving s \<longrightarrow> ch \<in> set order"
  shows "stream_ok ch (s\<lparr>sv_casting := Some (src, msg, order), sv_log := sv_log s @ [(src, msg)]\<rparr>)"
proof -
  let ?s = "s\<lparr>sv_casting := Some (src, msg, order), sv_log := sv_log s @ [(src, msg)]\<rparr>"
  have m: "meant ch ?s = meant ch s @ (if shown (sv_filter s ch) src then [msg] else [])"
    using assms(1) by (auto simp: meant_def stream_ok_def)
  have p: "pending ch s = []" "pending ch ?s = (if ch \<in> sv_serving s \<and> shown (sv_filter s ch) src then [msg] else [])"
    using assms(2-4) by (auto simp: pending_def)
  have r: "reached ch ?s = reached ch s" by (simp add: reached_def)
  show ?thesis using assms(1) unfolding stream_ok_def m p r
    by (auto intro: subseq_rev_drop_many)
qed

lemma send_stream:
  assumes ok: "stream_ok c s" and safe: "hub_safe s" and cast: "sv_casting s = Some (src, msg, ch # chs)"
    and off: "offer src msg ch (sv_hub s) = Some h"
  shows "stream_ok c (s\<lparr>sv_hub := h, sv_casting := Some (src, msg, chs)\<rparr>)"
proof -
  let ?s = "s\<lparr>sv_hub := h, sv_casting := Some (src, msg, chs)\<rparr>"
  have m: "meant c ?s = meant c s" by (simp add: meant_def)
  have ch: "ch \<in> sv_serving s" "ch \<notin> set chs" "\<not> ch_closed (hb_chans (sv_hub s) ch)"
    using safe cast by (auto simp: hub_safe_def)
  show ?thesis
  proof (cases "c = ch")
    case False
    then have "pending c ?s = pending c s" "reached c ?s = reached c s" "hb_chans h c = hb_chans (sv_hub s) c"
      using cast offer_frame [OF off] by (auto simp: pending_def reached_def)
    with ok offer_frame(1) [OF off] show ?thesis by (simp add: stream_ok_def m)
  next
    case True
    let ?buf = "ch_buf (hb_chans (sv_hub s) c)" and ?see = "shown (sv_filter s c) src"
    have "hb_clients (sv_hub s) c = Some (sv_filter s c)" using ok ch(1) True by (simp add: stream_ok_def)
    with off ch(3) True have h: "h = (if ?see \<and> length ?buf < channel_slots
          then (sv_hub s)\<lparr>hb_chans := (hb_chans (sv_hub s))(c := (hb_chans (sv_hub s) c)\<lparr>ch_buf := ?buf @ [msg]\<rparr>)\<rparr>
          else sv_hub s)"
      by (auto simp: offer_client)
    have p: "pending c ?s = []" "pending c s = (if ?see then [msg] else [])"
      using cast ch(2) True by (auto simp: pending_def)
    have r: "reached c ?s = reached c s @ (if ?see \<and> length ?buf < channel_slots then [msg] else [])"
      by (simp add: reached_def h)
    have room: "length ?buf < channel_slots" if "reached c s @ [msg] = meant c s" "length (meant c s) \<le> channel_slots"
    proof -
      have "length ?buf < length (meant c s)" unfolding that(1) [symmetric] by (simp add: reached_def)
      with that(2) show ?thesis by simp
    qed
    have sub: "subseq (reached c s) (meant c s)"
      using ok subseq_append' by (metis p(2) stream_ok_def subseq_order.trans subseq_rev_drop_many subseq_order.refl)
    have buf: "length (ch_buf (hb_chans h c)) \<le> channel_slots" "hb_clients h = hb_clients (sv_hub s)"
      using ok by (auto simp: h stream_ok_def)
    show ?thesis
      using ok sub room buf unfolding stream_ok_def m r p by (auto split: if_splits)
  qed
qed

lemma end_stream:
  assumes "stream_ok c s" "sv_casting s = Some (src, msg, [])"
  shows "stream_ok c (s\<lparr>sv_casting := None\<rparr>)"
  using assms by (simp add: stream_ok_def meant_def reached_def pending_def)

lemma connect_stream:
  assumes "hub_safe s" "sv_casting s = None" "c = hb_next (sv_hub s) \<or> stream_ok c s"
  shows "stream_ok c (connected f s)"
  using assms by (auto simp: stream_ok_def meant_def reached_def pending_def connected_def Register_def Let_def
      map_filter_simps hub_safe_def)

lemma forward_stream:
  "stream_ok c s \<Longrightarrow> ch_buf (hb_chans (sv_hub s) ch) = msg # ms \<Longrightarrow>
    stream_ok c (written ch (Event msg) (received ch ms s))"
  by (erule stream_frame) (auto simp: reached_def written_def received_def List.map_filter_def)

lemma ping_stream: "stream_ok c s \<Longrightarrow> stream_ok c (written ch Ping s)"
  by (erule stream_frame) (auto simp: reached_def written_def List.map_filter_def)

lemma leave_stream:
  "stream_ok c s \<Longrightarrow> Unregister ch (sv_hub s) = Some h \<Longrightarrow>
    stream_ok c (s\<lparr>sv_hub := h, sv_serving := sv_serving s - {ch}\<rparr>)"
  by (erule stream_frame) (auto simp: reached_def Unregister_def split: if_splits)

lemma crashed_stream: "stream_ok c s \<Longrightarrow> stream_ok c (s\<lparr>sv_crashed := True\<rparr>)"
  by (erule stream_frame) (auto simp: reached_def)

lemma no_new_channel [simp]:
  "hb_next (sv_hub (written ch e s)) = hb_next (sv_hub s)" "hb_next (sv_hub (received ch ms s)) = hb_next (sv_hub s)"
  "Unregister ch h = Some h' \<Longrightarrow> hb_next h' = hb_next h"
  by (auto simp: written_def received_def Unregister_def split: if_splits)

lemma cast_step_stream: "cast_step s s' \<Longrightarrow> hub_safe s \<Longrightarrow> stream_ok c s \<Longrightarrow> stream_ok c s'"
proof (induction rule: cast_step.induct)
  case (begin_cast s order src msg)
  then show ?case by (intro begin_cast_stream) (auto simp: hub_safe_def)
qed (auto intro: send_stream end_stream crashed_stream)

lemma handler_step_stream:
  "handler_step s s' \<Longrightarrow> hub_safe s \<Longrightarrow> c = hb_next (sv_hub s) \<or> stream_ok c s \<Longrightarrow> c < hb_next (sv_hub s') \<Longrightarrow>
    stream_ok c s'"
  by (induction rule: handler_step.induct)
    (auto intro: connect_stream forward_stream ping_stream leave_stream crashed_stream)

lemma cast_step_next: "cast_step s s' \<Longrightarrow> hb_next (sv_hub s') = hb_next (sv_hub s)"
  by (induction rule: cast_step.induct) (auto simp: offer_frame)

lemma handler_step_next: "handler_step s s' \<Longrightarrow> hb_next (sv_hub s') \<le> Suc (hb_next (sv_hub s))"
  by (induction rule: handler_step.induct) (auto simp: connected_def Register_def Let_def)

lemma reachable_stream: "sse_reachable s \<Longrightarrow> c < hb_next (sv_hub s) \<Longrightarrow> stream_ok c s"
proof (induction rule: sse_reachable.induct)
  case start
  then show ?case by (simp add: sse_start_def NewHub_def)
next
  case (cast s s')
  then show ?case using cast_step_stream reachable_safe cast_step_next by metis
next
  case (handle s s')
  then have "c = hb_next (sv_hub s) \<or> c < hb_next (sv_hub s)" using handler_step_next by fastforce
  with handle show ?case using handler_step_stream reachable_safe by blast
qed

text \<open>
  C13: what a stream carries. In every reachable state, the messages written to a stream followed by those
  in its buffer are, in order and without repetition, among those broadcast since the stream came that its
  filter lets through: a stream never gets another source's message, one from before it connected, a
  message twice, or messages out of order. At most 64 messages wait in a buffer. And a stream that is
  served and was meant to get at most 64 messages lost none of them, once no broadcast is in progress.
\<close>

theorem stream_in_order:
  assumes "sse_reachable s" "c < hb_next (sv_hub s)"
  shows "subseq (reached c s) (meant c s) \<and> length (ch_buf (hb_chans (sv_hub s) c)) \<le> 64
    \<and> (sv_casting s = None \<and> c \<in> sv_serving s \<and> length (meant c s) \<le> 64 \<longrightarrow> reached c s = meant c s)"
proof -
  note ok = reachable_stream [OF assms]
  then have "subseq (reached c s) (meant c s)"
    by (metis stream_ok_def subseq_order.trans subseq_rev_drop_many subseq_order.refl)
  with ok show ?thesis by (auto simp: stream_ok_def channel_slots_def pending_def)
qed

section \<open>A broadcast ends\<close>

lemma offer_all_run:
  assumes "hub_safe s" "sv_casting s = Some (src, msg, chs)"
  shows "\<exists>h. offer_all src msg chs (sv_hub s) = Some h
    \<and> (cast_step ^^ Suc (length chs)) s (s\<lparr>sv_hub := h, sv_casting := None\<rparr>)"
  using assms
proof (induction chs arbitrary: s)
  case Nil
  then have "cast_step s (s\<lparr>sv_casting := None\<rparr>)" by (auto intro: end_cast)
  then show ?case by (simp add: relcompp_apply)
next
  case (Cons ch chs)
  from Cons.prems have "\<not> ch_closed (hb_chans (sv_hub s) ch)" by (auto simp: hub_safe_def)
  then obtain h where h: "offer src msg ch (sv_hub s) = Some h" using offer_open by blast
  let ?s = "s\<lparr>sv_hub := h, sv_casting := Some (src, msg, chs)\<rparr>"
  have step: "cast_step s ?s" using Cons.prems(2) h by (rule send)
  from Cons.IH [of ?s] cast_step_safe [OF step Cons.prems(1)] obtain h' where
    "offer_all src msg chs h = Some h'" "(cast_step ^^ Suc (length chs)) ?s (?s\<lparr>sv_hub := h', sv_casting := None\<rparr>)" by auto
  moreover from relpowp_Suc_I2 [OF step this(2)]
  have "(cast_step ^^ Suc (length (ch # chs))) s (s\<lparr>sv_hub := h', sv_casting := None\<rparr>)" by simp
  ultimately show ?case using h by (intro exI [of _ h']) simp
qed

lemma offer_all_buffers:
  assumes "offer_all src msg chs h = Some h'" "distinct chs" "set chs \<subseteq> dom (hb_clients h)"
    "\<forall>c \<in> set chs. \<not> ch_closed (hb_chans h c)"
  shows "ch_buf (hb_chans h' c) = ch_buf (hb_chans h c) @
    (if c \<in> set chs \<and> shown (the (hb_clients h c)) src \<and> length (ch_buf (hb_chans h c)) < channel_slots then [msg] else [])"
  using assms
proof (induction chs arbitrary: h)
  case (Cons ch chs)
  then obtain h1 where h1: "offer src msg ch h = Some h1" "offer_all src msg chs h1 = Some h'"
    by (auto simp: bind_eq_Some_conv)
  from Cons.prems(3) obtain wanted where w: "hb_clients h ch = Some wanted" by auto
  note frame = offer_frame [OF h1(1)]
  have rest: "ch_buf (hb_chans h' c) = ch_buf (hb_chans h1 c) @
    (if c \<in> set chs \<and> shown (the (hb_clients h1 c)) src \<and> length (ch_buf (hb_chans h1 c)) < channel_slots then [msg] else [])"
    using Cons.prems(2-4) by (intro Cons.IH [OF h1(2)]) (auto simp: frame)
  have own: "ch_buf (hb_chans h1 ch) = ch_buf (hb_chans h ch) @
      (if shown wanted src \<and> length (ch_buf (hb_chans h ch)) < channel_slots then [msg] else [])"
    using h1(1) Cons.prems(4) offer_client [OF w, of src msg] by auto
  show ?case
  proof (cases "c = ch")
    case True
    with rest own w Cons.prems(2) show ?thesis by (simp add: frame)
  next
    case False
    with rest frame(4) [OF False] show ?thesis by (simp add: frame)
  qed
qed simp

text \<open>A broadcast between two others is over after two steps and one for each client, with no step of a handler.\<close>

lemma broadcast_run:
  assumes "sse_reachable s" "sv_casting s = None" "open_envelope decode parse payload = Some (src, msg)"
    and "distinct order" "set order = dom (hb_clients (sv_hub s))"
  shows "\<exists>h. Broadcast decode parse order payload (sv_hub s) = Some h
    \<and> (cast_step ^^ (ClientCount (sv_hub s) + 2)) s (s\<lparr>sv_hub := h, sv_log := sv_log s @ [(src, msg)]\<rparr>)
    \<and> (\<forall>c \<in> sv_serving s. ch_buf (hb_chans h c) = ch_buf (hb_chans (sv_hub s) c) @
        (if shown (the (hb_clients (sv_hub s) c)) src \<and> length (ch_buf (hb_chans (sv_hub s) c)) < channel_slots
         then [msg] else []))"
proof -
  let ?s = "s\<lparr>sv_casting := Some (src, msg, order), sv_log := sv_log s @ [(src, msg)]\<rparr>"
  have step: "cast_step s ?s" using assms(2,4,5) by (rule begin_cast)
  have safe: "hub_safe s" by (rule reachable_safe [OF assms(1)])
  have "hub_safe ?s" using cast_step_safe [OF step safe] .
  then obtain h where h: "offer_all src msg order (sv_hub s) = Some h"
    and run: "(cast_step ^^ Suc (length order)) ?s (?s\<lparr>sv_hub := h, sv_casting := None\<rparr>)"
    using offer_all_run [of ?s src msg order] by auto
  have len: "length order = ClientCount (sv_hub s)"
    using assms(4,5) by (simp add: ClientCount_def distinct_card [symmetric])
  have last: "?s\<lparr>sv_hub := h, sv_casting := None\<rparr> = s\<lparr>sv_hub := h, sv_log := sv_log s @ [(src, msg)]\<rparr>"
    using assms(2) by simp
  have "(cast_step ^^ (ClientCount (sv_hub s) + 2)) s (s\<lparr>sv_hub := h, sv_log := sv_log s @ [(src, msg)]\<rparr>)"
    using relpowp_Suc_I2 [OF step run] unfolding last by (simp add: len)
  moreover have "Broadcast decode parse order payload (sv_hub s) = Some h" using h assms(3) by (simp add: Broadcast_def)
  moreover have "set order = sv_serving s" "\<forall>c \<in> set order. \<not> ch_closed (hb_chans (sv_hub s) c)"
    using safe assms(5) by (simp_all add: hub_safe_def)
  then have "\<forall>c \<in> sv_serving s. ch_buf (hb_chans h c) = ch_buf (hb_chans (sv_hub s) c) @
        (if shown (the (hb_clients (sv_hub s) c)) src \<and> length (ch_buf (hb_chans (sv_hub s) c)) < channel_slots
         then [msg] else [])"
    using offer_all_buffers [OF h assms(4)] assms(5) by simp
  ultimately show ?thesis by blast
qed

text \<open>A stream of source \<open>a\<close>, in the middle of a broadcast from that source.\<close>

definition hello :: Message where "hello = \<lparr>ms_Type = ''t'', ms_Data = ''{}''\<rparr>"

definition one_stream :: sse_server where "one_stream = connected ''a'' sse_start"

lemma one_stream_reachable: "sse_reachable one_stream"
  using handle [OF start connect [of sse_start "''a''"]] by (simp add: one_stream_def sse_start_def)

lemma one_stream_facts:
  "sv_casting one_stream = None" "hb_next (sv_hub one_stream) = 1" "hb_clients (sv_hub one_stream) = [0 \<mapsto> ''a'']"
  "sv_serving one_stream = {0}" "sv_log one_stream = []"
  by (simp_all add: one_stream_def connected_def sse_start_def Register_def NewHub_def Let_def)

definition casting_stream :: sse_server where
  "casting_stream = one_stream\<lparr>sv_casting := Some (''a'', hello, [0]), sv_log := [(''a'', hello)]\<rparr>"

lemma casting_stream_reachable: "sse_reachable casting_stream"
proof -
  have "cast_step one_stream (one_stream\<lparr>sv_casting := Some (''a'', hello, [0]), sv_log := sv_log one_stream @ [(''a'', hello)]\<rparr>)"
    by (rule begin_cast) (simp_all add: one_stream_facts)
  with one_stream_reachable show ?thesis
    by (auto intro: cast simp: casting_stream_def one_stream_facts)
qed

theorem hub_never_panics_witness:
  "\<not> sv_crashed casting_stream \<and> sv_casting casting_stream = Some (''a'', hello, [0]) \<and> sv_serving casting_stream = {0}"
  using hub_never_panics [OF casting_stream_reachable] by (simp add: casting_stream_def one_stream_facts)

theorem stream_in_order_witness: "subseq (reached 0 casting_stream) [hello]"
proof -
  have "meant 0 casting_stream = [hello]"
    by (simp add: meant_def casting_stream_def one_stream_def connected_def sse_start_def Register_def NewHub_def
        Let_def shown_def)
  then show ?thesis
    using stream_in_order [OF casting_stream_reachable, of 0] by (simp add: casting_stream_def one_stream_facts)
qed

end
