(* ===== verification/Streams.thy ===== *)
theory Streams
  imports Hub Fanout Ingestion Bridge
begin

text \<open>
  From a service to the dashboard: what ingestion, the bridge and the delivery engine publish about an
  event, and where it goes. The publisher and the subscriber of Pubsub connect the goroutines of the
  delivery engine, among others, to the hub.
\<close>

section \<open>What is published about an event\<close>

definition received_publication :: "WebhookEvent \<Rightarrow> publication" where
  "received_publication event =
    (EventWebhookReceived, [(''event_id'', GoStr (ev_ID event)), (''source_id'', GoStr (ev_SourceID event)),
       (''received_at'', GoTime (ev_ReceivedAt event))])"

definition extraction_publication :: "ExtractResponse \<Rightarrow> string \<Rightarrow> WebhookEvent \<Rightarrow> publication" where
  "extraction_publication resp fileType event =
    (EventExtractionComplete, [(''event_id'', GoStr (ev_ID event)), (''source_id'', GoStr (ev_SourceID event)),
       (''template_id'', GoStr (xp_TemplateID resp)), (''cache_hit'', GoBool (xp_CacheHit resp)),
       (''duration_ms'', GoInt (xp_DurationMs resp)), (''file_type'', GoStr fileType)])"

text \<open>
  All of them: \<open>drifts\<close> are those that the inspection of the event found, and the delivery goroutines
  publish in their traces.
\<close>

inductive publishes :: "WebhookEvent \<Rightarrow> publication \<Rightarrow> bool" where
  received: "publishes event (received_publication event)"
| extracted: "publishes event (extraction_publication resp fileType event)"
| drifted: "inspect_event en now event s = (drifts, s') \<Longrightarrow> pub \<in> set (drift_publications event drifts)
    \<Longrightarrow> publishes event pub"
| delivering: "Publish pub \<in> set (fst (deliverToDestination canonical nt maxRetries event dest)) \<Longrightarrow> publishes event pub"

inductive_cases publishes_cases: "publishes event pub"

lemma attempt_no_publication: "Publish pub \<notin> set (fst (attemptDelivery c a ev d))"
  by (auto simp: attemptDelivery_def split: http_outcome.splits)

definition announces :: "WebhookEvent \<Rightarrow> publication \<Rightarrow> bool" where
  "announces ev pub \<longleftrightarrow> about (ev_SourceID ev) pub \<and> ascii (fst pub) \<and> CHR 0x0A \<notin> set (fst pub)"

lemma delivered_announces: "announces ev (delivered_publication ev d code dur)"
  by (simp add: announces_def delivered_publication_def about_def event_types ascii_def)

lemma moveToDLQ_announces: "Publish pub \<in> set (moveToDLQ now ev d r) \<Longrightarrow> announces ev pub"
  by (auto simp: moveToDLQ_def announces_def about_def event_types ascii_def)

lemma loop_announces:
  "Publish pub \<in> set (fst (deliver_loop c nt m ev d ns)) \<Longrightarrow> announces ev pub"
proof (induction ns)
  case Nil
  then show ?case
    by (auto simp: announces_def about_def event_types ascii_def dest: moveToDLQ_announces)
next
  case (Cons n ns)
  then show ?case
    unfolding deliver_loop_round
    by (auto simp: Let_def case_prod_unfold attempt_no_publication delivered_announces
        dest: moveToDLQ_announces split: if_splits)
qed

lemma published_announces: "publishes ev pub \<Longrightarrow> announces ev pub"
proof (induction rule: publishes.induct)
  case (delivering pub c nt m ev d)
  then show ?case unfolding deliverToDestination_def by (rule loop_announces)
qed (auto simp: announces_def about_def event_types ascii_def received_publication_def extraction_publication_def
    drift_publications_def)

section \<open>To the streams\<close>

text \<open>The subscriber of \<open>cmd/sse\<close>: every payload is broadcast, in some order of the clients.\<close>

definition feed ::
    "(bytes \<Rightarrow> (string \<times> bytes) option) \<Rightarrow> (bytes \<Rightarrow> json option) \<Rightarrow> nat list \<Rightarrow> selected list \<Rightarrow> hub option
     \<Rightarrow> bool \<times> hub option" where
  "feed decode parse order =
    Subscribe (\<lambda>payload h. Option.bind h (Broadcast decode parse order payload))"

lemma carried_envelope:
  assumes "carries decode parse num stamp \<lparr>pe_Type = t, pe_Data = kv, pe_Timestamp = now\<rparr> payload data"
    and "map_of kv ''source_id'' = Some (GoStr src)"
  shows "open_envelope decode parse payload = Some (to_valid src, \<lparr>ms_Type = to_valid t, ms_Data = data\<rparr>)"
  using assms
  by (auto simp: carries_def open_envelope_def message_source_def unmarshal_map_def map_entries_def)

text \<open>
  C15: what is published arrives. Take anything that a service publishes about an event, the publisher's
  command succeeding, and the server of the streams between two broadcasts. The subscriber then broadcasts
  the payload without a panic, in two steps and one for each client, during which no client has to read;
  every stream with room for it gets exactly one message of the published type and data when it has no
  filter or its filter is the event's source, and no other stream gets anything. Only an event whose source
  is empty would be shown to all.
\<close>

theorem published_event_reaches_streams:
  assumes server: "sse_reachable s" "sv_casting s = None" "distinct order" "set order = dom (hb_clients (sv_hub s))"
    and pub: "publishes ev pub" "publish marshal redis now pub channel = (None, channel @ [payload])"
    and json: "carries decode parse num stamp \<lparr>pe_Type = fst pub, pe_Data = snd pub, pe_Timestamp = now\<rparr> payload data"
    and source: "ev_SourceID ev = to_valid (ev_SourceID ev)" "ev_SourceID ev \<noteq> []"
  shows "\<exists>h. feed decode parse order [Received payload] (Some (sv_hub s)) = (False, Some h)
    \<and> (cast_step ^^ (ClientCount (sv_hub s) + 2)) s
        (s\<lparr>sv_hub := h, sv_log := sv_log s @ [(ev_SourceID ev, \<lparr>ms_Type = fst pub, ms_Data = data\<rparr>)]\<rparr>)
    \<and> (\<forall>c wanted. hb_clients (sv_hub s) c = Some wanted \<longrightarrow>
        ch_buf (hb_chans h c) = ch_buf (hb_chans (sv_hub s) c) @
          (if (wanted = [] \<or> wanted = ev_SourceID ev) \<and> length (ch_buf (hb_chans (sv_hub s) c)) < 64
           then [\<lparr>ms_Type = fst pub, ms_Data = data\<rparr>] else []))"
proof -
  have a: "map_of (snd pub) ''source_id'' = Some (GoStr (ev_SourceID ev))" "to_valid (fst pub) = fst pub"
    using published_announces [OF pub(1)] by (simp_all add: announces_def about_def)
  have e: "open_envelope decode parse payload = Some (ev_SourceID ev, \<lparr>ms_Type = fst pub, ms_Data = data\<rparr>)"
    using carried_envelope [OF json a(1)] a(2) source(1) by simp
  from broadcast_run [OF server(1,2) e server(3,4)] obtain h where
    h: "Broadcast decode parse order payload (sv_hub s) = Some h"
    and run: "(cast_step ^^ (ClientCount (sv_hub s) + 2)) s
        (s\<lparr>sv_hub := h, sv_log := sv_log s @ [(ev_SourceID ev, \<lparr>ms_Type = fst pub, ms_Data = data\<rparr>)]\<rparr>)"
    and buf: "\<forall>c \<in> sv_serving s. ch_buf (hb_chans h c) = ch_buf (hb_chans (sv_hub s) c) @
        (if shown (the (hb_clients (sv_hub s) c)) (ev_SourceID ev) \<and> length (ch_buf (hb_chans (sv_hub s) c)) < channel_slots
         then [\<lparr>ms_Type = fst pub, ms_Data = data\<rparr>] else [])"
    by blast
  have "sv_serving s = dom (hb_clients (sv_hub s))" using reachable_safe [OF server(1)] by (simp add: hub_safe_def)
  then have served: "c \<in> sv_serving s" if "hb_clients (sv_hub s) c = Some wanted" for c wanted
    using that by (simp add: domI)
  have "\<forall>c wanted. hb_clients (sv_hub s) c = Some wanted \<longrightarrow>
        ch_buf (hb_chans h c) = ch_buf (hb_chans (sv_hub s) c) @
          (if (wanted = [] \<or> wanted = ev_SourceID ev) \<and> length (ch_buf (hb_chans (sv_hub s) c)) < 64
           then [\<lparr>ms_Type = fst pub, ms_Data = data\<rparr>] else [])"
    using bspec [OF buf served] source(2) by (simp add: shown_def channel_slots_def)
  moreover have "feed decode parse order [Received payload] (Some (sv_hub s)) = (False, Some h)"
    by (simp add: feed_def h)
  ultimately show ?thesis using run by blast
qed

text \<open>The stream of the hub's example, and the publication for an accepted webhook of its source.\<close>

theorem published_event_reaches_streams_witness:
  "\<exists>h. feed (\<lambda>_. Some (''webhook.received'', ''{}''))
      (\<lambda>_. Some (JObj [(''event_id'', JStr ''e''), (''source_id'', JStr ''a''), (''received_at'', JStr ''t'')]))
      [0] [Received ''p''] (Some (sv_hub one_stream)) = (False, Some h)
    \<and> ch_buf (hb_chans h 0) = [\<lparr>ms_Type = ''webhook.received'', ms_Data = ''{}''\<rparr>]"
proof -
  let ?ev = "plain ''e'' ''a'' ''body''"
  let ?pub = "received_publication ?ev"
  let ?parse = "\<lambda>_. Some (JObj [(''event_id'', JStr ''e''), (''source_id'', JStr ''a''), (''received_at'', JStr ''t'')])"
  let ?decode = "\<lambda>_. Some (''webhook.received'', ''{}'')"
  have ascii: "to_valid ''e'' = ''e''" "to_valid ''a'' = ''a''" "to_valid ''webhook.received'' = ''webhook.received''"
    by (simp_all add: ascii_def)
  have sent: "publish (\<lambda>_. Some ''p'') Sent 0 ?pub [] = (None, [] @ [''p''])" by (simp add: publish_def)
  have json: "carries ?decode ?parse (\<lambda>_. 0) (\<lambda>_. ''t'')
      \<lparr>pe_Type = fst ?pub, pe_Data = snd ?pub, pe_Timestamp = 0\<rparr> ''p'' ''{}''"
    by (simp add: carries_def received_publication_def event_types plain_def ascii)
  have order: "distinct [0 :: nat]" "set [0] = dom (hb_clients (sv_hub one_stream))"
    by (simp_all add: one_stream_facts)
  have src: "ev_SourceID ?ev = to_valid (ev_SourceID ?ev)" "ev_SourceID ?ev \<noteq> []"
    by (simp_all add: plain_def ascii)
  have type: "fst ?pub = ''webhook.received''" by (simp add: received_publication_def event_types)
  have empty: "ch_buf (hb_chans (sv_hub one_stream) 0) = []"
    by (simp add: one_stream_def connected_def Register_def Let_def sse_start_def NewHub_def)
  have own: "ev_SourceID ?ev = ''a''" by (simp add: plain_def)
  from published_event_reaches_streams [OF one_stream_reachable one_stream_facts(1) order received sent json src]
  obtain h where h: "feed ?decode ?parse [0] [Received ''p''] (Some (sv_hub one_stream)) = (False, Some h)"
    and buf: "\<forall>c wanted. hb_clients (sv_hub one_stream) c = Some wanted \<longrightarrow>
        ch_buf (hb_chans h c) = ch_buf (hb_chans (sv_hub one_stream) c) @
          (if (wanted = [] \<or> wanted = ev_SourceID ?ev) \<and> length (ch_buf (hb_chans (sv_hub one_stream) c)) < 64
           then [\<lparr>ms_Type = fst ?pub, ms_Data = ''{}''\<rparr>] else [])"
    by blast
  have "hb_clients (sv_hub one_stream) 0 = Some ''a''" by (simp add: one_stream_facts)
  with buf have "ch_buf (hb_chans h 0) = [\<lparr>ms_Type = ''webhook.received'', ms_Data = ''{}''\<rparr>]"
    by (auto simp: empty own type)
  with h show ?thesis by blast
qed

end
