(* ===== verification/Filestore.thy ===== *)
theory Filestore
  imports Bridge
begin

text \<open>
  \<open>internal/filestore/minio.go\<close>: the object store behind the bridge. The server is a map from buckets to
  their objects, an object a map entry from its path to its bytes; \<open>minio_lib\<close> holds what the client library and the network
  decide: the errors of its calls and the text of a signed URL. The theory connects the store to the
  bridge, and shows that the files of different events are kept apart in it.
\<close>

section \<open>The client\<close>

record minio_client =
  mk_Endpoint :: string
  mk_AccessKey :: string
  mk_SecretKey :: string
  mk_Secure :: bool
  mk_Region :: string

record minio_lib =
  ml_new :: "minio_client \<Rightarrow> string option"
  ml_exists :: "string \<Rightarrow> string option"
  ml_make :: "string \<Rightarrow> string option"
  ml_put :: "string \<Rightarrow> string \<Rightarrow> bytes \<Rightarrow> string option"
  ml_get :: "string \<Rightarrow> string \<Rightarrow> string option"
  ml_presign :: "minio_client \<Rightarrow> string \<Rightarrow> string \<Rightarrow> int \<Rightarrow> string + string"

record MinIOStore =
  mo_client :: minio_client
  mo_internalClient :: minio_client
  mo_bucket :: string

type_synonym objects = "string \<rightharpoonup> bytes"
type_synonym minio_server = "string \<rightharpoonup> objects"

definition public_client :: "MinIOConfig \<Rightarrow> minio_client" where
  "public_client cfg =
    \<lparr>mk_Endpoint = mc_Endpoint cfg, mk_AccessKey = mc_AccessKey cfg, mk_SecretKey = mc_SecretKey cfg,
     mk_Secure = mc_UseSSL cfg, mk_Region = []\<rparr>"

definition internal_client :: "MinIOConfig \<Rightarrow> minio_client" where
  "internal_client cfg =
    \<lparr>mk_Endpoint = (if mc_InternalEndpoint cfg \<noteq> [] then mc_InternalEndpoint cfg else mc_Endpoint cfg),
     mk_AccessKey = mc_AccessKey cfg, mk_SecretKey = mc_SecretKey cfg, mk_Secure = mc_UseSSL cfg,
     mk_Region = ''us-east-1''\<rparr>"

definition NewMinIOStore ::
    "minio_lib \<Rightarrow> MinIOConfig \<Rightarrow> minio_server \<Rightarrow> (string + MinIOStore) \<times> minio_server" where
  "NewMinIOStore lib cfg srv =
    (case ml_new lib (public_client cfg) of
       Some err \<Rightarrow> (Inl (''minio client: '' @ err), srv)
     | None \<Rightarrow>
     (case ml_new lib (internal_client cfg) of
       Some err \<Rightarrow> (Inl (''minio internal client: '' @ err), srv)
     | None \<Rightarrow>
         let store = \<lparr>mo_client = public_client cfg, mo_internalClient = internal_client cfg,
                      mo_bucket = mc_Bucket cfg\<rparr> in
         (case ml_exists lib (mc_Bucket cfg) of
            Some err \<Rightarrow> (Inl (''minio bucket check: '' @ err), srv)
          | None \<Rightarrow>
              if srv (mc_Bucket cfg) = None
              then (case ml_make lib (mc_Bucket cfg) of
                      Some err \<Rightarrow> (Inl (''minio make bucket: '' @ err), srv)
                    | None \<Rightarrow> (Inr store, srv(mc_Bucket cfg \<mapsto> Map.empty)))
              else (Inr store, srv))))"

text \<open>The server refuses an object for a bucket that does not exist.\<close>

definition Upload :: "minio_lib \<Rightarrow> MinIOStore \<Rightarrow> string \<Rightarrow> bytes \<Rightarrow> minio_server \<Rightarrow> string option \<times> minio_server" where
  "Upload lib store objectPath data srv =
    (case ml_put lib (mo_bucket store) objectPath data of
       Some err \<Rightarrow> (Some (''minio put object: '' @ err), srv)
     | None \<Rightarrow>
         (case srv (mo_bucket store) of
            None \<Rightarrow> (Some ''minio put object: The specified bucket does not exist'', srv)
          | Some objs \<Rightarrow> (None, srv(mo_bucket store \<mapsto> objs(objectPath \<mapsto> data)))))"

text \<open>The object is fetched when its reader is read; the reader of a missing object is \<open>None\<close>.\<close>

definition Download :: "minio_lib \<Rightarrow> MinIOStore \<Rightarrow> string \<Rightarrow> minio_server \<Rightarrow> string + bytes option" where
  "Download lib store objectPath srv =
    (case ml_get lib (mo_bucket store) objectPath of
       Some err \<Rightarrow> Inl (''minio get object: '' @ err)
     | None \<Rightarrow> Inr (Option.bind (srv (mo_bucket store)) (\<lambda>objs. objs objectPath)))"

definition GetPresignedURL :: "minio_lib \<Rightarrow> MinIOStore \<Rightarrow> string \<Rightarrow> int \<Rightarrow> string + string" where
  "GetPresignedURL lib store objectPath expiry =
    (case ml_presign lib (mo_client store) (mo_bucket store) objectPath expiry of
       Inl err \<Rightarrow> Inl (''minio presign: '' @ err)
     | Inr url \<Rightarrow> Inr url)"

definition GetInternalPresignedURL :: "minio_lib \<Rightarrow> MinIOStore \<Rightarrow> string \<Rightarrow> int \<Rightarrow> string + string" where
  "GetInternalPresignedURL lib store objectPath expiry =
    (case ml_presign lib (mo_internalClient store) (mo_bucket store) objectPath expiry of
       Inl err \<Rightarrow> Inl (''minio internal presign: '' @ err)
     | Inr url \<Rightarrow> Inr url)"

section \<open>The contract of an object store\<close>

text \<open>A sequence of uploads: those that succeed, and the state after it.\<close>

fun uploads ::
    "(string \<Rightarrow> bytes \<Rightarrow> 'st \<Rightarrow> string option \<times> 'st) \<Rightarrow> (string \<times> bytes) list \<Rightarrow> 'st
     \<Rightarrow> (string \<times> bytes) list \<times> 'st" where
  "uploads put [] s = ([], s)"
| "uploads put ((p, d) # later) s =
    (case put p d s of (err, s1) \<Rightarrow>
      case uploads put later s1 of (sent, s2) \<Rightarrow> (if err = None then (p, d) # sent else sent, s2))"

locale object_store =
  fixes put :: "string \<Rightarrow> bytes \<Rightarrow> 'st \<Rightarrow> string option \<times> 'st"
    and get :: "'st \<Rightarrow> objects"
  assumes put_ok: "put p d s = (None, s') \<Longrightarrow> get s' = (get s)(p \<mapsto> d)"
    and put_err: "put p d s = (Some e, s') \<Longrightarrow> get s' = get s"
begin

lemma uploads_get: "uploads put fs s = (sent, s') \<Longrightarrow> get s' = get s ++ map_of (rev sent)"
proof (induction fs arbitrary: s sent)
  case (Cons f fs)
  obtain p d where f: "f = (p, d)" by fastforce
  obtain err s1 where put: "put p d s = (err, s1)" by fastforce
  obtain sent1 s2 where rest: "uploads put fs s1 = (sent1, s2)" by fastforce
  have eqs: "s2 = s'" "sent = (if err = None then (p, d) # sent1 else sent1)"
    using Cons.prems f put rest by simp_all
  note ih = Cons.IH [OF rest [unfolded eqs(1)]]
  show ?case
  proof (cases "err = None")
    case True
    with put have "get s1 = (get s)(p \<mapsto> d)" by (simp add: put_ok)
    with ih eqs(2) True show ?thesis by (simp add: map_add_upd_left fun_eq_iff map_add_def split: option.split)
  next
    case False
    with put have "get s1 = get s" using put_err by blast
    with ih eqs(2) False show ?thesis by simp
  qed
qed simp

lemma uploads_sent:
  "uploads put fs s = (sent, s') \<Longrightarrow> set sent \<subseteq> set fs \<and> (distinct (map fst fs) \<longrightarrow> distinct (map fst sent))"
  by (induction fs arbitrary: s sent) (fastforce split: prod.splits if_splits)+

lemma uploads_kept:
  assumes "uploads put fs s = (sent, s')" "distinct (map fst fs)" "(p, d) \<in> set sent"
  shows "get s' p = Some d"
proof -
  have "distinct (map fst sent)" using uploads_sent [OF assms(1)] assms(2) by blast
  then have "map_of (rev sent) p = Some d" using assms(3) by (simp add: rev_map [symmetric])
  with uploads_get [OF assms(1)] show ?thesis by simp
qed

end

definition bucket_objects :: "MinIOStore \<Rightarrow> minio_server \<Rightarrow> objects" where
  "bucket_objects store srv = (case srv (mo_bucket store) of None \<Rightarrow> Map.empty | Some objs \<Rightarrow> objs)"

interpretation minio: object_store "Upload lib store" "bucket_objects store" for lib store
  by unfold_locales (auto simp: Upload_def bucket_objects_def split: option.splits)

section \<open>Paths\<close>

lemma last_separator:
  assumes "a @ c # x = b @ c # y" "c \<notin> set x" "c \<notin> set y"
  shows "a = b \<and> x = y"
proof -
  have w: "takeWhile (\<lambda>z. z \<noteq> c) (rev v @ c # rev u) = rev v" "dropWhile (\<lambda>z. z \<noteq> c) (rev v @ c # rev u) = c # rev u"
    if "c \<notin> set v" for u v :: "'a list"
    using that by (auto simp: takeWhile_append dropWhile_append)
  have "rev x @ c # rev a = rev y @ c # rev b" using arg_cong [OF assms(1), of rev] by simp
  then show ?thesis using w [OF assms(2), of a] w [OF assms(3), of b] by simp
qed

lemma format_int_slash: "CHR ''/'' \<notin> set (format_int n)" "CHR ''/'' \<notin> set (two_digits n)"
  using format_int_chars [of "CHR ''/''" n] by (auto simp: two_digits_def is_digit_def digit_val_def)

lemma path_base_slash: "path_base p \<noteq> ''/'' \<Longrightarrow> CHR ''/'' \<notin> set (path_base p)"
  by (auto simp: path_base_def Let_def dest: set_takeWhileD split: if_splits)

lemma filename_slash: "CHR ''/'' \<notin> set i \<Longrightarrow> CHR ''/'' \<notin> set (extractFilename u f i)"
  using path_base_slash by (auto simp: extractFilename_def Let_def split: option.split)

text \<open>The path of an object determines the event that it was stored for.\<close>

lemma object_path_inject:
  assumes "object_path src date i f = object_path src' date' i' f'"
    and "CHR ''/'' \<notin> set i" "CHR ''/'' \<notin> set i'" "CHR ''/'' \<notin> set f" "CHR ''/'' \<notin> set f'"
  shows "f = f' \<and> i = i' \<and> src = src'"
proof -
  obtain y m d y' m' d' where date: "date = (y, m, d)" "date' = (y', m', d')" by (metis prod_cases3)
  let ?D = "src @ ''/'' @ format_int y @ ''/'' @ two_digits m @ ''/'' @ two_digits d"
  let ?D' = "src' @ ''/'' @ format_int y' @ ''/'' @ two_digits m' @ ''/'' @ two_digits d'"
  have "(?D @ ''/'' @ i) @ CHR ''/'' # f = (?D' @ ''/'' @ i') @ CHR ''/'' # f'"
    using assms(1) by (simp add: object_path_def date)
  from last_separator [OF this assms(4,5)] have 1: "?D @ CHR ''/'' # i = ?D' @ CHR ''/'' # i'" "f = f'" by simp_all
  from last_separator [OF 1(1) assms(2,3)] have 2: "?D = ?D'" "i = i'" by simp_all
  from 2(1) have "(src @ ''/'' @ format_int y @ ''/'' @ two_digits m) @ CHR ''/'' # two_digits d
      = (src' @ ''/'' @ format_int y' @ ''/'' @ two_digits m') @ CHR ''/'' # two_digits d'" by simp
  from last_separator [OF this format_int_slash(2) format_int_slash(2)]
  have "(src @ ''/'' @ format_int y) @ CHR ''/'' # two_digits m = (src' @ ''/'' @ format_int y') @ CHR ''/'' # two_digits m'"
    by simp
  from last_separator [OF this format_int_slash(2) format_int_slash(2)]
  have "src @ CHR ''/'' # format_int y = src' @ CHR ''/'' # format_int y'" by simp
  from last_separator [OF this format_int_slash(1) format_int_slash(1)] 1(2) 2(2) show ?thesis by simp
qed

section \<open>The bridge on the object store\<close>

text \<open>The link for the extraction service is valid for five minutes.\<close>

definition minio_env :: "minio_lib \<Rightarrow> MinIOStore \<Rightarrow> bridge_env \<Rightarrow> bridge_env" where
  "minio_env lib store env =
    env\<lparr>be_upload := \<lambda>p d. map_option ((@) ''minio put object: '') (ml_put lib (mo_bucket store) p d),
        be_presign := \<lambda>p. GetInternalPresignedURL lib store p (300 * 1000000000)\<rparr>"

lemma minio_env_fields [simp]:
  "be_fetch (minio_env lib store env) = be_fetch env" "be_maxSize (minio_env lib store env) = be_maxSize env"
  by (simp_all add: minio_env_def)

text \<open>What the bridge sees of an upload is what the store answers, once the bucket is there.\<close>

lemma minio_upload:
  "srv (mo_bucket store) \<noteq> None \<Longrightarrow> be_upload (minio_env lib store env) p d = fst (Upload lib store p d srv)"
  by (auto simp: minio_env_def Upload_def split: option.split)

lemma Upload_bucket: "srv b \<noteq> None \<Longrightarrow> snd (Upload lib store p d srv) b \<noteq> None"
  by (auto simp: Upload_def split: option.split)

lemma NewMinIOStore_bucket:
  "NewMinIOStore lib cfg srv = (Inr store, srv') \<Longrightarrow> srv' (mo_bucket store) \<noteq> None"
  by (auto simp: NewMinIOStore_def Let_def split: option.splits if_splits)

lemma uploads_all:
  assumes "\<forall>(p, d) \<in> set fs. ml_put lib (mo_bucket store) p d = None" "srv (mo_bucket store) \<noteq> None"
  shows "fst (uploads (Upload lib store) fs srv) = fs"
  using assms
proof (induction fs arbitrary: srv)
  case (Cons f fs)
  obtain p d where f: "f = (p, d)" by fastforce
  obtain err s1 where up: "Upload lib store p d srv = (err, s1)" by fastforce
  have "err = None" using up Cons.prems f by (auto simp: Upload_def split: option.splits)
  moreover have "s1 (mo_bucket store) \<noteq> None" using Upload_bucket [of srv "mo_bucket store" lib store p d] Cons.prems(2) up by simp
  ultimately show ?case using Cons.IH [of s1] Cons.prems(1) up by (auto simp: f split: prod.split)
qed simp

text \<open>Events one after the other, each at its own time.\<close>

fun process_all :: "(bridge_env \<times> WebhookEvent) list \<Rightarrow> 's backend \<Rightarrow> 's bridge \<Rightarrow> 's bridge option" where
  "process_all [] ext s = Some s"
| "process_all ((env, event) # later) ext s = Option.bind (processEvent env ext event s) (process_all later ext)"

definition event_path :: "bridge_env \<Rightarrow> WebhookEvent \<Rightarrow> string" where
  "event_path env event =
    object_path (ev_SourceID event) (be_date env) (ev_ID event)
      (extractFilename (be_url env) (ev_FileURL event) (ev_ID event))"

text \<open>What one event leaves in the object store and in the table of extractions, whatever fails.\<close>

definition filed :: "bridge_env \<Rightarrow> WebhookEvent \<Rightarrow> (string \<times> bytes) list \<Rightarrow> ExtractionRecord list \<Rightarrow> bool" where
  "filed env event files recs \<longleftrightarrow>
    (\<forall>r \<in> set recs. er_EventID r = ev_ID event)
    \<and> (files = [] \<and> (\<forall>r \<in> set recs. er_MinIOPath r = [])
       \<or> (\<exists>data. files = [(event_path env event, data)] \<and> be_upload env (event_path env event) data = None
            \<and> downloadFile (be_fetch env (ev_FileURL event)) (be_maxSize env) = Inr data
            \<and> (\<forall>r \<in> set recs. er_MinIOPath r = event_path env event)))"

definition grown :: "'s bridge \<Rightarrow> 's bridge \<Rightarrow> (string \<times> bytes) list \<Rightarrow> ExtractionRecord list \<Rightarrow> bool" where
  "grown s s' files recs \<longleftrightarrow> br_files s' = br_files s @ files
    \<and> pg_extractions (br_pg s') = pg_extractions (br_pg s) @ recs"

lemma record_grown: "\<exists>recs. set recs \<subseteq> {r} \<and> grown s (record_extraction r s) [] recs"
proof (cases "pg_fails (br_pg s)")
  case True
  then show ?thesis
    by (intro exI [of _ "[]"]) (simp add: grown_def record_extraction_def InsertExtractionRecord_def pg_exec_def pg_tick_def)
next
  case False
  then show ?thesis
    by (intro exI [of _ "[r]"]) (simp add: grown_def record_extraction_def InsertExtractionRecord_def pg_exec_def pg_tick_def)
qed

lemma give_up_grown:
  "\<exists>recs. (\<forall>x \<in> set recs. er_EventID x = er_EventID r \<and> er_MinIOPath x = er_MinIOPath r)
    \<and> grown s (give_up env msg r e s) [] recs"
proof -
  let ?r = "r\<lparr>er_Success := False, er_ErrorMessage := msg, er_DurationMs := be_elapsed env\<rparr>"
  obtain recs where "set recs \<subseteq> {?r}" "grown s (record_extraction ?r s) [] recs" using record_grown by blast
  then show ?thesis
    by (intro exI [of _ recs]) (auto simp: give_up_def enqueueForDelivery_def grown_def)
qed

lemma deliver_extracted_grown:
  assumes "deliver_extracted env resp ft r e s = Some s'"
  shows "\<exists>recs. (\<forall>x \<in> set recs. er_EventID x = er_EventID r \<and> er_MinIOPath x = er_MinIOPath r) \<and> grown s s' [] recs"
proof -
  obtain ed where ed: "ed = extracted_data env (xp_ExtractedJSON resp)" by blast
  let ?r = "r\<lparr>er_Success := True, er_ExtractedData := ed, er_TemplateID := xp_TemplateID resp,
    er_CacheHit := xp_CacheHit resp, er_DurationMs := be_elapsed env\<rparr>"
  obtain recs where "set recs \<subseteq> {?r}" "grown s (record_extraction ?r s) [] recs" using record_grown by blast
  then show ?thesis using assms
    by (intro exI [of _ recs])
       (auto simp: deliver_extracted_def ed Let_def enqueueForDelivery_def grown_def UpsertTemplate_def pg_exec_def pg_tick_def
         split: option.splits if_splits)
qed

lemma call_backend_grown:
  assumes "call_backend env ext req r e s = Some s'"
  shows "\<exists>recs. (\<forall>x \<in> set recs. er_EventID x = er_EventID r \<and> er_MinIOPath x = er_MinIOPath r) \<and> grown s s' [] recs"
proof -
  obtain res x where x: "ext req (br_ext s) = (res, x)" by fastforce
  let ?s = "s\<lparr>br_ext := x\<rparr>"
  have g: "grown ?s = grown s" by (simp add: grown_def fun_eq_iff)
  from assms x consider msg where "s' = give_up env msg r e ?s"
    | resp where "deliver_extracted env resp (xr_FileType req) r e ?s = Some s'"
    by (auto simp: call_backend_def split: prod.splits option.splits if_splits)
  then show ?thesis
  proof cases
    case 1
    show ?thesis using give_up_grown [of r ?s env msg e] unfolding 1 g .
  next
    case 2
    show ?thesis using deliver_extracted_grown [OF 2] unfolding g .
  qed
qed

lemma processEvent_filed:
  assumes "processEvent env ext e s = Some s'"
  shows "\<exists>files recs. filed env e files recs \<and> grown s s' files recs"
proof (cases "downloadFile (be_fetch env (ev_FileURL e)) (be_maxSize env)")
  case (Inl err)
  with assms give_up_grown [of "base_record e" s env "''download failed: '' @ err" e] show ?thesis
    by (auto simp: processEvent_def Let_def filed_def base_record_def)
next
  case (Inr data)
  let ?ft = "detected_type env data" and ?p = "event_path env e"
  let ?r1 = "base_record e\<lparr>er_FileType := ?ft\<rparr>" and ?e1 = "e\<lparr>ev_FileStorePath := event_path env e\<rparr>"
  let ?r2 = "?r1\<lparr>er_MinIOPath := ?p\<rparr>" and ?s1 = "s\<lparr>br_files := br_files s @ [(?p, data)]\<rparr>"
  have r: "er_EventID ?r1 = ev_ID e" "er_MinIOPath ?r1 = []" "er_EventID ?r2 = ev_ID e" "er_MinIOPath ?r2 = ?p"
    by (simp_all add: base_record_def)
  have run: "processEvent env ext e s =
      (if ?ft = ''unknown'' then Some (give_up env ''unknown file type'' ?r1 e s)
       else case be_upload env ?p data of
         Some err \<Rightarrow> Some (give_up env (''minio upload failed: '' @ err) ?r1 e s)
       | None \<Rightarrow> (case be_presign env ?p of
           Inl err \<Rightarrow> Some (give_up env (''presign failed: '' @ err) ?r2 ?e1 ?s1)
         | Inr url \<Rightarrow> call_backend env ext (extract_request ?e1 ?p ?ft url data) ?r2 ?e1 ?s1))"
    unfolding processEvent_def Let_def event_path_def Inr by simp
  show ?thesis
  proof (cases "?ft = ''unknown'' \<or> be_upload env ?p data \<noteq> None")
    case True
    then obtain msg where "s' = give_up env msg ?r1 e s" using assms unfolding run by (auto split: if_splits)
    with give_up_grown [of ?r1 s env msg e] r(1,2) show ?thesis by (auto simp: filed_def)
  next
    case False
    have "\<exists>recs. (\<forall>x \<in> set recs. er_EventID x = er_EventID ?r2 \<and> er_MinIOPath x = er_MinIOPath ?r2) \<and> grown ?s1 s' [] recs"
    proof (cases "be_presign env ?p")
      case (Inl err)
      with False assms have "s' = give_up env (''presign failed: '' @ err) ?r2 ?e1 ?s1" unfolding run by auto
      then show ?thesis using give_up_grown by blast
    next
      case (Inr url)
      with False assms have "call_backend env ext (extract_request ?e1 ?p ?ft url data) ?r2 ?e1 ?s1 = Some s'"
        unfolding run by auto
      then show ?thesis by (rule call_backend_grown)
    qed
    then obtain recs where recs: "\<forall>x \<in> set recs. er_EventID x = ev_ID e \<and> er_MinIOPath x = ?p" "grown ?s1 s' [] recs"
      unfolding r by blast
    from recs(2) have "grown s s' [(?p, data)] recs" by (simp add: grown_def)
    moreover from recs(1) False Inr have "filed env e [(?p, data)] recs" by (auto simp: filed_def)
    ultimately show ?thesis by blast
  qed
qed

lemma process_all_filed:
  assumes "process_all evs ext s = Some s'"
  shows "\<exists>parts. list_all2 (\<lambda>x y. filed (fst x) (snd x) (fst y) (snd y)) evs parts
    \<and> grown s s' (concat (map fst parts)) (concat (map snd parts))"
  using assms
proof (induction evs arbitrary: s)
  case Nil
  then show ?case by (intro exI [of _ "[]"]) (simp add: grown_def)
next
  case (Cons x evs)
  obtain env e where x: "x = (env, e)" by fastforce
  with Cons.prems obtain s1 where s1: "processEvent env ext e s = Some s1" "process_all evs ext s1 = Some s'"
    by (auto simp: bind_eq_Some_conv)
  from processEvent_filed [OF s1(1)] obtain files recs where 1: "filed env e files recs" "grown s s1 files recs" by blast
  from Cons.IH [OF s1(2)] obtain parts where
    2: "list_all2 (\<lambda>x y. filed (fst x) (snd x) (fst y) (snd y)) evs parts"
      "grown s1 s' (concat (map fst parts)) (concat (map snd parts))" by blast
  with 1 x show ?case by (intro exI [of _ "(files, recs) # parts"]) (simp add: grown_def)
qed

lemma distinct_concat_paths:
  assumes "list_all2 (\<lambda>x y. filed (fst x) (snd x) (fst y) (snd y)) evs parts"
    and "distinct (map (ev_ID \<circ> snd) evs)" "\<forall>x \<in> set evs. CHR ''/'' \<notin> set (ev_ID (snd x))"
  shows "distinct (map fst (concat (map fst parts)))
    \<and> (\<forall>p \<in> set (map fst (concat (map fst parts))). \<exists>x \<in> set evs. p = event_path (fst x) (snd x))"
  using assms
proof (induction evs parts rule: list_all2_induct)
  case (Cons x evs y parts)
  obtain env e where x: "x = (env, e)" by fastforce
  obtain files recs where y: "y = (files, recs)" by fastforce
  from Cons have ih: "distinct (map fst (concat (map fst parts)))"
    "\<forall>p \<in> set (map fst (concat (map fst parts))). \<exists>x \<in> set evs. p = event_path (fst x) (snd x)" by simp_all
  from Cons.hyps(1) x y have files: "files = [] \<or> (\<exists>data. files = [(event_path env e, data)])"
    by (auto simp: filed_def)
  have "event_path env e \<noteq> event_path env' e'" if "(env', e') \<in> set evs" for env' e'
  proof
    have slash: "CHR ''/'' \<notin> set (ev_ID e)" "CHR ''/'' \<notin> set (ev_ID e')"
      using Cons.prems(2) that x by auto
    assume "event_path env e = event_path env' e'"
    then have "ev_ID e = ev_ID e'"
      using object_path_inject [OF _ slash(1,2) filename_slash [OF slash(1)] filename_slash [OF slash(2)]]
      unfolding event_path_def by blast
    moreover have "ev_ID e' \<in> set (map (ev_ID \<circ> snd) evs)" using that by force
    ultimately show False using Cons.prems(1) x by simp
  qed
  then have "event_path env e \<notin> set (map fst (concat (map fst parts)))" using ih(2) by fastforce
  with ih files show ?case by (elim disjE exE) (simp_all add: x y)
qed simp

text \<open>
  C17: the files of different events are kept apart. Take a bridge whose object store came up, and any run
  over events with different identifiers (which hold no slash), each downloaded, stored and extracted at
  its own time, with whatever errors of the store, the database and the backend. After all of them, every
  path that an extraction record names leads in the object store to exactly the bytes that were downloaded
  for that record's event: no later event has overwritten them, whatever its source, date and file name.
\<close>

theorem recorded_files_kept:
  assumes up: "NewMinIOStore lib cfg srv0 = (Inr store, srv)" "ml_get lib (mo_bucket store) path = None"
    and run: "process_all (map (apfst (minio_env lib store)) evs) ext s = Some s'" "br_files s = []"
    and ids: "distinct (map (ev_ID \<circ> snd) evs)" "\<forall>x \<in> set evs. CHR ''/'' \<notin> set (ev_ID (snd x))"
    and r: "r \<in> set (drop (length (pg_extractions (br_pg s))) (pg_extractions (br_pg s')))"
      "er_MinIOPath r = path" "path \<noteq> []"
  shows "\<exists>env e data. (env, e) \<in> set evs \<and> ev_ID e = er_EventID r
    \<and> downloadFile (be_fetch env (ev_FileURL e)) (be_maxSize env) = Inr data
    \<and> Download lib store path (snd (uploads (Upload lib store) (br_files s') srv)) = Inr (Some data)"
proof -
  let ?evs = "map (apfst (minio_env lib store)) evs"
  obtain parts where parts: "list_all2 (\<lambda>x y. filed (fst x) (snd x) (fst y) (snd y)) ?evs parts"
    and grown: "grown s s' (concat (map fst parts)) (concat (map snd parts))"
    using process_all_filed [OF run(1)] by blast
  let ?files = "concat (map fst parts)"
  have ids': "distinct (map (ev_ID \<circ> snd) ?evs)" "\<forall>x \<in> set ?evs. CHR ''/'' \<notin> set (ev_ID (snd x))"
    using ids by (auto simp: o_def)
  have files: "br_files s' = ?files" using grown run(2) by (simp add: grown_def)
  have own: "\<exists>env e. (env, e) \<in> set evs \<and> filed (minio_env lib store env) e (fst y) (snd y)" if y: "y \<in> set parts" for y
  proof -
    from parts y obtain i where "i < length evs" "filed (minio_env lib store (fst (evs ! i))) (snd (evs ! i)) (fst y) (snd y)"
      by (auto simp: list_all2_conv_all_nth in_set_conv_nth)
    then show ?thesis by (metis nth_mem prod.collapse)
  qed
  have "\<forall>(p, d) \<in> set ?files. ml_put lib (mo_bucket store) p d = None"
    using own by (fastforce simp: filed_def minio_env_def)
  with uploads_all [of ?files lib store srv] NewMinIOStore_bucket [OF up(1)]
  obtain srv' where sent: "uploads (Upload lib store) ?files srv = (?files, srv')" by (metis prod.collapse)
  from r(1) grown obtain y where y: "y \<in> set parts" "r \<in> set (snd y)" by (auto simp: grown_def)
  from own [OF y(1)] obtain env e where e: "(env, e) \<in> set evs" "filed (minio_env lib store env) e (fst y) (snd y)" by blast
  with y(2) r(2,3) obtain data where data: "fst y = [(path, data)]" "er_EventID r = ev_ID e"
    "downloadFile (be_fetch env (ev_FileURL e)) (be_maxSize env) = Inr data"
    by (auto simp: filed_def)
  have "(path, data) \<in> set ?files" using y(1) data(1) by force
  from minio.uploads_kept [OF sent _ this] distinct_concat_paths [OF parts ids']
  have "bucket_objects store srv' path = Some data" by blast
  with up(2) sent files have "Download lib store path (snd (uploads (Upload lib store) (br_files s') srv)) = Inr (Some data)"
    by (auto simp: Download_def bucket_objects_def split: option.splits)
  with e(1) data show ?thesis by auto
qed

text \<open>Two events with the same source, date and file name, on a fresh server.\<close>

definition demo_lib :: minio_lib where
  "demo_lib = \<lparr>ml_new = (\<lambda>_. None), ml_exists = (\<lambda>_. None), ml_make = (\<lambda>_. None), ml_put = (\<lambda>_ _ _. None),
    ml_get = (\<lambda>_ _. None), ml_presign = (\<lambda>_ _ p _. Inr p)\<rparr>"

definition demo_store :: MinIOStore where
  "demo_store = (let cfg = load_minio (\<lambda>_. []) in
    \<lparr>mo_client = public_client cfg, mo_internalClient = internal_client cfg, mo_bucket = mc_Bucket cfg\<rparr>)"

definition demo_server :: minio_server where
  "demo_server = [mo_bucket demo_store \<mapsto> Map.empty]"

lemma demo_store_up: "NewMinIOStore demo_lib (load_minio (\<lambda>_. [])) Map.empty = (Inr demo_store, demo_server)"
  by (simp add: NewMinIOStore_def demo_lib_def demo_server_def demo_store_def Let_def)

definition two_events :: "(bridge_env \<times> WebhookEvent) list" where
  "two_events = [(demo_bridge_env, plain ''a'' ''s'' ''body''),
    (demo_bridge_env\<lparr>be_fetch := \<lambda>u. Fetched 200 ''%PDF-2.0'' None\<rparr>, plain ''b'' ''s'' ''body'')]"

text \<open>An event whose extraction fails: its file is kept and the record names it.\<close>

lemma failing_backend:
  assumes "downloadFile (be_fetch env (ev_FileURL e)) (be_maxSize env) = Inr data" "detected_type env data \<noteq> ''unknown''"
    and "be_upload env (event_path env e) data = None" "be_presign env (event_path env e) = Inr url"
    and "\<And>r x. ext r x = ((None, Some err), x)" "pg_up (br_pg s)"
  shows "\<exists>s' r. processEvent env ext e s = Some s' \<and> pg_extractions (br_pg s') = pg_extractions (br_pg s) @ [r]
    \<and> er_MinIOPath r = event_path env e \<and> er_EventID r = ev_ID e \<and> pg_up (br_pg s')"
proof -
  have fields: "be_upload env (object_path (ev_SourceID e) (be_date env) (ev_ID e)
        (extractFilename (be_url env) (ev_FileURL e) (ev_ID e))) data = None"
    "be_presign env (object_path (ev_SourceID e) (be_date env) (ev_ID e)
        (extractFilename (be_url env) (ev_FileURL e) (ev_ID e))) = Inr url"
    using assms(3,4) by (simp_all add: event_path_def)
  show ?thesis
    unfolding processEvent_def Let_def assms(1) sum.case fields option.case call_backend_def assms(5) prod.case
      option.case
    using assms(2,6)
    by (simp add: give_up_def enqueueForDelivery_def record_extraction_up base_record_def event_path_def
        record_extraction_def InsertExtractionRecord_def)
qed

abbreviation demo_minio :: "bridge_env \<Rightarrow> bridge_env" where
  "demo_minio env \<equiv> minio_env demo_lib demo_store env"

lemma demo_types: "DetectFileType ''%PDF-1.7'' = ''pdf''" "DetectFileType ''%PDF-2.0'' = ''pdf''"
  by code_simp+

lemma demo_event:
  assumes "be_fetch env = (\<lambda>u. Fetched 200 data None)" "data = ''%PDF-1.7'' \<or> data = ''%PDF-2.0''" "be_maxSize env = 100"
    and "pg_up (br_pg s)"
  shows "\<exists>s' r. processEvent (demo_minio env) (LocalExtract (\<lambda>r s. (Inl ''down'', s))) e s = Some s'
    \<and> pg_extractions (br_pg s') = pg_extractions (br_pg s) @ [r] \<and> er_MinIOPath r = event_path (demo_minio env) e
    \<and> er_EventID r = ev_ID e \<and> pg_up (br_pg s')"
proof (rule failing_backend [OF _ _ _ _ _ assms(4)])
  show "downloadFile (be_fetch (demo_minio env) (ev_FileURL e)) (be_maxSize (demo_minio env)) = Inr data"
    using assms(1-3) downloadFile_iff [of 100 "Fetched 200 data None" data] by (auto simp: max64_def)
  show "detected_type (demo_minio env) data \<noteq> ''unknown''"
    using assms(2) by (elim disjE) (simp_all add: detected_type_def Let_def demo_types)
  show "be_upload (demo_minio env) (event_path (demo_minio env) e) data = None" by (simp add: minio_env_def demo_lib_def)
  show "be_presign (demo_minio env) (event_path (demo_minio env) e) = Inr (event_path (demo_minio env) e)"
    by (simp add: minio_env_def demo_lib_def GetInternalPresignedURL_def)
  show "LocalExtract (\<lambda>r s. (Inl ''down'', s)) r x = ((None, Some ''grpc extract: down''), x)" for r x
    by (simp add: LocalExtract_def ClientExtract_def)
qed

theorem recorded_files_kept_witness:
  "\<exists>s'. process_all (map (apfst demo_minio) two_events) (LocalExtract (\<lambda>r s. (Inl ''down'', s)))
      (demo_bridge []) = Some s'
    \<and> (\<exists>env e data. (env, e) \<in> set two_events \<and> ev_ID e = ''a''
      \<and> downloadFile (be_fetch env (ev_FileURL e)) (be_maxSize env) = Inr data
      \<and> Download demo_lib demo_store (event_path demo_bridge_env e)
          (snd (uploads (Upload demo_lib demo_store) (br_files s') demo_server)) = Inr (Some data))"
proof -
  let ?ext = "LocalExtract (\<lambda>r s. (Inl ''down'', s))"
  let ?s = "demo_bridge []" and ?a = "plain ''a'' ''s'' ''body''" and ?b = "plain ''b'' ''s'' ''body''"
  let ?env2 = "demo_bridge_env\<lparr>be_fetch := \<lambda>u. Fetched 200 ''%PDF-2.0'' None\<rparr>"
  have up: "pg_up (br_pg ?s)" and start: "pg_extractions (br_pg ?s) = []" "br_files ?s = []"
    by (simp_all add: demo_bridge_def) (simp_all add: fresh_pg_def)
  obtain s1 r1 where 1: "processEvent (demo_minio demo_bridge_env) ?ext ?a ?s = Some s1"
    "pg_extractions (br_pg s1) = pg_extractions (br_pg ?s) @ [r1]"
    "er_MinIOPath r1 = event_path (demo_minio demo_bridge_env) ?a" "er_EventID r1 = ev_ID ?a" "pg_up (br_pg s1)"
    using demo_event [of demo_bridge_env "''%PDF-1.7''" ?s ?a] up by (auto simp: demo_bridge_env_def)
  obtain s2 r2 where 2: "processEvent (demo_minio ?env2) ?ext ?b s1 = Some s2"
    "pg_extractions (br_pg s2) = pg_extractions (br_pg s1) @ [r2]"
    using demo_event [of ?env2 "''%PDF-2.0''" s1 ?b] 1(5) by (auto simp: demo_bridge_env_def)
  have run: "process_all (map (apfst demo_minio) two_events) ?ext ?s = Some s2"
    using 1(1) 2(1) by (simp add: two_events_def)
  have ids: "distinct (map (ev_ID \<circ> snd) two_events)" "\<forall>x \<in> set two_events. CHR ''/'' \<notin> set (ev_ID (snd x))"
    by (simp_all add: two_events_def plain_def)
  have r: "r1 \<in> set (drop (length (pg_extractions (br_pg ?s))) (pg_extractions (br_pg s2)))"
    by (simp add: 1(2) 2(2) start)
  have path: "er_MinIOPath r1 = event_path demo_bridge_env ?a"
    unfolding 1(3) by (simp add: event_path_def minio_env_def)
  have "event_path demo_bridge_env ?a \<noteq> []" by (simp add: event_path_def demo_bridge_env_def object_path_def plain_def)
  have get: "ml_get demo_lib b p = None" for b p by (simp add: demo_lib_def)
  obtain env e data where e: "(env, e) \<in> set two_events" "ev_ID e = er_EventID r1"
    "downloadFile (be_fetch env (ev_FileURL e)) (be_maxSize env) = Inr data"
    "Download demo_lib demo_store (event_path demo_bridge_env ?a)
      (snd (uploads (Upload demo_lib demo_store) (br_files s2) demo_server)) = Inr (Some data)"
    using recorded_files_kept [OF demo_store_up get run start(2) ids r path \<open>event_path demo_bridge_env ?a \<noteq> []\<close>] by blast
  moreover have "ev_ID e = ''a''" using e(2) 1(4) by (simp add: plain_def)
  moreover have "e = ?a" using e(1) \<open>ev_ID e = ''a''\<close> by (auto simp: two_events_def plain_def)
  ultimately show ?thesis using run by blast
qed

end
