(* ===== verification/Workers.thy ===== *)
theory Workers
  imports Orchestrator "HOL-Library.Multiset"
begin

text \<open>
  The pool of goroutines of \<open>cmd/orchestrator\<close>. A worker pops an event, holds it, and pushes it; other workers, the
  scaler and the ingestion service act in between, and the process can die at any time. The pool is a
  step relation over any work queue; what it keeps is proved from the contract of the queue.
\<close>

section \<open>The pool\<close>

text \<open>
  The events in the hands of the workers with the queue each is going to. The last three fields are
  history: what has arrived since the start, what died with the process, and how often it died.
\<close>

record 's pool =
  pl_queue :: 's
  pl_workers :: nat
  pl_hands :: "(string \<times> WebhookEvent) multiset"
  pl_arrived :: "WebhookEvent multiset"
  pl_lost :: "(string \<times> WebhookEvent) multiset"
  pl_crashes :: nat

inductive pool_step ::
    "(string \<Rightarrow> WebhookEvent \<Rightarrow> 's \<Rightarrow> bool \<times> 's) \<Rightarrow> (string \<Rightarrow> 's \<Rightarrow> (queue_error + WebhookEvent option) \<times> 's)
     \<Rightarrow> string \<Rightarrow> (WebhookEvent \<Rightarrow> string \<times> WebhookEvent) \<Rightarrow> 's pool \<Rightarrow> 's pool \<Rightarrow> bool"
  for enq deq src route where
  take_event: "size (pl_hands s) < pl_workers s \<Longrightarrow> deq src (pl_queue s) = (Inr (Some event), q)
    \<Longrightarrow> pool_step enq deq src route s (s\<lparr>pl_queue := q, pl_hands := add_mset (route event) (pl_hands s)\<rparr>)"
| take_nothing: "size (pl_hands s) < pl_workers s \<Longrightarrow> deq src (pl_queue s) = (r, q) \<Longrightarrow> r = Inr None \<or> (\<exists>err. r = Inl err)
    \<Longrightarrow> pool_step enq deq src route s (s\<lparr>pl_queue := q\<rparr>)"
| push: "(target, event) \<in># pl_hands s \<Longrightarrow> enq target event (pl_queue s) = (ok, q)
    \<Longrightarrow> pool_step enq deq src route s (s\<lparr>pl_queue := q, pl_hands := pl_hands s - {#(target, event)#}\<rparr>)"
| start_worker: "pool_step enq deq src route s (s\<lparr>pl_workers := Suc (pl_workers s)\<rparr>)"
| arrive: "enq src event (pl_queue s) = (ok, q)
    \<Longrightarrow> pool_step enq deq src route s (s\<lparr>pl_queue := q, pl_arrived := add_mset (wire event) (pl_arrived s)\<rparr>)"
| crash: "pool_step enq deq src route s
    (s\<lparr>pl_hands := {#}, pl_lost := pl_lost s + pl_hands s, pl_crashes := Suc (pl_crashes s)\<rparr>)"

definition pool_start :: "'s \<Rightarrow> nat \<Rightarrow> 's pool" where
  "pool_start q n = \<lparr>pl_queue = q, pl_workers = n, pl_hands = {#}, pl_arrived = {#}, pl_lost = {#}, pl_crashes = 0\<rparr>"

section \<open>What the pool keeps\<close>

text \<open>Where an event is to stand in the end, and in which form.\<close>

definition destined :: "(WebhookEvent \<Rightarrow> string \<times> WebhookEvent) \<Rightarrow> WebhookEvent \<Rightarrow> string \<times> WebhookEvent" where
  "destined route event = (fst (route event), wire (snd (route event)))"

definition decoded :: "WebhookEvent option list \<Rightarrow> WebhookEvent multiset" where
  "decoded es = mset (List.map_filter id es)"

lemma decoded_simps [simp]:
  "decoded [] = {#}" "decoded (Some e # es) = add_mset e (decoded es)" "decoded (None # es) = decoded es"
  "decoded (es @ es') = decoded es + decoded es'"
  by (simp_all add: decoded_def List.map_filter_def)

text \<open>The events in the source queue, in the hands of the workers, and in the queues \<open>ks\<close>.\<close>

definition accounted ::
    "('s \<Rightarrow> string \<Rightarrow> WebhookEvent option list) \<Rightarrow> string \<Rightarrow> (WebhookEvent \<Rightarrow> string \<times> WebhookEvent)
     \<Rightarrow> string set \<Rightarrow> 's pool \<Rightarrow> (string \<times> WebhookEvent) multiset" where
  "accounted entries src route ks s =
    image_mset (destined route) (decoded (entries (pl_queue s) src))
    + image_mset (apsnd wire) (pl_hands s)
    + (\<Sum>k \<in> ks. image_mset (Pair k) (decoded (entries (pl_queue s) k)))"

context work_queue
begin

lemma targets_frame:
  assumes "finite ks" "src \<notin> ks"
  shows "(\<Sum>k \<in> ks. image_mset (Pair k) (decoded (((entries q)(src := es)) k)))
    = (\<Sum>k \<in> ks. image_mset (Pair k) (decoded (entries q k)))"
  using assms by (intro sum.cong) auto

lemma targets_push:
  assumes "finite ks" "t \<in> ks"
  shows "(\<Sum>k \<in> ks. image_mset (Pair k) (decoded (((entries q)(t := entries q t @ [Some e])) k)))
    = add_mset (t, e) (\<Sum>k \<in> ks. image_mset (Pair k) (decoded (entries q k)))"
proof -
  have rest: "(\<Sum>k \<in> ks - {t}. image_mset (Pair k) (decoded (((entries q)(t := entries q t @ [Some e])) k)))
      = (\<Sum>k \<in> ks - {t}. image_mset (Pair k) (decoded (entries q k)))"
    by (intro sum.cong) auto
  show ?thesis unfolding sum.remove [OF assms] rest by simp
qed

definition balanced :: "'s pool \<Rightarrow> string \<Rightarrow> (WebhookEvent \<Rightarrow> string \<times> WebhookEvent) \<Rightarrow> string set \<Rightarrow> 's pool \<Rightarrow> bool" where
  "balanced s0 src route ks s \<longleftrightarrow> up (pl_queue s) \<and> fst ` set_mset (pl_hands s) \<subseteq> ks
    \<and> accounted entries src route ks s + image_mset (apsnd wire) (pl_lost s)
      = accounted entries src route ks s0 + image_mset (destined route) (pl_arrived s)
    \<and> size (pl_hands s) \<le> pl_workers s \<and> size (pl_lost s) \<le> pl_crashes s * pl_workers s"

lemma step_balanced:
  assumes "pool_step enq deq src route s s'" "balanced s0 src route ks s"
    and ks: "finite ks" "src \<notin> ks" "\<And>e. fst (route e) \<in> ks"
  shows "balanced s0 src route ks s'"
  using assms(1)
proof cases
  case (take_event event q)
  have up: "up (pl_queue s)" using assms(2) by (simp add: balanced_def)
  from take_event(3) deq_result [OF up, of src] obtain es where es: "entries (pl_queue s) src = Some event # es"
    by (auto split: list.splits option.splits)
  have q: "entries q = (entries (pl_queue s))(src := es)" "up q"
    using deq_entries [OF up, of src] deq_up [OF up, of src] take_event(3) es by simp_all
  have "accounted entries src route ks s' = accounted entries src route ks s"
    using targets_frame [OF ks(1,2)] by (simp add: accounted_def take_event(1) q es destined_def apsnd_def map_prod_def case_prod_unfold)
  moreover have "fst ` set_mset (pl_hands s') \<subseteq> ks" using assms(2) ks(3) by (simp add: take_event(1) balanced_def)
  ultimately show ?thesis using assms(2) take_event(2) q(2) by (simp add: balanced_def take_event(1))
next
  case (take_nothing r q)
  have up: "up (pl_queue s)" using assms(2) by (simp add: balanced_def)
  have q: "entries q = (entries (pl_queue s))(src := tl (entries (pl_queue s) src))" "up q"
    using deq_entries [OF up, of src] deq_up [OF up, of src] take_nothing(3) by simp_all
  from take_nothing(3,4) deq_result [OF up, of src]
  have "decoded (tl (entries (pl_queue s) src)) = decoded (entries (pl_queue s) src)"
    by (auto split: list.splits option.splits)
  then have "accounted entries src route ks s' = accounted entries src route ks s"
    using targets_frame [OF ks(1,2)] by (simp add: accounted_def take_nothing(1) q)
  then show ?thesis using assms(2) q(2) by (simp add: balanced_def take_nothing(1))
next
  case (push target event ok q)
  have up: "up (pl_queue s)" and t: "target \<in> ks" using assms(2) push(2) by (auto simp: balanced_def)
  have q: "entries q = (entries (pl_queue s))(target := entries (pl_queue s) target @ [Some (wire event)])" "up q"
    using enq_entries [OF up, of target event] enq_up [OF up, of target event] push(3) by simp_all
  have src: "entries q src = entries (pl_queue s) src" using t ks(2) by (auto simp: q)
  obtain hands where h: "pl_hands s = add_mset (target, event) hands" using push(2) by (metis insert_DiffM)
  have "accounted entries src route ks s' = accounted entries src route ks s"
    using targets_push [OF ks(1) t, of "pl_queue s" "wire event"] src by (simp add: accounted_def push(1) q h)
  moreover have "fst ` set_mset (pl_hands s') \<subseteq> ks" "size (pl_hands s') \<le> pl_workers s'"
    using assms(2) by (auto simp: push(1) balanced_def h)
  ultimately show ?thesis using assms(2) q(2) by (simp add: balanced_def push(1))
next
  case start_worker
  have "accounted entries src route ks s' = accounted entries src route ks s" by (simp add: accounted_def start_worker)
  then show ?thesis using assms(2) by (simp add: balanced_def start_worker)
next
  case (arrive event ok q)
  have up: "up (pl_queue s)" using assms(2) by (simp add: balanced_def)
  have q: "entries q = (entries (pl_queue s))(src := entries (pl_queue s) src @ [Some (wire event)])" "up q"
    using enq_entries [OF up, of src event] enq_up [OF up, of src event] arrive(2) by simp_all
  have "accounted entries src route ks s' = add_mset (destined route (wire event)) (accounted entries src route ks s)"
    using targets_frame [OF ks(1,2)] by (simp add: accounted_def arrive(1) q)
  then show ?thesis using assms(2) q(2) by (simp add: balanced_def arrive(1))
next
  case crash
  have fields: "pl_queue s' = pl_queue s" "pl_workers s' = pl_workers s" "pl_hands s' = {#}"
    "pl_arrived s' = pl_arrived s" "pl_lost s' = pl_lost s + pl_hands s" "pl_crashes s' = Suc (pl_crashes s)"
    by (simp_all add: crash)
  have acc: "accounted entries src route ks s = accounted entries src route ks s' + image_mset (apsnd wire) (pl_hands s)"
    by (simp add: accounted_def crash)
  show ?thesis using assms(2) unfolding balanced_def acc by (simp add: fields ac_simps)
qed

lemma run_balanced:
  assumes "(pool_step enq deq src route)\<^sup>*\<^sup>* (pool_start q n) s" "up q"
    and "finite ks" "src \<notin> ks" "\<And>e. fst (route e) \<in> ks"
  shows "balanced (pool_start q n) src route ks s"
  using assms(1)
proof (induction rule: rtranclp_induct)
  case base
  show ?case using assms(2) by (simp add: balanced_def pool_start_def)
next
  case (step s s')
  from step_balanced [OF step.hyps(2) step.IH assms(3-5)] show ?case .
qed

text \<open>Whatever the pool has done, its workers can finish: no event is stuck in a queue or in a hand.\<close>

lemma drains:
  assumes targets: "\<And>e. fst (route e) \<noteq> src"
    and "up (pl_queue s)" "0 < pl_workers s" "src \<notin> fst ` set_mset (pl_hands s)"
  shows "\<exists>s'. (pool_step enq deq src route)\<^sup>*\<^sup>* s s' \<and> entries (pl_queue s') src = [] \<and> pl_hands s' = {#}
    \<and> pl_arrived s' = pl_arrived s \<and> pl_lost s' = pl_lost s \<and> pl_crashes s' = pl_crashes s"
  using assms(2-4)
proof (induction "2 * length (entries (pl_queue s) src) + size (pl_hands s)" arbitrary: s rule: less_induct)
  case less
  let ?same = "\<lambda>s'. pl_arrived s' = pl_arrived s \<and> pl_lost s' = pl_lost s \<and> pl_crashes s' = pl_crashes s"
  have go: ?case
    if step: "pool_step enq deq src route s s1" and dec: "2 * length (entries (pl_queue s1) src) + size (pl_hands s1)
        < 2 * length (entries (pl_queue s) src) + size (pl_hands s)"
      and ok: "up (pl_queue s1)" "0 < pl_workers s1" "src \<notin> fst ` set_mset (pl_hands s1)" "?same s1" for s1
    using less.hyps [OF dec ok(1-3)] ok(4) converse_rtranclp_into_rtranclp [of "pool_step enq deq src route", OF step] by metis
  show ?case
  proof (cases "pl_hands s = {#}")
    case False
    then obtain t e where te: "(t, e) \<in># pl_hands s" by fastforce
    obtain ok q where enq: "enq t e (pl_queue s) = (ok, q)" by fastforce
    have "t \<noteq> src" using te less.prems(3) by force
    with enq enq_entries [OF less.prems(1), of t e] enq_up [OF less.prems(1), of t e]
    have q: "entries q src = entries (pl_queue s) src" "up q" by simp_all
    have "size (pl_hands s - {#(t, e)#}) < size (pl_hands s)" using te by (rule size_Diff1_less)
    moreover have "src \<notin> fst ` set_mset (pl_hands s - {#(t, e)#})" using less.prems(3) by (auto dest: in_diffD)
    ultimately show ?thesis using q less.prems(2) by (intro go [OF push [where s = s and target = t and event = e and enq = enq, OF te enq]]) simp_all
  next
    case True
    then have room: "size (pl_hands s) < pl_workers s" using less.prems(2) by simp
    obtain r q where deq: "deq src (pl_queue s) = (r, q)" by fastforce
    have q: "entries q src = tl (entries (pl_queue s) src)" "up q"
      using deq_entries [OF less.prems(1), of src] deq_up [OF less.prems(1), of src] deq by simp_all
    have r: "r = (case entries (pl_queue s) src of [] \<Rightarrow> Inr None | None # _ \<Rightarrow> Inl BadEvent | Some e # _ \<Rightarrow> Inr (Some e))"
      using deq_result [OF less.prems(1), of src] deq by simp
    show ?thesis
    proof (cases "entries (pl_queue s) src")
      case Nil
      with True show ?thesis by blast
    next
      case (Cons x es)
      show ?thesis
      proof (cases x)
        case None
        with r Cons have "r = Inr None \<or> (\<exists>err. r = Inl err)" by simp
        from take_nothing [where s = s and deq = deq, OF room deq this] show ?thesis
          by (rule go) (use Cons q less.prems(2,3) True in simp_all)
      next
        case (Some e)
        with r Cons deq have "deq src (pl_queue s) = (Inr (Some e), q)" by simp
        from take_event [where s = s and deq = deq, OF room this] show ?thesis
          by (rule go) (use Cons q less.prems(2,3) True targets in \<open>simp_all add: neq_commute\<close>)
      qed
    qed
  qed
qed

end

section \<open>The orchestrator\<close>

abbreviation orchestrator_step :: "(bytes \<Rightarrow> json option) \<Rightarrow> redis pool \<Rightarrow> redis pool \<Rightarrow> bool" where
  "orchestrator_step parse \<equiv> pool_step Enqueue (Dequeue False) QueueIncoming (route_event parse)"

abbreviation orchestrated :: "(bytes \<Rightarrow> json option) \<Rightarrow> redis pool \<Rightarrow> (string \<times> WebhookEvent) multiset" where
  "orchestrated parse \<equiv> accounted queue_entries QueueIncoming (route_event parse) {QueueDelivery, QueueExtraction}"

lemma route_targets: "fst (route_event parse e) \<in> {QueueDelivery, QueueExtraction}"
  by (auto simp: route_event_def split: option.split json.split)

text \<open>
  C10: the pool of workers loses nothing by running concurrently. Take any interleaving of pops, pushes,
  arrivals, worker starts and deaths of the process, while Redis answers. At every moment the decodable
  events in the incoming queue, in the hands of the workers and in the two queues behind, each counted at
  the queue it belongs to and as often as it is there, together with those that died with the process, are
  exactly those of the start together with those that arrived: none is lost, doubled or sent to the wrong
  queue. A death of the process costs at most one event for each worker. And from every such moment the
  workers can finish, so that every event that has not died stands in the queue it belongs to.
\<close>

theorem pool_conserves_events:
  assumes "(orchestrator_step parse)\<^sup>*\<^sup>* (pool_start q n) s" "queue_up q" "0 < n"
  shows "orchestrated parse s + image_mset (apsnd wire) (pl_lost s)
      = orchestrated parse (pool_start q n) + image_mset (destined (route_event parse)) (pl_arrived s)
    \<and> size (pl_lost s) \<le> pl_crashes s * pl_workers s
    \<and> (\<exists>s'. (orchestrator_step parse)\<^sup>*\<^sup>* s s' \<and> pl_lost s' = pl_lost s \<and> pl_arrived s' = pl_arrived s
        \<and> image_mset (Pair QueueDelivery) (decoded (queue_entries (pl_queue s') QueueDelivery))
          + image_mset (Pair QueueExtraction) (decoded (queue_entries (pl_queue s') QueueExtraction))
          = orchestrated parse s)"
proof -
  let ?ks = "{QueueDelivery, QueueExtraction}"
  have ks: "finite ?ks" "QueueIncoming \<notin> ?ks" by simp_all
  note balanced = rq.run_balanced [OF _ assms(2) ks route_targets]
  have b: "rq.balanced (pool_start q n) QueueIncoming (route_event parse) ?ks s" by (rule balanced [OF assms(1)])
  have workers: "n \<le> pl_workers s"
    using assms(1)
  proof (induction rule: rtranclp_induct)
    case (step t u)
    from step.hyps(2) step.IH show ?case by cases simp_all
  qed (simp add: pool_start_def)
  have "QueueIncoming \<notin> fst ` set_mset (pl_hands s)" using b ks(2) unfolding rq.balanced_def by blast
  then obtain s' where run: "(orchestrator_step parse)\<^sup>*\<^sup>* s s'" and done': "queue_entries (pl_queue s') QueueIncoming = []"
    "pl_hands s' = {#}" "pl_arrived s' = pl_arrived s" "pl_lost s' = pl_lost s"
    using rq.drains [of "route_event parse" QueueIncoming s, OF route_target] b workers assms(3)
    unfolding rq.balanced_def by (meson less_le_trans)
  have b': "rq.balanced (pool_start q n) QueueIncoming (route_event parse) ?ks s'"
    by (rule balanced [OF rtranclp_trans [OF assms(1) run]])
  have "orchestrated parse s' = orchestrated parse s"
    using b b' unfolding rq.balanced_def done' by (metis add_right_imp_eq)
  then have "image_mset (Pair QueueDelivery) (decoded (queue_entries (pl_queue s') QueueDelivery))
      + image_mset (Pair QueueExtraction) (decoded (queue_entries (pl_queue s') QueueExtraction))
      = orchestrated parse s"
    by (simp add: accounted_def done')
  with run done' b show ?thesis unfolding rq.balanced_def by blast
qed

text \<open>A pool that dies after its first pop, and goes on with what is left.\<close>

theorem pool_conserves_events_witness:
  "\<exists>s. (orchestrator_step (\<lambda>_. None))\<^sup>*\<^sup>*
      (pool_start (redis_of [(QueueIncoming, [EventText (plain ''a'' ''s'' []), EventText (plain ''b'' ''s'' [])])]) 2) s
    \<and> pl_lost s = {#(QueueDelivery, plain ''a'' ''s'' [])#}
    \<and> add_mset (QueueDelivery, wire (plain ''a'' ''s'' [])) (orchestrated (\<lambda>_. None) s)
      = {#(QueueDelivery, wire (plain ''a'' ''s'' [])), (QueueDelivery, wire (plain ''b'' ''s'' []))#}
    \<and> size (pl_lost s) \<le> 2"
proof -
  let ?e = "plain ''a'' ''s'' []" and ?f = "plain ''b'' ''s'' []" and ?parse = "\<lambda>_. None :: json option"
  let ?rd = "redis_of [(QueueIncoming, [EventText ?e, EventText ?f])]"
  let ?s0 = "pool_start ?rd 2"
  have up: "queue_up ?rd" by (rule redis_of_up)
  have entries: "queue_entries ?rd QueueIncoming = [Some ?e, Some ?f]" "queue_entries ?rd QueueDelivery = []"
    "queue_entries ?rd QueueExtraction = []"
    by (simp_all add: queue_entries_def redis_of_def)
  have route: "route_event ?parse e = (QueueDelivery, e)" for e by (simp add: route_event_def unmarshal_map_def)
  obtain r q where deq: "Dequeue False QueueIncoming (pl_queue ?s0) = (r, q)" by fastforce
  have r: "r = Inr (Some ?e)"
    using deq rq.deq_result [OF up, of QueueIncoming] entries(1) by (simp add: pool_start_def)
  let ?s1 = "?s0\<lparr>pl_queue := q, pl_hands := add_mset (route_event ?parse ?e) (pl_hands ?s0)\<rparr>"
  let ?s2 = "?s1\<lparr>pl_hands := {#}, pl_lost := pl_lost ?s1 + pl_hands ?s1, pl_crashes := Suc (pl_crashes ?s1)\<rparr>"
  have "orchestrator_step ?parse ?s0 ?s1"
    by (rule take_event) (use deq r in \<open>simp_all add: pool_start_def\<close>)
  moreover have "orchestrator_step ?parse ?s1 ?s2" by (rule crash)
  ultimately have run: "(orchestrator_step ?parse)\<^sup>*\<^sup>* ?s0 ?s2" by (meson converse_rtranclp_into_rtranclp rtranclp.rtrancl_refl)
  have lost: "pl_lost ?s2 = {#(QueueDelivery, ?e)#}" "pl_crashes ?s2 * pl_workers ?s2 = 2" "pl_arrived ?s2 = {#}"
    by (simp_all add: pool_start_def route)
  have "orchestrated ?parse ?s0 = {#(QueueDelivery, wire ?e), (QueueDelivery, wire ?f)#}"
    by (simp add: accounted_def pool_start_def entries) (simp add: destined_def route)
  with pool_conserves_events [OF run up, unfolded lost] run lost(1) show ?thesis
    by (intro exI [of _ ?s2] conjI) simp_all
qed

end
