(* ===== verification/Invariants.thy ===== *)
theory Invariants
  imports Fanout
begin

text \<open>
  What is always true of the tables that the delivery engine writes: the types of their rows and the
  references between them. It does not depend on any query succeeding.
\<close>

section \<open>Well-formed tables\<close>

definition scalar :: "json \<Rightarrow> bool" where
  "scalar v \<longleftrightarrow> DetectType v \<in> {''null'', ''string'', ''number'', ''boolean''}"

definition wf_field :: "string \<Rightarrow> FieldSchema \<Rightarrow> bool" where
  "wf_field name f \<longleftrightarrow> fs_Name f = name
    \<and> fs_Type f \<in> {''null'', ''string'', ''number'', ''boolean'', ''object'', ''array''}
    \<and> fs_Examples f \<noteq> [] \<and> length (fs_Examples f) \<le> 3 \<and> list_all scalar (fs_Examples f)
    \<and> (fs_Type f = ''null'' \<longrightarrow> list_all (\<lambda>v. v = JNull) (fs_Examples f))"

definition wf_schema :: "PayloadSchema \<Rightarrow> bool" where
  "wf_schema ps \<longleftrightarrow> gm_ok (ps_Fields ps) \<and> list_all (\<lambda>(name, f). wf_field name f) (ps_Fields ps)"

definition wf_attempt :: "DeliveryAttempt \<Rightarrow> bool" where
  "wf_attempt a \<longleftrightarrow> 1 \<le> da_AttemptNumber a
    \<and> (da_Success a \<longrightarrow> 200 \<le> da_StatusCode a \<and> da_StatusCode a < 300 \<and> da_ErrorMessage a = [])"

definition wf_drift :: "DriftEvent \<Rightarrow> bool" where
  "wf_drift d \<longleftrightarrow> dr_DriftType d \<in> {''FIELD_MISSING'', ''TYPE_CHANGED'', ''NEW_FIELD''}
    \<and> dr_ExpectedType d \<noteq> dr_ActualType d"

definition wf_tables :: "pg \<Rightarrow> bool" where
  "wf_tables s \<longleftrightarrow>
    distinct (map ps_SourceID (pg_schemas s))
    \<and> (\<forall>ps \<in> set (pg_schemas s). wf_schema ps \<and> 1 \<le> ps_SampleCount ps \<and> source_known s (ps_SourceID ps))
    \<and> (\<forall>a \<in> set (pg_attempts s). wf_attempt a \<and> dest_known s (da_DestinationID a))
    \<and> (\<forall>e \<in> set (pg_dlq s). dest_known s (dl_DestinationID e))
    \<and> (\<forall>d \<in> set (pg_drifts s). wf_drift d \<and> source_known s (dr_SourceID d))"

section \<open>Inference\<close>

lemma scalar_truncate: "scalar (truncateExample v)"
  by (simp add: truncateExample_def scalar_def split: json.split)

lemma truncate_null: "truncateExample v = JNull \<longleftrightarrow> v = JNull"
  by (simp add: truncateExample_def split: json.split)

lemma DetectType_range: "DetectType v \<in> {''null'', ''string'', ''number'', ''boolean'', ''object'', ''array''}"
  by (cases v) simp_all

lemma DetectType_null: "DetectType v = ''null'' \<longleftrightarrow> v = JNull"
  by (cases v) simp_all

lemma wf_field_after:
  "(\<And>f. old = Some f \<Longrightarrow> wf_field name f) \<Longrightarrow> wf_field name (field_after cnt name v old)"
  using DetectType_range [of v] scalar_truncate [of v]
  by (cases old) (auto simp: field_after_def wf_field_def truncate_null DetectType_null)

lemma wf_schema_get:
  "wf_schema ps \<longleftrightarrow> gm_ok (ps_Fields ps) \<and> (\<forall>name f. gm_get (ps_Fields ps) name = Some f \<longrightarrow> wf_field name f)"
  by (auto simp: wf_schema_def list_all_iff gm_get_Some_iff)

lemma wf_observe:
  assumes "wf_schema ps" "gm_ok flat"
  shows "wf_schema (observe ps flat m now)"
  unfolding wf_schema_get
proof (intro conjI allI impI)
  show "gm_ok (ps_Fields (observe ps flat m now))" using assms(1) by (simp add: wf_schema_def gm_ok_observe)
next
  fix name f
  let ?old = "gm_get (ps_Fields ps) name"
  assume f: "gm_get (ps_Fields (observe ps flat m now)) name = Some f"
  have old: "wf_field name g" if "?old = Some g" for g using assms(1) that by (simp add: wf_schema_get)
  show "wf_field name f"
  proof (cases "gm_get flat name")
    case None
    with f gm_get_observe [OF assms(2)] obtain g where "?old = Some g" "f = g\<lparr>fs_Nullable := True\<rparr>"
      by (auto split: option.splits)
    with old [of g] show ?thesis by (simp add: wf_field_def)
  next
    case (Some v)
    with f gm_get_observe [OF assms(2)] have "f = field_after (ps_SampleCount ps + 1) name v ?old"
      by (auto split: option.splits)
    with wf_field_after [OF old] show ?thesis by simp
  qed
qed

lemma wf_stored:
  "wf_schema ps \<Longrightarrow> wf_schema (kept_schema stored_example t ps)"
proof -
  have s: "scalar (stored_example v) = scalar v" "stored_example v = JNull \<longleftrightarrow> v = JNull" for v
    by (simp_all add: stored_example_def scalar_def split: json.split)
  have "wf_field name f \<Longrightarrow> wf_field name (kept_field stored_example f)" for name f
    by (auto simp: wf_field_def kept_field_def list_all_iff s)
  then show "wf_schema ps \<Longrightarrow> wf_schema (kept_schema stored_example t ps)"
    unfolding wf_schema_get gm_get_kept by auto
qed

lemma wf_new: "wf_schema (new_schema src)" by (simp add: new_schema_def wf_schema_def)

lemma wf_tick [simp]: "wf_tables (pg_tick s) = wf_tables s"
  by (simp add: wf_tables_def pg_tick_def source_known_def dest_known_def)

lemma wf_exec: "(wf_tables (pg_tick s) \<Longrightarrow> wf_tables (snd (u (pg_tick s)))) \<Longrightarrow> wf_tables s \<Longrightarrow> wf_tables (snd (pg_exec u s))"
  by (simp add: pg_exec_def)

lemma wf_upsert:
  assumes "wf_tables s" "wf_schema ps" "1 \<le> ps_SampleCount ps"
  shows "wf_tables (snd (UpsertPayloadSchema ps s))"
  unfolding UpsertPayloadSchema_def
proof (rule wf_exec [OF _ assms(1)])
  let ?t = "pg_tick s"
  assume wf: "wf_tables ?t"
  have ids: "map ps_SourceID (map (\<lambda>x. if ps_SourceID x = ps_SourceID ps then kept_schema stored_example (pg_now ?t) ps else x)
      xs) = map ps_SourceID xs" for xs
    by (induction xs) auto
  from wf assms(2,3) show "wf_tables (snd (if \<not> source_known ?t (ps_SourceID ps) then (Some ForeignKey, ?t)
      else let row = kept_schema stored_example (pg_now ?t) ps in
        (None, ?t\<lparr>pg_schemas :=
          (if ps_SourceID ps \<in> set (map ps_SourceID (pg_schemas ?t))
           then map (\<lambda>x. if ps_SourceID x = ps_SourceID ps then row else x) (pg_schemas ?t)
           else pg_schemas ?t @ [row])\<rparr>)))"
    unfolding Let_def
    by (auto simp: wf_tables_def wf_stored source_known_def dest_known_def ids simp del: map_map)
qed

lemma wf_update:
  assumes "wf_tables s" "gm_ok (FlattenJSON payload)"
  shows "wf_tables (UpdateSchema GetPayloadSchema UpsertPayloadSchema src payload m now s)"
proof -
  have "wf_schema ps \<and> 1 \<le> ps_SampleCount ps" if "fst (GetPayloadSchema src s) = Inr ps" for ps
    using that assms(1) by (auto simp: GetPayloadSchema_def pg_query_def wf_tables_def dest!: find_SomeD split: if_splits option.splits)
  moreover have "snd (GetPayloadSchema src s) = pg_tick s" by (simp add: GetPayloadSchema_def pg_query_def)
  ultimately show ?thesis using assms wf_new
    by (auto simp: UpdateSchema_def Let_def case_prod_unfold new_schema_def split: sum.split intro!: wf_upsert wf_observe)
qed

section \<open>Drift\<close>

lemma wf_insert_drift:
  assumes "wf_tables s" "wf_drift d"
  shows "wf_tables (snd (InsertDriftEvent d s))"
  unfolding InsertDriftEvent_def
  by (rule wf_exec [OF _ assms(1)])
     (use assms(2) in \<open>auto simp: wf_tables_def wf_drift_def source_known_def dest_known_def\<close>)

lemma wf_find_drifts:
  assumes "gm_ok flds" "\<And>name f. gm_get flds name = Some f \<Longrightarrow> wf_field name f" "d \<in> set (find_drifts src ev now flat flds)"
  shows "wf_drift d"
proof -
  consider "d \<in> set (missing_drifts src ev now flat flds)" | nv where "d \<in> set (value_drift src ev now flds nv)"
    using assms(3) by (auto simp: find_drifts_def)
  then show ?thesis
  proof cases
    case 1
    then obtain name f where "(name, f) \<in> set flds" "d = \<lparr>dr_EventID = ev, dr_SourceID = src, dr_DriftType = ''FIELD_MISSING'',
         dr_FieldName = name, dr_ExpectedType = fs_Type f, dr_ActualType = [], dr_DetectedAt = now\<rparr>"
      by (auto simp: missing_drifts_def)
    moreover from this(1) assms(1,2) have "wf_field name f" by (simp add: gm_get_Some_iff)
    ultimately show ?thesis by (auto simp: wf_drift_def wf_field_def)
  next
    case 2
    have "DetectType (snd nv) \<noteq> []" by (cases "snd nv") simp_all
    with 2 show ?thesis by (auto simp: value_drift_def Let_def wf_drift_def split: option.splits if_splits)
  qed
qed

lemma wf_check:
  assumes "wf_tables s"
  shows "wf_tables (snd (CheckDrift GetPayloadSchema InsertDriftEvent src ev payload now s))"
proof -
  have fold: "wf_tables t \<Longrightarrow> \<forall>d \<in> set ds. wf_drift d \<Longrightarrow> wf_tables (fold (\<lambda>d st. snd (InsertDriftEvent d st)) ds t)" for ds t
    by (induction ds arbitrary: t) (auto intro: wf_insert_drift)
  have wf: "wf_schema ps" if "fst (GetPayloadSchema src s) = Inr ps" for ps
    using that assms by (auto simp: GetPayloadSchema_def pg_query_def wf_tables_def dest!: find_SomeD split: if_splits option.splits)
  obtain r s1 where get: "GetPayloadSchema src s = (r, s1)" by fastforce
  have s1: "wf_tables s1" using get assms by (auto simp: GetPayloadSchema_def pg_query_def)
  show ?thesis
  proof (cases r)
    case (Inr ps)
    with get wf have "wf_schema ps" by simp
    then have "\<forall>d \<in> set (find_drifts src ev now (FlattenJSON payload) (ps_Fields ps)). wf_drift d"
      using wf_find_drifts unfolding wf_schema_get by blast
    with Inr get s1 fold show ?thesis by (simp add: CheckDrift_def Let_def)
  qed (simp add: CheckDrift_def get s1)
qed

section \<open>Delivery\<close>

definition wf_action :: "action \<Rightarrow> bool" where
  "wf_action a \<longleftrightarrow> (case a of RecordAttempt r \<Rightarrow> wf_attempt r | _ \<Rightarrow> True)"

lemma wf_record: "1 \<le> n \<Longrightarrow> wf_attempt (record_for nt ev d n)"
  by (cases "nt_answer nt n")
     (auto simp: wf_attempt_def record_for_def attemptDelivery_def attempt_record_def)

lemma wf_loop: "\<forall>n \<in> set ns. 1 \<le> n \<Longrightarrow> \<forall>a \<in> set (fst (deliver_loop c nt m ev d ns)). wf_action a"
proof (induction ns)
  case Nil
  then show ?case by (simp add: moveToDLQ_def wf_action_def)
next
  case (Cons n ns)
  have post: "\<forall>a \<in> set (fst (attemptDelivery c x ev d)). wf_action a" for x
    by (auto simp: attemptDelivery_def wf_action_def split: http_outcome.splits)
  from Cons show ?case
    unfolding deliver_loop_round
    by (auto simp: Let_def case_prod_unfold moveToDLQ_def wf_record wf_action_def [of "Wait w" for w]
        wf_action_def [of "RecordAttempt r" for r] wf_action_def [of "PushDLQ e" for e] wf_action_def [of "RecordDLQ e" for e]
        wf_action_def [of "Publish p" for p] wf_action_def [of "RecordLatency l" for l] dest: bspec [OF post])
qed

lemma wf_insert_attempt:
  assumes "wf_tables s" "wf_attempt r"
  shows "wf_tables (snd (InsertDeliveryAttempt r s))"
  unfolding InsertDeliveryAttempt_def
  by (rule wf_exec [OF _ assms(1)])
     (use assms(2) in \<open>auto simp: wf_tables_def source_known_def dest_known_def\<close>)

lemma wf_insert_dead:
  assumes "wf_tables s"
  shows "wf_tables (snd (InsertDeadLetterEntry e s))"
  unfolding InsertDeadLetterEntry_def
  by (rule wf_exec [OF _ assms(1)]) (auto simp: wf_tables_def source_known_def dest_known_def)

lemma wf_perform: "wf_action a \<Longrightarrow> wf_tables (sv_pg s) \<Longrightarrow> wf_tables (sv_pg (perform a s))"
  by (cases a) (simp_all add: perform_def wf_action_def wf_insert_attempt wf_insert_dead)

lemma wf_performs: "\<forall>a \<in> set as. wf_action a \<Longrightarrow> wf_tables (sv_pg s) \<Longrightarrow> wf_tables (sv_pg (fold perform as s))"
  by (induction as arbitrary: s) (auto intro: wf_perform)

lemma wf_fan_out: "t \<in> set (fan_out en nets ev ds) \<Longrightarrow> \<forall>a \<in> set t. wf_action a"
  by (auto simp: fan_out_def deliverToDestination_def dest: wf_loop [THEN bspec, rotated])

lemma wf_inspect: "inspect_event en now ev s = (drifts, s') \<Longrightarrow> wf_tables (sv_pg s) \<Longrightarrow> wf_tables (sv_pg s')"
  by (auto simp: inspect_event_def Let_def case_prod_unfold split: option.splits intro!: wf_check wf_update)

lemma query_state:
  "GetRoutingRules src s = (r1, t) \<Longrightarrow> t = pg_tick s" "GetDestinationsBySourceID src s = (r2, t) \<Longrightarrow> t = pg_tick s"
  "GetDefaultDestinations src s = (r2, t) \<Longrightarrow> t = pg_tick s"
  by (simp_all add: GetRoutingRules_def GetDestinationsBySourceID_def GetDefaultDestinations_def pg_query_def)

lemma wf_resolve: "ResolveDestinations p pc ff pf src body s = (r, t) \<Longrightarrow> wf_tables s \<Longrightarrow> wf_tables t"
  unfolding ResolveDestinations_def Let_def
  by (auto split: prod.splits sum.splits if_splits option.splits dest!: query_state)

lemma wf_destinations: "event_destinations en ev s = (ds, s') \<Longrightarrow> wf_tables (sv_pg s) \<Longrightarrow> wf_tables (sv_pg s')"
  by (auto simp: event_destinations_def split: prod.splits sum.splits dest: wf_resolve)

text \<open>
  C16: the tables stay well formed. Whatever the event, the answers of the destinations and the interleaving of their
  goroutines, and whichever queries fail in between, a delivery keeps this invariant: there is one schema per
  registered source, each of its fields has one of the six JSON types and one to three scalar examples, a
  type \<open>null\<close> only if nothing else has been seen; every attempt has a positive number, and counts as a
  success only with a status 2xx and no error; attempts and dead letters name known destinations; every
  drift is of one of the three kinds, with an actual type that differs from the expected one.
\<close>

theorem delivery_keeps_tables_well_formed:
  assumes "deliverEvent en nets now ev s s'" "wf_tables (sv_pg s)"
  shows "wf_tables (sv_pg s')"
  using assms(1)
proof cases
  case (1 drifts s1 dests s2 as)
  have "\<forall>a \<in> set as. wf_action a"
    using wf_fan_out mset_eq_setD [OF interleaved_mset [OF 1(4)]] by fastforce
  moreover have "wf_tables (sv_pg s2)" using wf_destinations [OF 1(3)] wf_inspect [OF 1(2)] assms(2) by blast
  ultimately show ?thesis unfolding 1(1) by (rule wf_performs)
qed

theorem delivery_keeps_tables_well_formed_witness:
  "\<exists>s'. deliverEvent demo_engine (\<lambda>_. steady (Responded 503 1)) 0 (plain ''e'' ''s'' ''hi'') demo_services s'
    \<and> wf_tables (sv_pg s')"
proof -
  obtain s' where run: "deliverEvent demo_engine (\<lambda>_. steady (Responded 503 1)) 0 (plain ''e'' ''s'' ''hi'') demo_services s'"
    using deliverEvent_returns by blast
  have "wf_tables (sv_pg demo_services)" by (simp add: wf_tables_def demo_services_def ruled_pg_def fresh_pg_def)
  from delivery_keeps_tables_well_formed [OF run this] run show ?thesis by blast
qed

end
