(* ===== verification/Recovery.thy ===== *)
theory Recovery
  imports Fanout
begin

text \<open>
  What a crash of the delivery service costs. A delivery is cut off after any number of the actions of
  its interleaved goroutines; the service is restarted and \<open>RecoverIncomplete\<close> looks at what is in the stores.
\<close>

section \<open>A delivery that is cut off\<close>

text \<open>\<open>acts\<close> are the actions that were performed.\<close>

inductive delivery_until ::
    "engine \<Rightarrow> (string \<Rightarrow> net) \<Rightarrow> int \<Rightarrow> WebhookEvent \<Rightarrow> services \<Rightarrow> action list \<Rightarrow> services \<Rightarrow> bool" where
  "inspect_event en now event s = (drifts, s1) \<Longrightarrow> event_destinations en event s1 = (dests, s2)
    \<Longrightarrow> interleaved (fan_out en nets event dests) (acts @ undone)
    \<Longrightarrow> delivery_until en nets now event s acts (fold perform acts s2)"

definition own_action :: "WebhookEvent \<Rightarrow> Destination list \<Rightarrow> action \<Rightarrow> bool" where
  "own_action ev ds a \<longleftrightarrow>
    (case a of
       RecordAttempt r \<Rightarrow> da_EventID r = ev_ID ev \<and> da_SourceID r = ev_SourceID ev \<and> da_DestinationID r \<in> dest_ID ` set ds
     | RecordDLQ e \<Rightarrow> dl_EventID e = ev_ID ev \<and> dl_DestinationID e \<in> dest_ID ` set ds \<and> \<not> dl_Resolved e \<and> dl_ResolvedAt e = None
     | _ \<Rightarrow> True)"

lemma own_record: "d \<in> set ds \<Longrightarrow> own_action ev ds (RecordAttempt (record_for nt ev d n))"
  by (cases "nt_answer nt n") (auto simp: own_action_def record_for_def attemptDelivery_def attempt_record_def)

lemma own_loop: "d \<in> set ds \<Longrightarrow> \<forall>a \<in> set (fst (deliver_loop c nt m ev d ns)). own_action ev ds a"
proof (induction ns)
  case Nil
  then show ?case by (auto simp: moveToDLQ_def own_action_def)
next
  case (Cons n ns)
  have post: "\<forall>a \<in> set (fst (attemptDelivery c x ev d)). own_action ev ds a" for x
    by (auto simp: attemptDelivery_def own_action_def split: http_outcome.splits)
  have dead: "\<forall>a \<in> set (moveToDLQ now ev d r). own_action ev ds a" for now r
    using Cons.prems by (auto simp: moveToDLQ_def own_action_def)
  have others: "own_action ev ds (Wait w)" "own_action ev ds (Publish p)" "own_action ev ds (RecordLatency l)" for w p l
    by (simp_all add: own_action_def)
  from Cons post dead others own_record [OF Cons.prems] show ?case
    unfolding deliver_loop_round by (auto simp: Let_def case_prod_unfold)
qed

lemma own_fan_out:
  assumes "interleaved (fan_out en nets ev ds) (acts @ undone)"
  shows "\<forall>a \<in> set acts. own_action ev ds a"
proof -
  have "set acts \<subseteq> (\<Union>t \<in> set (fan_out en nets ev ds). set t)"
    using mset_eq_setD [OF interleaved_mset [OF assms]] by auto
  then show ?thesis
    by (fastforce simp: fan_out_def deliverToDestination_def dest: own_loop [THEN bspec, rotated])
qed

lemma set_attempts_of: "r \<in> set (attempts_of as) \<longleftrightarrow> RecordAttempt r \<in> set as"
  by (induction as) (auto split: action.splits)

lemma set_dead_of: "e \<in> set (dead_of as) \<longleftrightarrow> RecordDLQ e \<in> set as"
  by (induction as) (auto split: action.splits)

text \<open>What the crash leaves.\<close>

lemma delivery_until_stores:
  assumes "delivery_until en nets now ev s acts s'" "all_up s"
  shows "all_up s' \<and> pg_attempts (sv_pg s') = pg_attempts (sv_pg s) @ attempts_of acts
    \<and> pg_dlq (sv_pg s') = pg_dlq (sv_pg s) @ dead_of acts
    \<and> rd_lists (sv_rd s') QueueDelivery = rd_lists (sv_rd s) QueueDelivery
    \<and> sv_sc s' = snd (InsertEvent (en_uuid en) ev (sv_sc s))
    \<and> (\<forall>r \<in> set (attempts_of acts). da_EventID r = ev_ID ev \<and> da_SourceID r = ev_SourceID ev)
    \<and> (\<forall>e \<in> set (dead_of acts). dl_EventID e = ev_ID ev)"
  using assms(1)
proof cases
  case (1 drifts s1 ds s2 undone)
  note view = inspect_frame [OF 1(2)]
  have up1: "all_up s1" using view assms(2) by blast
  note chosen = settled_destinations [OF 1(3) up1]
  have own: "\<forall>a \<in> set acts. own_action ev ds a" by (rule own_fan_out [OF 1(4)])
  have rows: "r \<in> set (attempts_of acts) \<Longrightarrow> own_action ev ds (RecordAttempt r)"
    "e \<in> set (dead_of acts) \<Longrightarrow> own_action ev ds (RecordDLQ e)" for r e
    using own by (simp_all add: set_attempts_of set_dead_of)
  have known: "dest_known (sv_pg s2) (dest_ID d)" if "d \<in> set ds" for d
    using that chosen chosen_known by (fastforce simp: delivery_view_def dest_known_def)
  have "targets_known s2 acts"
    unfolding targets_known_def using rows known by (fastforce simp: own_action_def)
  moreover have "all_up s2" using chosen by blast
  ultimately have eff: "all_up s'" "pg_attempts (sv_pg s') = pg_attempts (sv_pg s2) @ attempts_of acts"
    "pg_dlq (sv_pg s') = pg_dlq (sv_pg s2) @ dead_of acts"
    "rd_lists (sv_rd s') QueueDelivery = rd_lists (sv_rd s2) QueueDelivery"
    using perform_effect [of s2 acts] by (simp_all add: 1(1) Let_def)
  have "sv_sc (fold perform as t) = sv_sc t" for as t
    by (induction as arbitrary: t) (auto simp: perform_def split: action.split)
  moreover have "sv_sc s2 = sv_sc s1" using 1(3) by (auto simp: event_destinations_def split: prod.splits sum.splits)
  moreover have "sv_sc s1 = snd (InsertEvent (en_uuid en) ev (sv_sc s))"
    using 1(2) by (auto simp: inspect_event_def Let_def case_prod_unfold split: option.splits)
  ultimately have sc: "sv_sc s' = snd (InsertEvent (en_uuid en) ev (sv_sc s))" by (simp add: 1(1))
  have views: "pg_attempts (sv_pg s2) = pg_attempts (sv_pg s)" "pg_dlq (sv_pg s2) = pg_dlq (sv_pg s)"
    "sv_rd s2 = sv_rd s"
    using chosen view by (simp_all add: delivery_view_def)
  show ?thesis using eff sc views rows by (auto simp: own_action_def)
qed

section \<open>The restart\<close>

lemma archive_hit:
  assumes "sc_faults sc = []" "en_uuid en (ev_ID ev) = Some u" "\<forall>r \<in> set (sc_rows sc). ar_EventID r \<noteq> u"
  defines "sc' \<equiv> snd (InsertEvent (en_uuid en) ev sc)"
  shows "sc_faults sc' = []"
    "fst (GetEvent (en_uuid en) (ev_SourceID ev) (ev_ID ev) sc') = Some (archived_event (ev_ID ev)
      \<lparr>ar_SourceID = ev_SourceID ev, ar_ReceivedAt = millis (ev_ReceivedAt ev), ar_EventID = u,
       ar_RawBody = ev_RawBody ev, ar_Headers = ev_Headers ev\<rparr>)"
proof -
  let ?row = "\<lparr>ar_SourceID = ev_SourceID ev, ar_ReceivedAt = millis (ev_ReceivedAt ev), ar_EventID = u,
       ar_RawBody = ev_RawBody ev, ar_Headers = ev_Headers ev\<rparr>"
  have ok: "\<not> sc_fails sc" "sc_tick sc = sc" using assms(1) by (simp_all add: sc_fails_def sc_tick_def)
  have sc': "sc_faults sc' = []" "set (sc_rows sc') \<subseteq> insert ?row (set (sc_rows sc))" "?row \<in> set (sc_rows sc')"
    using assms(1,2) ok by (auto simp: sc'_def InsertEvent_def Let_def)
  show "sc_faults sc' = []" by (fact sc'(1))
  let ?p = "\<lambda>r. ar_EventID r = u"
  have "?row \<in> set (partition (ev_SourceID ev) sc')" using sc'(3) by (simp add: partition_def)
  then obtain x where x: "find ?p (partition (ev_SourceID ev) sc') = Some x"
    by (cases "find ?p (partition (ev_SourceID ev) sc')") (auto simp: find_None_iff)
  then have "x \<in> set (sc_rows sc')" "ar_EventID x = u" by (auto simp: partition_def dest: find_SomeD)
  with sc'(2) assms(3) have "x = ?row" by blast
  moreover have "\<not> sc_fails sc'" using sc'(1) by (simp add: sc_fails_def)
  ultimately show "fst (GetEvent (en_uuid en) (ev_SourceID ev) (ev_ID ev) sc') = Some (archived_event (ev_ID ev) ?row)"
    using x assms(2) by (simp add: GetEvent_def)
qed

lemma GetEvent_id: "fst (GetEvent p src i sc) = Some e \<Longrightarrow> ev_ID e = i"
  by (auto simp: GetEvent_def archived_event_def split: option.splits if_splits)

text \<open>The entries that recovery makes for one event.\<close>

lemma recoverable_copies:
  assumes "\<forall>d \<in> set ds. id_EventID d = i \<longrightarrow> due now d \<and> fst (GetEvent (en_uuid en) (id_SourceID d) i sc) = Some e"
  shows "filter (\<lambda>x. ev_ID x = i) (recoverable en now sc ds) = replicate (length (filter (\<lambda>d. id_EventID d = i) ds)) e"
  using assms
proof (induction ds)
  case Nil
  show ?case by (simp add: recoverable_def map_filter_simps)
next
  case (Cons d ds)
  have step: "recoverable en now sc (d # ds) =
      (if due now d then (case fst (GetEvent (en_uuid en) (id_SourceID d) (id_EventID d) sc) of None \<Rightarrow> [] | Some x \<Rightarrow> [x]) else [])
      @ recoverable en now sc ds"
    by (simp add: recoverable_def map_filter_simps split: option.split)
  from Cons.IH Cons.prems
  have ih: "filter (\<lambda>x. ev_ID x = i) (recoverable en now sc ds) = replicate (length (filter (\<lambda>d. id_EventID d = i) ds)) e"
    by simp
  show ?case
  proof (cases "id_EventID d = i")
    case True
    with Cons.prems have hit: "due now d" "fst (GetEvent (en_uuid en) (id_SourceID d) i sc) = Some e" by simp_all
    with ih True show ?thesis using GetEvent_id [OF hit(2)] by (simp add: step)
  next
    case False
    have "filter (\<lambda>x. ev_ID x = i) (if due now d
        then (case fst (GetEvent (en_uuid en) (id_SourceID d) (id_EventID d) sc) of None \<Rightarrow> [] | Some x \<Rightarrow> [x]) else []) = []"
    proof (cases "fst (GetEvent (en_uuid en) (id_SourceID d) (id_EventID d) sc)")
      case (Some x)
      have "ev_ID x \<noteq> i" using GetEvent_id [OF Some] False by metis
      then show ?thesis unfolding Some option.case by (simp split: if_split)
    next
      case None
      show ?thesis unfolding None option.case by (simp split: if_split)
    qed
    then show ?thesis unfolding step filter_append ih by (simp only: append_Nil filter.simps False if_False)
  qed
qed

lemma incomplete_dests:
  assumes "pg_up p" "fst (GetIncompleteDeliveries p) = Inr ds"
  shows "length (filter (\<lambda>d. id_EventID d = i) ds)
    = card (da_DestinationID ` {a \<in> set (pg_attempts p). incomplete_row p a \<and> da_EventID a = i})"
    and "\<forall>d \<in> set ds. \<exists>a \<in> set (pg_attempts p). d = incomplete_of a"
proof -
  obtain as where as: "ds = map incomplete_of as" "distinct (map (\<lambda>a. (da_EventID a, da_DestinationID a)) as)"
    "set as \<subseteq> {a \<in> set (pg_attempts p). incomplete_row p a}"
    "\<forall>b \<in> set (pg_attempts p). incomplete_row p b \<longrightarrow>
         (\<exists>a \<in> set as. da_EventID a = da_EventID b \<and> da_DestinationID a = da_DestinationID b)"
    using incomplete_deliveries [OF assms(1)] assms(2) by (smt (verit) sum.inject(2))
  let ?own = "filter (\<lambda>a. da_EventID a = i) as"
  have "distinct (map da_DestinationID ?own)"
    using as(2) by (induction as) (auto simp: image_iff)
  then have "length ?own = card (da_DestinationID ` set ?own)" by (metis distinct_card length_map set_map)
  moreover have "da_DestinationID ` set ?own
      = da_DestinationID ` {a \<in> set (pg_attempts p). incomplete_row p a \<and> da_EventID a = i}"
  proof (intro equalityI image_subsetI)
    fix a assume "a \<in> {a \<in> set (pg_attempts p). incomplete_row p a \<and> da_EventID a = i}"
    with as(4) obtain b where "b \<in> set ?own" "da_DestinationID b = da_DestinationID a" by auto
    then show "da_DestinationID a \<in> da_DestinationID ` set ?own" by (metis imageI)
  qed (use as(3) in auto)
  moreover have "length (filter (\<lambda>d. id_EventID d = i) ds) = length ?own"
    by (simp add: as(1) filter_map o_def incomplete_of_def)
  ultimately show "length (filter (\<lambda>d. id_EventID d = i) ds)
    = card (da_DestinationID ` {a \<in> set (pg_attempts p). incomplete_row p a \<and> da_EventID a = i})" by simp
  show "\<forall>d \<in> set ds. \<exists>a \<in> set (pg_attempts p). d = incomplete_of a" using as(1,3) by auto
qed

text \<open>The rows of an event that recovery takes up, when all its rows come from one run of its goroutines.\<close>

lemma incomplete_after_cut:
  assumes attempts: "set (pg_attempts p') = set (pg_attempts p) \<union> set (attempts_of acts)"
      "\<forall>a \<in> set (attempts_of acts). da_EventID a = i"
    and dead: "set (pg_dlq p') = set (pg_dlq p) \<union> set (dead_of acts)" "\<forall>e \<in> set (dead_of acts). dl_EventID e = i"
    and fresh: "\<forall>a \<in> set (pg_attempts p). da_EventID a \<noteq> i" "\<forall>e \<in> set (pg_dlq p). dl_EventID e \<noteq> i"
  shows "{a \<in> set (pg_attempts p'). incomplete_row p' a \<and> da_EventID a = i}
    = (if (\<exists>a \<in> set (attempts_of acts). da_Success a) \<or> dead_of acts \<noteq> [] then {}
       else {a \<in> set (attempts_of acts). da_AttemptNumber a < 4})"
proof -
  have "i \<in> set (map da_EventID (filter da_Success (pg_attempts p'))) \<longleftrightarrow> (\<exists>a \<in> set (attempts_of acts). da_Success a)"
    using attempts fresh(1) by (auto simp: image_iff)
  moreover have "i \<in> set (map dl_EventID (pg_dlq p')) \<longleftrightarrow> dead_of acts \<noteq> []"
    using dead fresh(2) by (cases "dead_of acts") (auto simp: image_iff)
  ultimately have "incomplete_row p' a \<longleftrightarrow> \<not> da_Success a \<and> da_AttemptNumber a < 4
      \<and> \<not> ((\<exists>a \<in> set (attempts_of acts). da_Success a) \<or> dead_of acts \<noteq> [])" if "da_EventID a = i" for a
    using that unfolding incomplete_row_def by simp
  then have row: "incomplete_row p' a \<and> da_EventID a = i \<longleftrightarrow> da_EventID a = i \<and> \<not> da_Success a
      \<and> da_AttemptNumber a < 4 \<and> \<not> ((\<exists>a \<in> set (attempts_of acts). da_Success a) \<or> dead_of acts \<noteq> [])" for a by blast
  have own: "a \<in> set (pg_attempts p') \<and> da_EventID a = i \<longleftrightarrow> a \<in> set (attempts_of acts)" for a
    using attempts fresh(1) by blast
  show ?thesis unfolding row using own by (smt (verit, best) Collect_cong empty_def)
qed

lemma recovery_delay_bound: "recovery_delay n \<le> seconds 120"
proof -
  have "\<forall>x \<in> set retryDelays. x \<le> seconds 120" by (simp add: retryDelays_def seconds_def)
  moreover have "retryDelays \<noteq> []" by (simp add: retryDelays_def)
  ultimately show ?thesis unfolding recovery_delay_def by (metis length_greater_0_conv nth_mem)
qed

text \<open>
  C11: what a crash costs, and what recovery makes of it. A new event is being delivered and the process
  dies after any prefix of the actions of its goroutines. The service restarts when every backoff has
  elapsed, and the stores answer. Recovery then puts the event, with its identity, source, body and headers, into the
  delivery queue once for every destination with a recorded attempt below the fourth, provided that no
  attempt has succeeded and no dead letter was written; otherwise it puts it there not at all. In
  particular an event that was cut off before its first recorded attempt is nowhere any more, one that had
  reached some destinations is not delivered to the others, and one with several unfinished
  destinations is delivered several times.
\<close>

theorem crash_and_recovery:
  assumes cut: "delivery_until en nets now ev s acts s'" "all_up s" "sc_faults (sv_sc s) = []"
    and fresh: "\<forall>a \<in> set (pg_attempts (sv_pg s)). da_EventID a \<noteq> ev_ID ev"
      "\<forall>e \<in> set (pg_dlq (sv_pg s)). dl_EventID e \<noteq> ev_ID ev"
      "en_uuid en (ev_ID ev) = Some u" "\<forall>r \<in> set (sc_rows (sv_sc s)). ar_EventID r \<noteq> u"
    and later: "\<forall>a \<in> set (attempts_of acts). da_AttemptedAt a + seconds 120 \<le> restart"
  shows "\<exists>back e. rd_lists (sv_rd (RecoverIncomplete en restart s')) QueueDelivery
      = rd_lists (sv_rd s) QueueDelivery @ map marshal_event back
    \<and> ev_ID e = ev_ID ev \<and> ev_SourceID e = ev_SourceID ev \<and> ev_RawBody e = ev_RawBody ev \<and> ev_Headers e = ev_Headers ev
    \<and> filter (\<lambda>x. ev_ID x = ev_ID ev) back = replicate
        (if (\<exists>a \<in> set (attempts_of acts). da_Success a) \<or> dead_of acts \<noteq> [] then 0
         else card (da_DestinationID ` {a \<in> set (attempts_of acts). da_AttemptNumber a < 4})) e"
proof -
  note left = delivery_until_stores [OF cut(1,2)]
  let ?p = "sv_pg s'" and ?sc = "sv_sc s'"
  let ?e = "archived_event (ev_ID ev) \<lparr>ar_SourceID = ev_SourceID ev, ar_ReceivedAt = millis (ev_ReceivedAt ev), ar_EventID = u,
       ar_RawBody = ev_RawBody ev, ar_Headers = ev_Headers ev\<rparr>"
  have up: "pg_up ?p" "queue_up (sv_rd s')" using left by (simp_all add: all_up_def)
  note arch = archive_hit [OF cut(3) fresh(3,4)]
  have sc: "sc_faults ?sc = []" "fst (GetEvent (en_uuid en) (ev_SourceID ev) (ev_ID ev) ?sc) = Some ?e"
    using left arch by simp_all
  obtain ds where ds: "fst (GetIncompleteDeliveries ?p) = Inr ds" using incomplete_deliveries [OF up(1)] by blast
  then have get: "GetIncompleteDeliveries ?p = (Inr ds, pg_tick ?p)"
    by (simp add: GetIncompleteDeliveries_def pg_query_def split: if_splits)
  have rows: "a \<in> set (attempts_of acts)" if "a \<in> set (pg_attempts ?p)" "da_EventID a = ev_ID ev" for a
    using that left fresh(1) by auto
  have "due restart d \<and> id_SourceID d = ev_SourceID ev" if "d \<in> set ds" "id_EventID d = ev_ID ev" for d
  proof -
    from incomplete_dests(2) [OF up(1) ds] that(1) obtain a where a: "a \<in> set (pg_attempts ?p)" "d = incomplete_of a" by blast
    then have "a \<in> set (attempts_of acts)" using rows that(2) by (simp add: incomplete_of_def)
    then have "da_SourceID a = ev_SourceID ev" "da_AttemptedAt a + seconds 120 \<le> restart" using left later by auto
    with recovery_delay_bound [of "da_AttemptNumber a"] show ?thesis by (simp add: a(2) due_def incomplete_of_def)
  qed
  with sc(2) have "filter (\<lambda>x. ev_ID x = ev_ID ev) (recoverable en restart ?sc ds)
      = replicate (length (filter (\<lambda>d. id_EventID d = ev_ID ev) ds)) ?e"
    by (intro recoverable_copies) auto
  moreover have "{a \<in> set (pg_attempts ?p). incomplete_row ?p a \<and> da_EventID a = ev_ID ev}
      = (if (\<exists>a \<in> set (attempts_of acts). da_Success a) \<or> dead_of acts \<noteq> [] then {}
         else {a \<in> set (attempts_of acts). da_AttemptNumber a < 4})"
    using left by (intro incomplete_after_cut [OF _ _ _ _ fresh(1,2)]) auto
  ultimately have copies: "filter (\<lambda>x. ev_ID x = ev_ID ev) (recoverable en restart ?sc ds) = replicate
        (if (\<exists>a \<in> set (attempts_of acts). da_Success a) \<or> dead_of acts \<noteq> [] then 0
         else card (da_DestinationID ` {a \<in> set (attempts_of acts). da_AttemptNumber a < 4})) ?e"
    unfolding incomplete_dests(1) [OF up(1) ds] by simp
  have "rd_lists (sv_rd (RecoverIncomplete en restart s')) QueueDelivery
      = rd_lists (sv_rd s) QueueDelivery @ map marshal_event (recoverable en restart ?sc ds)"
    using recover_all_effect [of "s'\<lparr>sv_pg := pg_tick ?p\<rparr>" en restart ds] up(2) sc(1) left
    by (simp add: RecoverIncomplete_def get)
  with copies show ?thesis
    by (intro exI [of _ "recoverable en restart ?sc ds"] exI [of _ ?e]) (simp add: archived_event_def)
qed

text \<open>A process that dies after the first attempt, which was answered 503.\<close>

lemma interleaved_single: "interleaved [t] t"
proof (induction t)
  case Nil
  show ?case by (rule finished) simp
next
  case (Cons a t)
  then show ?case using turn [of 0 "[a # t]" a t t] by simp
qed

theorem crash_and_recovery_witness:
  "\<exists>acts s' back. delivery_until demo_engine (\<lambda>_. steady (Responded 503 1)) 0 (plain ''e'' ''s'' ''hi'') demo_services acts s'
    \<and> rd_lists (sv_rd (RecoverIncomplete demo_engine (seconds 1000) s')) QueueDelivery = map marshal_event back
    \<and> length (filter (\<lambda>x. ev_ID x = ''e'') back) = 1"
proof -
  let ?en = demo_engine and ?nt = "steady (Responded 503 1)" and ?ev = "plain ''e'' ''s'' ''hi''"
  let ?d = "dest_row ''d1'' ''s''"
  obtain drifts s1 where i: "inspect_event ?en 0 ?ev demo_services = (drifts, s1)" by fastforce
  obtain ds s2 where e: "event_destinations ?en ?ev s1 = (ds, s2)" by fastforce
  have up: "all_up demo_services" by (simp add: all_up_def demo_services_def ruled_pg_def pg_up_def)
  note f1 = inspect_frame [OF i]
  have "ds = chosen_dests (en_parse ?en) (en_parse_conds ?en) (en_ff ?en) (en_pf ?en) (sv_pg demo_services) (ev_SourceID ?ev) (ev_RawBody ?ev)"
    using settled_destinations [OF e] f1 up chosen_dests_view [of "sv_pg s1" "sv_pg demo_services"] by auto
  then have ds: "ds = [?d]"
    by (simp add: chosen_dests_def demo_engine_def unmarshal_map_def default_dests_def active_dests_def
        source_rules_def demo_services_def ruled_pg_def dest_row_def plain_def)
  let ?acts = "fst (attemptDelivery id (nt_answer ?nt 1) ?ev ?d) @ [RecordAttempt (record_for ?nt ?ev ?d 1)]"
  have r: "\<not> accepted (nt_answer ?nt 1)" "\<not> refused (nt_answer ?nt 1)"
    by (simp_all add: steady_def accepted_def refused_def)
  obtain ns where ns: "[1..3 :: int] = 1 # ns" using upto_rec1 [of 1 "3 :: int"] by simp
  have en: "en_maxRetries ?en = 3" "en_canonical ?en = id" by (simp_all add: demo_engine_def)
  have "fan_out ?en (\<lambda>_. ?nt) ?ev ds = [?acts @ fst (deliver_loop id ?nt 3 ?ev ?d ns)]"
    unfolding fan_out_def ds deliverToDestination_def en ns by (simp add: deliver_loop_round r Let_def case_prod_unfold del: deliver_loop.simps)
  with interleaved_single have "interleaved (fan_out ?en (\<lambda>_. ?nt) ?ev ds) (?acts @ fst (deliver_loop id ?nt 3 ?ev ?d ns))"
    by metis
  from delivery_until.intros [OF i e this] obtain s' where cut: "delivery_until ?en (\<lambda>_. ?nt) 0 ?ev demo_services ?acts s'" by blast
  have acts: "attempts_of ?acts = [record_for ?nt ?ev ?d 1]" "dead_of ?acts = []" by simp_all
  have own: "da_DestinationID (record_for ?nt ?ev ?d 1) = ''d1''" "\<not> da_Success (record_for ?nt ?ev ?d 1)"
    "da_AttemptedAt (record_for ?nt ?ev ?d 1) + seconds 120 \<le> seconds 1000" "ev_ID ?ev = ''e''"
    by (simp_all add: record_for_def steady_def attemptDelivery_def attempt_record_def dest_row_def seconds_def plain_def)
  have fresh: "sc_faults (sv_sc demo_services) = []" "\<forall>a \<in> set (pg_attempts (sv_pg demo_services)). da_EventID a \<noteq> ev_ID ?ev"
    "\<forall>e \<in> set (pg_dlq (sv_pg demo_services)). dl_EventID e \<noteq> ev_ID ?ev" "en_uuid ?en (ev_ID ?ev) = Some ''e''"
    "\<forall>r \<in> set (sc_rows (sv_sc demo_services)). ar_EventID r \<noteq> ''e''"
    "rd_lists (sv_rd demo_services) QueueDelivery = []"
    by (simp_all add: demo_services_def ruled_pg_def demo_engine_def own(4)) (simp_all add: redis_of_def fresh_pg_def)
  have "\<forall>a \<in> set (attempts_of ?acts). da_AttemptedAt a + seconds 120 \<le> seconds 1000" using own(3) unfolding acts by simp
  moreover have "{a \<in> set [record_for ?nt ?ev ?d 1]. da_AttemptNumber a < 4} = {record_for ?nt ?ev ?d 1}" by auto
  ultimately have "\<exists>back e. rd_lists (sv_rd (RecoverIncomplete ?en (seconds 1000) s')) QueueDelivery = map marshal_event back
    \<and> filter (\<lambda>x. ev_ID x = ''e'') back = replicate 1 e"
    using crash_and_recovery [OF cut up fresh(1-5), of "seconds 1000", unfolded acts fresh(6)] own(2,4) by auto
  then obtain again where
    "rd_lists (sv_rd (RecoverIncomplete ?en (seconds 1000) s')) QueueDelivery = map marshal_event again"
    "length (filter (\<lambda>x. ev_ID x = ''e'') again) = 1"
    by (metis length_replicate)
  with cut show ?thesis by blast
qed

end
