(* ===== verification/Races.thy ===== *)
theory Races
  imports Store
begin

text \<open>
  Schema inference under concurrency. \<open>UpdateSchema\<close> reads the schema of the source, changes it in
  memory and writes it back, without a transaction, and the workers of the delivery engine run it at the
  same time. The two halves are separate here, so that other workers can act between them.
\<close>

section \<open>The two halves of an update\<close>

definition begin_update ::
    "(string \<Rightarrow> 's \<Rightarrow> ('e + PayloadSchema) \<times> 's) \<Rightarrow> string \<Rightarrow> 's \<Rightarrow> PayloadSchema \<times> 's" where
  "begin_update get sourceID s =
    (case get sourceID s of
       (Inl _, s1) \<Rightarrow> (new_schema sourceID, s1)
     | (Inr ps, s1) \<Rightarrow> (ps, s1))"

definition end_update ::
    "(PayloadSchema \<Rightarrow> 's \<Rightarrow> 'r \<times> 's) \<Rightarrow> PayloadSchema \<Rightarrow> json gomap \<Rightarrow> int \<Rightarrow> int \<Rightarrow> 's \<Rightarrow> 's" where
  "end_update upsert existing payload minSamples now s =
    (if ps_IsLocked existing then s
     else snd (upsert (observe existing (FlattenJSON payload) minSamples now) s))"

lemma UpdateSchema_halves:
  "UpdateSchema get upsert src payload m now s =
    (case begin_update get src s of (existing, s1) \<Rightarrow> end_update upsert existing payload m now s1)"
  by (simp add: UpdateSchema_def begin_update_def end_update_def Let_def split: prod.split sum.split)

section \<open>Workers that overlap\<close>

text \<open>All of them have read before the first writes; then they write one after the other.\<close>

fun begin_all :: "string \<Rightarrow> nat \<Rightarrow> pg \<Rightarrow> PayloadSchema list \<times> pg" where
  "begin_all src 0 s = ([], s)"
| "begin_all src (Suc n) s =
    (case begin_update GetPayloadSchema src s of (ps, s1) \<Rightarrow>
      case begin_all src n s1 of (rest, s2) \<Rightarrow> (ps # rest, s2))"

fun end_all :: "(PayloadSchema \<times> json gomap) list \<Rightarrow> int \<Rightarrow> int \<Rightarrow> pg \<Rightarrow> pg" where
  "end_all [] m now s = s"
| "end_all ((ps, payload) # later) m now s =
    end_all later m now (end_update UpsertPayloadSchema ps payload m now s)"

definition schema_or_new :: "pg \<Rightarrow> string \<Rightarrow> PayloadSchema" where
  "schema_or_new s src = (case saved_schema s src of None \<Rightarrow> new_schema src | Some ps \<Rightarrow> ps)"

lemma begin_all_reads:
  assumes "store_ready s src"
  shows "begin_all src n s = (ps, s') \<Longrightarrow> ps = replicate n (schema_or_new s src) \<and> store_ready s' src
    \<and> saved_schema s' = saved_schema s"
  using assms
proof (induction n arbitrary: s ps)
  case (Suc n)
  have read: "begin_update GetPayloadSchema src s = (schema_or_new s src, pg_tick s)"
    using Suc.prems(2) by (simp add: begin_update_def schema_or_new_def GetPayloadSchema_up store_ready_def split: option.split)
  obtain rest where rest: "begin_all src n (pg_tick s) = (rest, s')" and ps: "ps = schema_or_new s src # rest"
    using Suc.prems(1) read by (auto split: prod.splits)
  have "store_ready (pg_tick s) src" using Suc.prems(2) by (simp add: store_ready_def)
  from Suc.IH [OF rest this] ps show ?case by (simp add: schema_or_new_def)
qed simp

lemma end_update_saved:
  assumes "store_ready s (ps_SourceID ps)" "\<not> ps_IsLocked ps"
  shows "\<exists>t. saved_schema (end_update UpsertPayloadSchema ps payload m now s)
      = (saved_schema s)(ps_SourceID ps \<mapsto> kept_schema stored_example t (observe ps (FlattenJSON payload) m now))
    \<and> store_ready (end_update UpsertPayloadSchema ps payload m now s) (ps_SourceID ps)"
proof -
  let ?ps = "observe ps (FlattenJSON payload) m now"
  have "store_ready s (ps_SourceID ?ps)" using assms(1) by simp
  from UpsertPayloadSchema_saved [OF this] assms show ?thesis
    by (simp add: end_update_def) (auto simp: UpsertPayloadSchema_def store_ready_def Let_def)
qed

lemma end_all_last:
  assumes "store_ready s (ps_SourceID ps)" "\<not> ps_IsLocked ps" "payloads \<noteq> []"
  shows "\<exists>t. saved_schema (end_all (map (Pair ps) payloads) m now s) (ps_SourceID ps)
    = Some (kept_schema stored_example t (observe ps (FlattenJSON (last payloads)) m now))"
  using assms
proof (induction payloads arbitrary: s)
  case (Cons p payloads)
  obtain t where t: "saved_schema (end_update UpsertPayloadSchema ps p m now s)
      = (saved_schema s)(ps_SourceID ps \<mapsto> kept_schema stored_example t (observe ps (FlattenJSON p) m now))"
    "store_ready (end_update UpsertPayloadSchema ps p m now s) (ps_SourceID ps)"
    using end_update_saved [OF Cons.prems(1,2)] by blast
  show ?case
  proof (cases "payloads = []")
    case True
    with t(1) show ?thesis by auto
  next
    case False
    with Cons.IH [OF t(2) Cons.prems(2)] show ?thesis by simp
  qed
qed simp

text \<open>
  C40: overlapping updates count as one. When any number of workers have each read the schema of a source,
  open or not yet there, before the first of them writes it back, the schema that is left is that of the
  last writer alone: the number of samples has grown by one, and what the other payloads showed is gone.
\<close>

theorem overlapping_samples_lost:
  assumes "store_ready s src" "begin_all src (length payloads) s = (read, s1)" "payloads \<noteq> []"
    and "\<not> ps_IsLocked (schema_or_new s src)"
  shows "\<exists>ps. saved_schema (end_all (zip read payloads) m now s1) src = Some ps
    \<and> ps_SampleCount ps = ps_SampleCount (schema_or_new s src) + 1
    \<and> (\<exists>t. ps = kept_schema stored_example t (observe (schema_or_new s src) (FlattenJSON (last payloads)) m now))"
proof -
  let ?ps = "schema_or_new s src"
  from begin_all_reads [OF assms(1,2)] have r: "read = replicate (length payloads) ?ps" "store_ready s1 src" by simp_all
  have src: "ps_SourceID ?ps = src"
    by (auto simp: schema_or_new_def new_schema_def saved_schema_def dest: find_SomeD split: option.split)
  have "zip read payloads = map (Pair ?ps) payloads"
    unfolding r(1) by (induction payloads) auto
  with end_all_last [of s1 ?ps payloads m now] r(2) assms(3,4) src show ?thesis by auto
qed

theorem overlapping_samples_lost_witness:
  "\<exists>read s1 ps. begin_all ''s'' 2 (fresh_pg ''s'') = (read, s1)
    \<and> saved_schema (end_all (zip read [[(''a'', JNull)], [(''b'', JNull)]]) 20 0 s1) ''s'' = Some ps \<and> ps_SampleCount ps = 1"
proof -
  obtain read s1 where r: "begin_all ''s'' 2 (fresh_pg ''s'') = (read, s1)" by fastforce
  have ready: "store_ready (fresh_pg ''s'') ''s''" 
    by (simp add: store_ready_def)
  have new: "schema_or_new (fresh_pg ''s'') ''s'' = new_schema ''s''"
    by (simp add: schema_or_new_def saved_schema_def fresh_pg_def)
  have r2: "begin_all ''s'' (length [[(''a'', JNull)], [(''b'', JNull)]]) (fresh_pg ''s'') = (read, s1)"
    using r by (simp add: numeral_2_eq_2)
  from overlapping_samples_lost [OF ready r2, of 20 0] r show ?thesis
    unfolding new by (simp add: new_schema_def) blast
qed

end
