(* ===== verification/Shutdown.thy ===== *)
theory Shutdown
  imports Bridge Delivery Invariants
begin

text \<open>
  The goroutines of a service with workers (\<open>cmd/orchestrator\<close>, \<open>cmd/extractor-bridge\<close> and, without a
  scaler, \<open>Engine.Run\<close> of \<open>cmd/delivery\<close>): the workers, the scaler and \<open>main\<close> as one step relation, from
  the launch of the first worker to the return of \<open>main\<close> after SIGINT or SIGTERM.
\<close>

section \<open>The goroutines\<close>

text \<open>
  Where a goroutine stands. A worker that leaves runs its deferred calls in reverse order: it first lowers
  \<open>workerCount\<close>, then the counter of the WaitGroup.
\<close>

datatype worker = Selecting | Popping | Working WebhookEvent | Leaving | Gone

datatype scaler = Unstarted | Waiting | Measured nat | Adding nat | Stopped

datatype main_phase = Launching nat | Serving | Joining | Returned

text \<open>The phases of \<open>main\<close> in the order in which it goes through them.\<close>

instantiation main_phase :: linorder
begin

fun less_eq_main_phase :: "main_phase \<Rightarrow> main_phase \<Rightarrow> bool" where
  "Launching i \<le> Launching j \<longleftrightarrow> i \<le> j"
| "Launching _ \<le> _ \<longleftrightarrow> True"
| "Serving \<le> p \<longleftrightarrow> p \<in> {Serving, Joining, Returned}"
| "Joining \<le> p \<longleftrightarrow> p \<in> {Joining, Returned}"
| "Returned \<le> p \<longleftrightarrow> p = Returned"

definition less_main_phase :: "main_phase \<Rightarrow> main_phase \<Rightarrow> bool" where
  "less_main_phase p p' \<longleftrightarrow> p \<le> p' \<and> \<not> p' \<le> p"

instance
proof
  fix p p' p'' :: main_phase
  show "p < p' \<longleftrightarrow> p \<le> p' \<and> \<not> p' \<le> p" by (rule less_main_phase_def)
  show "p \<le> p" by (cases p) simp_all
  show "p \<le> p' \<Longrightarrow> p' \<le> p'' \<Longrightarrow> p \<le> p''" by (cases p; cases p'; cases p'') simp_all
  show "p \<le> p' \<Longrightarrow> p' \<le> p \<Longrightarrow> p = p'" by (cases p; cases p') simp_all
  show "p \<le> p' \<or> p' \<le> p" by (cases p; cases p') auto
qed

end

datatype move = Main | Worker nat | Scaler | Tick | Signal | Outside

text \<open>What a worker takes and does, what the scaler reads, and the numbers of the configuration.\<close>

record 's duty =
  dt_take :: "'s \<Rightarrow> (queue_error + WebhookEvent option) \<times> 's"
  dt_work :: "WebhookEvent \<Rightarrow> 's \<Rightarrow> 's \<Rightarrow> bool"
  dt_depth :: "'s \<Rightarrow> nat option \<times> 's"
  dt_workers :: nat
  dt_scaled :: bool
  dt_threshold :: int
  dt_max :: "32 word"

record 's process =
  px_store :: 's
  px_cancelled :: bool
  px_wg :: int
  px_count :: "32 word"
  px_workers :: "worker list"
  px_scaler :: scaler
  px_main :: main_phase

definition service_start :: "'s \<Rightarrow> 's process" where
  "service_start st = \<lparr>px_store = st, px_cancelled = False, px_wg = 0, px_count = 0, px_workers = [],
    px_scaler = Unstarted, px_main = Launching 0\<rparr>"

definition startWorker :: "'s process \<Rightarrow> 's process" where
  "startWorker s = s\<lparr>px_wg := px_wg s + 1, px_count := px_count s + 1, px_workers := px_workers s @ [Selecting]\<rparr>"

definition at_worker :: "nat \<Rightarrow> worker \<Rightarrow> 's process \<Rightarrow> bool" where
  "at_worker i w s \<longleftrightarrow> i < length (px_workers s) \<and> px_workers s ! i = w"

definition move_worker :: "nat \<Rightarrow> worker \<Rightarrow> 's process \<Rightarrow> 's process" where
  "move_worker i w s = s\<lparr>px_workers := (px_workers s)[i := w]\<rparr>"

text \<open>
  A \<open>select\<close> with a default takes the cancelled context when there is one; between two ready channels, as in
  the scaler, it takes either. The tick is the timer's. \<open>Outside\<close> is everything that is not of this process:
  the other services push and pop events, and the stores fail and recover, between any two of its steps.
\<close>

inductive service_step :: "'s duty \<Rightarrow> move \<Rightarrow> 's process \<Rightarrow> 's process \<Rightarrow> bool" for d where
  launch: "px_main s = Launching i \<Longrightarrow> i < dt_workers d
    \<Longrightarrow> service_step d Main s (startWorker s\<lparr>px_main := Launching (Suc i)\<rparr>)"
| launch_scaler: "px_main s = Launching i \<Longrightarrow> \<not> i < dt_workers d \<Longrightarrow> dt_scaled d
    \<Longrightarrow> service_step d Main s (s\<lparr>px_wg := px_wg s + 1, px_scaler := Waiting, px_main := Serving\<rparr>)"
| no_scaler: "px_main s = Launching i \<Longrightarrow> \<not> i < dt_workers d \<Longrightarrow> \<not> dt_scaled d
    \<Longrightarrow> service_step d Main s (s\<lparr>px_scaler := Stopped, px_main := Serving\<rparr>)"
| context_done: "px_main s = Serving \<Longrightarrow> px_cancelled s \<Longrightarrow> service_step d Main s (s\<lparr>px_main := Joining\<rparr>)"
| joined: "px_main s = Joining \<Longrightarrow> px_wg s = 0 \<Longrightarrow> service_step d Main s (s\<lparr>px_main := Returned\<rparr>)"
| signal: "\<not> px_cancelled s \<Longrightarrow> service_step d Signal s (s\<lparr>px_cancelled := True\<rparr>)"
| go_on: "at_worker i Selecting s \<Longrightarrow> \<not> px_cancelled s \<Longrightarrow> service_step d (Worker i) s (move_worker i Popping s)"
| stop: "at_worker i Selecting s \<Longrightarrow> px_cancelled s
    \<Longrightarrow> service_step d (Worker i) s (move_worker i Leaving s\<lparr>px_count := px_count s - 1\<rparr>)"
| leave: "at_worker i Leaving s \<Longrightarrow> service_step d (Worker i) s (move_worker i Gone s\<lparr>px_wg := px_wg s - 1\<rparr>)"
| take_event: "at_worker i Popping s \<Longrightarrow> dt_take d (px_store s) = (Inr (Some event), st)
    \<Longrightarrow> service_step d (Worker i) s (move_worker i (Working event) s\<lparr>px_store := st\<rparr>)"
| take_nothing: "at_worker i Popping s \<Longrightarrow> dt_take d (px_store s) = (r, st) \<Longrightarrow> r = Inr None \<or> (\<exists>err. r = Inl err)
    \<Longrightarrow> service_step d (Worker i) s (move_worker i Selecting s\<lparr>px_store := st\<rparr>)"
| worked: "at_worker i (Working event) s \<Longrightarrow> dt_work d event (px_store s) st
    \<Longrightarrow> service_step d (Worker i) s (move_worker i Selecting s\<lparr>px_store := st\<rparr>)"
| tick: "px_scaler s = Waiting \<Longrightarrow> dt_depth d (px_store s) = (Some n, st)
    \<Longrightarrow> service_step d Tick s (s\<lparr>px_scaler := Measured n, px_store := st\<rparr>)"
| tick_error: "px_scaler s = Waiting \<Longrightarrow> dt_depth d (px_store s) = (None, st)
    \<Longrightarrow> service_step d Tick s (s\<lparr>px_store := st\<rparr>)"
| decide: "px_scaler s = Measured n
    \<Longrightarrow> service_step d Scaler s (s\<lparr>px_scaler :=
          Adding (nat (sint (scale_up (int n) (dt_threshold d) (px_count s) (dt_max d))))\<rparr>)"
| add_worker: "px_scaler s = Adding (Suc k) \<Longrightarrow> service_step d Scaler s (startWorker s\<lparr>px_scaler := Adding k\<rparr>)"
| added: "px_scaler s = Adding 0 \<Longrightarrow> service_step d Scaler s (s\<lparr>px_scaler := Waiting\<rparr>)"
| stop_scaler: "px_scaler s = Waiting \<Longrightarrow> px_cancelled s
    \<Longrightarrow> service_step d Scaler s (s\<lparr>px_wg := px_wg s - 1, px_scaler := Stopped\<rparr>)"
| outside: "service_step d Outside s (s\<lparr>px_store := st\<rparr>)"

inductive service_run :: "'s duty \<Rightarrow> move list \<Rightarrow> 's process \<Rightarrow> 's process \<Rightarrow> bool" for d where
  no_moves: "service_run d [] s s"
| moves: "service_step d mv s s1 \<Longrightarrow> service_run d mvs s1 s2 \<Longrightarrow> service_run d (mv # mvs) s s2"

text \<open>The three services.\<close>

definition orchestrator_duty :: "(bytes \<Rightarrow> json option) \<Rightarrow> OrchestratorConfig \<Rightarrow> redis duty" where
  "orchestrator_duty parse cfg =
    \<lparr>dt_take = Dequeue False QueueIncoming,
     dt_work = (\<lambda>event st st'. case route_event parse event of (target, event') \<Rightarrow> st' = snd (Enqueue target event' st)),
     dt_depth = QueueLen QueueIncoming, dt_workers = nat (sint (word_of_int (oc_Workers cfg) :: 32 word)),
     dt_scaled = True, dt_threshold = oc_QueueScaleThreshold cfg, dt_max = word_of_int (oc_MaxWorkers cfg)\<rparr>"

definition bridge_duty :: "bridge_env \<Rightarrow> 's backend \<Rightarrow> ExtractorBridgeConfig \<Rightarrow> 's bridge duty" where
  "bridge_duty env ext cfg =
    \<lparr>dt_take = (\<lambda>s. case Dequeue False QueueExtraction (br_rd s) of (r, q) \<Rightarrow> (r, s\<lparr>br_rd := q\<rparr>)),
     dt_work = (\<lambda>event s s'. processEvent env ext event s = Some s'),
     dt_depth = (\<lambda>s. case QueueLen QueueExtraction (br_rd s) of (n, q) \<Rightarrow> (n, s\<lparr>br_rd := q\<rparr>)),
     dt_workers = nat (sint (word_of_int (bc_Workers cfg) :: 32 word)), dt_scaled = True,
     dt_threshold = bc_QueueScaleThreshold cfg, dt_max = word_of_int (bc_MaxWorkers cfg)\<rparr>"

definition delivery_duty :: "engine \<Rightarrow> (string \<Rightarrow> net) \<Rightarrow> int \<Rightarrow> nat \<Rightarrow> services duty" where
  "delivery_duty en nets now n =
    \<lparr>dt_take = (\<lambda>s. case Dequeue False QueueDelivery (sv_rd s) of (r, q) \<Rightarrow> (r, s\<lparr>sv_rd := q\<rparr>)),
     dt_work = deliverEvent en nets now, dt_depth = (\<lambda>s. (None, s)), dt_workers = n, dt_scaled = False,
     dt_threshold = 0, dt_max = 0\<rparr>"

section \<open>What the goroutines keep\<close>

fun alive :: "worker \<Rightarrow> nat" where
  "alive Gone = 0"
| "alive _ = 1"

fun counted :: "worker \<Rightarrow> nat" where
  "counted Gone = 0"
| "counted Leaving = 0"
| "counted _ = 1"

fun scaler_alive :: "scaler \<Rightarrow> nat" where
  "scaler_alive Unstarted = 0"
| "scaler_alive Stopped = 0"
| "scaler_alive _ = 1"

fun to_add :: "scaler \<Rightarrow> nat" where
  "to_add (Adding k) = k"
| "to_add _ = 0"

definition sum_of :: "(worker \<Rightarrow> nat) \<Rightarrow> 's process \<Rightarrow> nat" where
  "sum_of f s = sum_list (map f (px_workers s))"

lemma process_unchanged [simp]:
  "sum_of f (s\<lparr>px_store := st\<rparr>) = sum_of f s" "sum_of f (s\<lparr>px_main := m\<rparr>) = sum_of f s"
  "sum_of f (s\<lparr>px_count := c\<rparr>) = sum_of f s" "sum_of f (s\<lparr>px_wg := g\<rparr>) = sum_of f s"
  "sum_of f (s\<lparr>px_scaler := z\<rparr>) = sum_of f s" "sum_of f (s\<lparr>px_cancelled := b\<rparr>) = sum_of f s"
  by (simp_all add: sum_of_def)

lemma sum_of_start [simp]: "sum_of f (startWorker s) = sum_of f s + f Selecting"
  by (simp add: sum_of_def startWorker_def)

lemma sum_of_move:
  assumes "at_worker i w s"
  shows "sum_of f (move_worker i w' s) + f w = sum_of f s + f w'"
proof -
  have i: "i < length (px_workers s)" "px_workers s ! i = w" using assms by (simp_all add: at_worker_def)
  from id_take_nth_drop [OF i(1)] i(2)
  have "px_workers s = take i (px_workers s) @ w # drop (Suc i) (px_workers s)" by simp
  then have "sum_of f s = sum_list (map f (take i (px_workers s))) + f w + sum_list (map f (drop (Suc i) (px_workers s)))"
    unfolding sum_of_def by (metis (no_types, lifting) add.assoc list.simps(9) map_append sum_list.Cons sum_list.append)
  moreover have "sum_of f (move_worker i w' s)
      = sum_list (map f (take i (px_workers s))) + f w' + sum_list (map f (drop (Suc i) (px_workers s)))"
    by (simp add: sum_of_def move_worker_def upd_conv_take_nth_drop [OF i(1)])
  ultimately show ?thesis by simp
qed

lemma startWorker_fields [simp]:
  "px_store (startWorker s) = px_store s" "px_cancelled (startWorker s) = px_cancelled s"
  "px_wg (startWorker s) = px_wg s + 1" "px_count (startWorker s) = px_count s + 1"
  "length (px_workers (startWorker s)) = Suc (length (px_workers s))"
  "px_scaler (startWorker s) = px_scaler s" "px_main (startWorker s) = px_main s"
  by (simp_all add: startWorker_def)

lemma move_worker_fields [simp]:
  "px_store (move_worker i w s) = px_store s" "px_cancelled (move_worker i w s) = px_cancelled s"
  "px_wg (move_worker i w s) = px_wg s" "px_count (move_worker i w s) = px_count s"
  "length (px_workers (move_worker i w s)) = length (px_workers s)"
  "px_scaler (move_worker i w s) = px_scaler s" "px_main (move_worker i w s) = px_main s"
  by (simp_all add: move_worker_def)

text \<open>
  The WaitGroup counts the goroutines that have not ended, \<open>workerCount\<close> the workers that have not begun
  to leave, and \<open>main\<close> stands where it has launched what it is to launch.
\<close>

fun main_ok :: "'s duty \<Rightarrow> main_phase \<Rightarrow> 's process \<Rightarrow> bool" where
  "main_ok d (Launching i) s \<longleftrightarrow> px_scaler s = Unstarted \<and> i = length (px_workers s) \<and> i \<le> dt_workers d"
| "main_ok d Serving s \<longleftrightarrow> px_scaler s \<noteq> Unstarted"
| "main_ok d Joining s \<longleftrightarrow> px_scaler s \<noteq> Unstarted \<and> px_cancelled s"
| "main_ok d Returned s \<longleftrightarrow> px_scaler s \<noteq> Unstarted \<and> px_cancelled s \<and> px_wg s = 0"

definition service_ok :: "'s duty \<Rightarrow> 's process \<Rightarrow> bool" where
  "service_ok d s \<longleftrightarrow> px_wg s = int (sum_of alive s + scaler_alive (px_scaler s))
    \<and> px_count s = word_of_nat (sum_of counted s) \<and> main_ok d (px_main s) s"

lemma start_ok: "service_ok d (service_start st)"
  by (simp add: service_ok_def service_start_def sum_of_def)

lemma worker_alive: "at_worker i w s \<Longrightarrow> w \<noteq> Gone \<Longrightarrow> 0 < sum_of alive s"
  using sum_of_move [of i w s alive Gone] by (cases w) simp_all

lemma main_ok_returned:
  assumes "service_ok d s" "px_main s = Returned"
  shows "set (px_workers s) \<subseteq> {Gone}" "px_scaler s = Stopped"
proof -
  have z: "sum_of alive s + scaler_alive (px_scaler s) = 0" "px_scaler s \<noteq> Unstarted"
    using assms by (auto simp: service_ok_def)
  have "alive w = 0 \<Longrightarrow> w = Gone" for w by (cases w) simp_all
  with z(1) show "set (px_workers s) \<subseteq> {Gone}" by (auto simp: sum_of_def)
  from z show "px_scaler s = Stopped" by (cases "px_scaler s") simp_all
qed

text \<open>A change of a worker that keeps the counters, the store apart.\<close>

lemma move_ok:
  assumes "service_ok d s" "at_worker i w s" "alive w = alive w'" "counted w = counted w'"
  shows "service_ok d (move_worker i w' s\<lparr>px_store := st\<rparr>)"
proof -
  have "sum_of alive (move_worker i w' s) = sum_of alive s" "sum_of counted (move_worker i w' s) = sum_of counted s"
    using sum_of_move [OF assms(2), of alive w'] sum_of_move [OF assms(2), of counted w'] assms(3,4) by simp_all
  with assms(1) show ?thesis by (cases "px_main s") (simp_all add: service_ok_def)
qed

lemma not_returned:
  assumes "service_ok d s" "at_worker i w s" "w \<noteq> Gone"
  shows "px_main s \<noteq> Returned"
  using main_ok_returned(1) [OF assms(1)] assms(2,3) nth_mem by (fastforce simp: at_worker_def)

lemma step_ok:
  assumes "service_step d mv s s'" "service_ok d s"
  shows "service_ok d s'"
  using assms(1)
proof cases
  case (stop i)
  have "sum_of alive (move_worker i Leaving s) = sum_of alive s" "Suc (sum_of counted (move_worker i Leaving s)) = sum_of counted s"
    using sum_of_move [OF stop(3), of alive Leaving] sum_of_move [OF stop(3), of counted Leaving] by simp_all
  then have "word_of_nat (sum_of counted s) - (1 :: 32 word) = word_of_nat (sum_of counted (move_worker i Leaving s))"
    and "sum_of alive (move_worker i Leaving s) = sum_of alive s" by (metis add_diff_cancel_left' of_nat_Suc, simp)
  with assms(2) show ?thesis by (cases "px_main s") (simp_all add: stop service_ok_def)
next
  case (leave i)
  have "Suc (sum_of alive (move_worker i Gone s)) = sum_of alive s" "sum_of counted (move_worker i Gone s) = sum_of counted s"
    using sum_of_move [OF leave(3), of alive Gone] sum_of_move [OF leave(3), of counted Gone] by simp_all
  with assms(2) not_returned [OF assms(2) leave(3)] show ?thesis
    by (cases "px_main s") (simp_all add: leave service_ok_def)
next
  case (go_on i)
  from move_ok [OF assms(2) go_on(3), of Popping "px_store s"] show ?thesis by (simp add: go_on move_worker_def)
next
  case (take_event i event st)
  from move_ok [OF assms(2) take_event(3)] show ?thesis by (simp add: take_event)
next
  case (take_nothing i r st)
  from move_ok [OF assms(2) take_nothing(3)] show ?thesis by (simp add: take_nothing)
next
  case (worked i event st)
  from move_ok [OF assms(2) worked(3)] show ?thesis by (simp add: worked)
qed (use assms(2) main_ok_returned(2) [OF assms(2)] in
  \<open>(cases "px_main s"; simp_all add: service_ok_def; fail)+\<close>)

lemma run_ok:
  assumes "service_run d mvs s s'" "service_ok d s"
  shows "service_ok d s'"
  using assms by (induction rule: service_run.induct) (auto dest: step_ok)

lemma run_cancelled:
  assumes "service_step d mv s s'" "px_cancelled s"
  shows "px_cancelled s'"
  using assms by cases simp_all

section \<open>The number of workers\<close>

text \<open>One decision of the scaler, whatever the numbers; the differences are taken in \<open>int32\<close>.\<close>

lemma Suc_31: "Suc 31 = 32" by simp

lemma scale_up_small: "nat (sint (scale_up depth threshold n m)) \<le> 10"
proof (cases "sint n < sint m \<and> sint (n + 10) > sint m")
  case True
  have ten: "sint (10 :: 32 word) = 10" by simp
  have "sint n + 10 < 2 ^ 31"
  proof (rule ccontr)
    assume big: "\<not> ?thesis"
    let ?w = "sint n + 10 - 2 ^ 32"
    have "sint (n + 10) = signed_take_bit 31 (sint n + 10)" by (simp add: sint_word_ariths)
    also have "\<dots> = signed_take_bit 31 ?w"
      unfolding signed_take_bit_eq_iff_take_bit_eq
      by (simp only: take_bit_eq_mod Suc_31 minus_mod_self2)
    also have "\<dots> = ?w"
      using big sint_range32 [of n] by (intro signed_take_bit_int_eq_self) simp_all
    finally show False using True sint_range32 [of n] by simp
  qed
  then have "sint (n + 10) = sint n + 10" using sint_plus32 [of n 10] sint_range32 [of n] unfolding ten by simp
  with True have near: "sint m - sint n < 10" by simp
  then have "sint (m - n) = sint m - sint n" using sint_minus32 [of m n] True by simp
  with near show ?thesis by (auto simp: scale_up_def Let_def)
next
  case False
  then show ?thesis by (auto simp: scale_up_def Let_def)
qed

lemma scale_up_fits:
  assumes "0 \<le> sint n" "sint m < 2 ^ 31 - 10"
  shows "int (nat (sint (scale_up depth threshold n m))) + sint n \<le> max (sint n) (sint m)"
proof (cases "depth > threshold \<and> sint n < sint m")
  case True
  have ten: "sint (10 :: 32 word) = 10" by simp
  have "sint (n + 10) = sint n + 10"
    using sint_plus32 [of n 10] assms True unfolding ten by simp
  moreover have "sint (m - n) = sint m - sint n"
    using sint_minus32 [of m n] assms True sint_range32 [of n] by simp
  ultimately show ?thesis using True by (auto simp: scale_up_def Let_def)
next
  case False
  then show ?thesis by (auto simp: scale_up_def)
qed

definition within :: "'s duty \<Rightarrow> 's process \<Rightarrow> bool" where
  "within d s \<longleftrightarrow> int (sum_of counted s + to_add (px_scaler s)) \<le> max (int (dt_workers d)) (sint (dt_max d))"

lemma counted_length: "sum_of counted s \<le> length (px_workers s)"
proof -
  have "counted w \<le> 1" for w by (cases w) simp_all
  then have "sum_list (map counted ws) \<le> length ws" for ws
    by (induction ws) (auto simp: add_mono [where a = "counted _" and b = 1, simplified] add_le_mono le_trans)
  then show ?thesis by (simp add: sum_of_def)
qed

lemma step_within:
  assumes "service_step d mv s s'" "service_ok d s" "within d s"
    and d: "dt_workers d < 2 ^ 31" "sint (dt_max d) < 2 ^ 31 - 10"
  shows "within d s'"
  using assms(1)
proof cases
  case (launch i)
  from assms(2) counted_length [of s] launch(3,4) show ?thesis
    by (simp add: launch within_def service_ok_def le_max_iff_disj)
next
  case (decide n)
  let ?c = "sum_of counted s"
  have c: "int ?c \<le> max (int (dt_workers d)) (sint (dt_max d))" using assms(3) by (simp add: within_def)
  then have "?c < 2 ^ 31" using d by auto
  then have "sint (px_count s) = int ?c"
    using assms(2) by (simp add: service_ok_def signed_of_nat signed_take_bit_int_eq_self)
  then have "int (nat (sint (scale_up (int n) (dt_threshold d) (px_count s) (dt_max d)))) + int ?c
      \<le> max (int ?c) (sint (dt_max d))"
    using scale_up_fits [of "px_count s" "dt_max d" "int n" "dt_threshold d"] d(2) by simp
  with c have "int (nat (sint (scale_up (int n) (dt_threshold d) (px_count s) (dt_max d)))) + int ?c
      \<le> max (int (dt_workers d)) (sint (dt_max d))" by linarith
  then show ?thesis unfolding within_def decide by (simp add: add.commute)
next
  case (go_on i)
  with assms(3) sum_of_move [OF go_on(3), of counted Popping] show ?thesis by (simp add: within_def)
next
  case (stop i)
  with assms(3) sum_of_move [OF stop(3), of counted Leaving] show ?thesis by (simp add: within_def)
next
  case (leave i)
  with assms(3) sum_of_move [OF leave(3), of counted Gone] show ?thesis by (simp add: within_def)
next
  case (take_event i event st)
  with assms(3) sum_of_move [OF take_event(3), of counted "Working event"] show ?thesis by (simp add: within_def)
next
  case (take_nothing i r st)
  with assms(3) sum_of_move [OF take_nothing(3), of counted Selecting] show ?thesis by (simp add: within_def)
next
  case (worked i event st)
  with assms(3) sum_of_move [OF worked(3), of counted Selecting] show ?thesis by (simp add: within_def)
qed (use assms(2,3) in \<open>(cases "px_main s"; simp add: within_def service_ok_def; fail)+\<close>)

lemma run_within:
  assumes "service_run d mvs s s'" "service_ok d s" "within d s"
    and "dt_workers d < 2 ^ 31" "sint (dt_max d) < 2 ^ 31 - 10"
  shows "within d s'"
  using assms
proof (induction rule: service_run.induct)
  case (moves mv s s1 mvs s2)
  have "within d s1" by (rule step_within [OF moves.hyps(1) moves.prems])
  with moves.IH step_ok [OF moves.hyps(1) moves.prems(1)] moves.prems(3,4) show ?case by blast
qed simp

section \<open>Shutting down\<close>

text \<open>
  How much is left to do after the signal. A tick may still start up to ten workers, each of which leaves at
  once.
\<close>

fun worker_weight :: "worker \<Rightarrow> nat" where
  "worker_weight Popping = 4"
| "worker_weight (Working _) = 3"
| "worker_weight Selecting = 2"
| "worker_weight Leaving = 1"
| "worker_weight Gone = 0"

fun scaler_weight :: "scaler \<Rightarrow> nat" where
  "scaler_weight (Measured _) = 33"
| "scaler_weight (Adding k) = 2 + 3 * k"
| "scaler_weight Waiting = 1"
| "scaler_weight _ = 0"

fun main_weight :: "nat \<Rightarrow> main_phase \<Rightarrow> nat" where
  "main_weight n (Launching i) = 4 + 3 * (n - i)"
| "main_weight n Serving = 2"
| "main_weight n Joining = 1"
| "main_weight n Returned = 0"

definition weight :: "'s duty \<Rightarrow> 's process \<Rightarrow> nat" where
  "weight d s = sum_of worker_weight s + scaler_weight (px_scaler s) + main_weight (dt_workers d) (px_main s)"

lemma weight_move:
  assumes "at_worker i w s"
  shows "weight d (move_worker i w' s) + worker_weight w = weight d s + worker_weight w'"
  using sum_of_move [OF assms, of worker_weight w'] by (simp add: weight_def)

lemma weight_unchanged [simp]:
  "weight d (s\<lparr>px_store := st\<rparr>) = weight d s" "weight d (s\<lparr>px_count := c\<rparr>) = weight d s"
  "weight d (s\<lparr>px_wg := g\<rparr>) = weight d s"
  by (simp_all add: weight_def)

lemma step_weight:
  assumes "service_step d mv s s'" "service_ok d s" "px_cancelled s"
  shows "weight d s' + 1 \<le> weight d s + (if mv = Tick then 33 else if mv = Outside then 1 else 0)"
  using assms(1)
proof cases
  case (stop i)
  with weight_move [OF stop(3), of d Leaving] show ?thesis by simp
next
  case (leave i)
  with weight_move [OF leave(3), of d Gone] show ?thesis by simp
next
  case (take_event i event st)
  with weight_move [OF take_event(3), of d "Working event"] show ?thesis by simp
next
  case (take_nothing i r st)
  with weight_move [OF take_nothing(3), of d Selecting] show ?thesis by simp
next
  case (worked i event st)
  with weight_move [OF worked(3), of d Selecting] show ?thesis by simp
next
  case (decide n)
  with scale_up_small [of "int n" "dt_threshold d" "px_count s" "dt_max d"] show ?thesis by (simp add: weight_def)
qed (use assms(2,3) in \<open>simp add: weight_def service_ok_def; fail\<close>)+

lemma run_weight:
  assumes "service_run d mvs s s'" "service_ok d s" "px_cancelled s"
  shows "length mvs + weight d s' \<le> weight d s + 33 * count_list mvs Tick + count_list mvs Outside"
  using assms
proof (induction rule: service_run.induct)
  case (moves mv s s1 mvs s2)
  from moves.IH [OF step_ok [OF moves.hyps(1) moves.prems(1)] run_cancelled [OF moves.hyps(1) moves.prems(2)]]
    step_weight [OF moves.hyps(1) moves.prems] show ?case by (auto split: if_splits)
qed simp

lemma step_phase:
  assumes "service_step d mv s s'"
  shows "px_main s \<le> px_main s'"
  using assms by cases simp_all

lemma run_phase: "service_run d mvs s s' \<Longrightarrow> px_main s \<le> px_main s'"
  by (induction rule: service_run.induct) (auto dest: step_phase)

text \<open>Work that always ends, whatever the stores answer; nothing can then block the shutdown.\<close>

locale dutiful =
  fixes d :: "'s duty"
  assumes work_ends: "\<exists>st'. dt_work d event st st'"

context dutiful
begin

lemma worker_moves:
  assumes "at_worker i w s" "w \<noteq> Gone" "px_cancelled s"
  shows "\<exists>s'. service_step d (Worker i) s s'"
proof (cases w)
  case Popping
  obtain r st where t: "dt_take d (px_store s) = (r, st)" by fastforce
  show ?thesis
  proof (cases "r = Inr None \<or> (\<exists>err. r = Inl err)")
    case True
    with take_nothing [of i s d, OF _ t] assms(1) Popping show ?thesis by blast
  next
    case False
    then obtain event where "r = Inr (Some event)" by (cases r) auto
    with take_event [of i s d] t assms(1) Popping show ?thesis by blast
  qed
next
  case (Working event)
  with assms(1) work_ends [of event "px_store s"] worked [of i event s d] show ?thesis by blast
qed (use assms stop leave in blast)+

lemma scaler_moves:
  assumes "scaler_alive (px_scaler s) = 1" "px_cancelled s"
  shows "\<exists>s'. service_step d Scaler s s'"
proof (cases "px_scaler s")
  case (Adding k)
  then show ?thesis by (cases k) (use add_worker added in blast)+
next
  case (Measured n)
  then show ?thesis using decide by blast
next
  case Waiting
  with assms(2) show ?thesis using stop_scaler by blast
qed (use assms(1) in simp_all)

lemma no_deadlock:
  assumes "service_ok d s" "px_cancelled s" "px_main s \<noteq> Returned"
  shows "\<exists>mv s'. mv \<notin> {Tick, Outside} \<and> service_step d mv s s'"
proof (cases "px_main s")
  case (Launching i)
  then show ?thesis
    using launch [of s i d] launch_scaler [of s i d] no_scaler [of s i d] by blast
next
  case Serving
  with context_done [of s d] assms(2) show ?thesis by blast
next
  case Joining
  show ?thesis
  proof (cases "px_wg s = 0")
    case True
    with joined [of s d] Joining show ?thesis by blast
  next
    case False
    then consider "scaler_alive (px_scaler s) \<noteq> 0" | "sum_of alive s \<noteq> 0" using assms(1) by (fastforce simp: service_ok_def)
    then show ?thesis
    proof cases
      case 1
      then have "scaler_alive (px_scaler s) = 1" by (cases "px_scaler s") simp_all
      with scaler_moves assms(2) show ?thesis by blast
    next
      case 2
      then obtain w where "w \<in> set (px_workers s)" "alive w \<noteq> 0" by (auto simp: sum_of_def)
      then obtain i where "at_worker i w s" "w \<noteq> Gone" by (auto simp: in_set_conv_nth at_worker_def) fastforce
      with worker_moves assms(2) show ?thesis by blast
    qed
  qed
qed (use assms(3) in simp)

lemma shuts_down:
  assumes "service_ok d s" "px_cancelled s"
  shows "\<exists>mvs s'. service_run d mvs s s' \<and> Tick \<notin> set mvs \<and> Outside \<notin> set mvs \<and> px_main s' = Returned"
  using assms
proof (induction "weight d s" arbitrary: s rule: less_induct)
  case less
  show ?case
  proof (cases "px_main s = Returned")
    case True
    with no_moves show ?thesis by fastforce
  next
    case False
    from no_deadlock [OF less.prems this] obtain mv s1 where mv: "mv \<notin> {Tick, Outside}" "service_step d mv s s1" by blast
    have "weight d s1 < weight d s" using step_weight [OF mv(2) less.prems] mv(1) by simp
    from less.hyps [OF this step_ok [OF mv(2) less.prems(1)] run_cancelled [OF mv(2) less.prems(2)]]
    obtain mvs s2 where run: "service_run d mvs s1 s2" "Tick \<notin> set mvs" "Outside \<notin> set mvs" "px_main s2 = Returned"
      by blast
    from moves [OF mv(2) run(1)] run(2-4) mv(1) show ?thesis by (intro exI [of _ "mv # mvs"] exI [of _ s2]) auto
  qed
qed

end

lemma orchestrator_dutiful: "\<exists>st'. dt_work (orchestrator_duty parse cfg) event st st'"
  by (cases "route_event parse event") (simp add: orchestrator_duty_def)

interpretation orch: dutiful "orchestrator_duty parse cfg" for parse cfg
  by unfold_locales (rule orchestrator_dutiful)

interpretation dlv: dutiful "delivery_duty en nets now n" for en nets now n
proof unfold_locales
  fix event st
  obtain drifts s1 where i: "inspect_event en now event st = (drifts, s1)" by fastforce
  obtain dests s2 where d: "event_destinations en event s1 = (dests, s2)" by fastforce
  obtain as where "interleaved (fan_out en nets event dests) as" using interleaved_exists by blast
  from deliverEvent.intros [OF i d this] show "\<exists>st'. dt_work (delivery_duty en nets now n) event st st'"
    by (auto simp: delivery_duty_def)
qed

section \<open>Properties\<close>

abbreviation orchestrator_run :: "(bytes \<Rightarrow> json option) \<Rightarrow> OrchestratorConfig \<Rightarrow> move list \<Rightarrow> redis process \<Rightarrow> redis process \<Rightarrow> bool" where
  "orchestrator_run parse cfg \<equiv> service_run (orchestrator_duty parse cfg)"

text \<open>
  C12: the orchestrator shuts down. Take any moment after SIGINT or SIGTERM, with workers and the scaler
  anywhere in their rounds, Redis answering or not, and the other services pushing and popping events all
  the while. However the goroutines are interleaved among themselves and with what happens outside, they take
  only a bounded number of further steps, counted from where they stand, and 33 more for every tick of the
  timer that the scaler still chooses over the cancelled context, and \<open>main\<close> never goes back to a phase it
  has left. No goroutine waits for another for ever:
  without any further tick and without help from outside \<open>main\<close> can return, and as long as it has not, some
  goroutine can act. When it has
  returned, every worker and the scaler has ended, with no event in its hands.
\<close>

theorem orchestrator_shuts_down:
  assumes "orchestrator_run parse cfg mvs (service_start q) s" "px_cancelled s"
  shows "(\<forall>more s'. orchestrator_run parse cfg more s s'
        \<longrightarrow> length more \<le> weight (orchestrator_duty parse cfg) s + 33 * count_list more Tick + count_list more Outside
          \<and> px_main s \<le> px_main s')
    \<and> (px_main s \<noteq> Returned \<longrightarrow> (\<exists>mv s'. mv \<notin> {Tick, Outside} \<and> service_step (orchestrator_duty parse cfg) mv s s'))
    \<and> (\<exists>more s'. orchestrator_run parse cfg more s s' \<and> Tick \<notin> set more \<and> Outside \<notin> set more
        \<and> px_main s' = Returned)
    \<and> (px_main s = Returned \<longrightarrow> set (px_workers s) \<subseteq> {Gone} \<and> px_scaler s = Stopped)"
proof -
  have ok: "service_ok (orchestrator_duty parse cfg) s" by (rule run_ok [OF assms(1) start_ok])
  then show ?thesis
    using run_weight [OF _ ok assms(2)] orch.no_deadlock [OF ok assms(2)] orch.shuts_down [OF ok assms(2)]
      main_ok_returned [OF ok] run_phase by (meson add_leD1)
qed

text \<open>A signal between the start of the only worker and that of the scaler.\<close>

theorem orchestrator_shuts_down_witness:
  "\<exists>s s' more. orchestrator_run (\<lambda>_. None) \<lparr>oc_Workers = 1, oc_MaxWorkers = 5, oc_QueueScaleThreshold = 0\<rparr>
      [Main, Signal] (service_start (redis_of [])) s
    \<and> px_workers s = [Selecting] \<and> px_main s = Launching 1
    \<and> orchestrator_run (\<lambda>_. None) \<lparr>oc_Workers = 1, oc_MaxWorkers = 5, oc_QueueScaleThreshold = 0\<rparr> more s s'
    \<and> px_main s' = Returned"
proof -
  let ?d = "orchestrator_duty (\<lambda>_. None) \<lparr>oc_Workers = 1, oc_MaxWorkers = 5, oc_QueueScaleThreshold = 0\<rparr>"
  let ?s0 = "service_start (redis_of [])"
  let ?s1 = "startWorker ?s0\<lparr>px_main := Launching (Suc 0)\<rparr>"
  let ?s2 = "?s1\<lparr>px_cancelled := True\<rparr>"
  have "service_step ?d Main ?s0 ?s1" by (rule launch) (simp_all add: service_start_def orchestrator_duty_def)
  moreover have "service_step ?d Signal ?s1 ?s2" by (rule signal) (simp add: service_start_def startWorker_def)
  ultimately have run: "service_run ?d [Main, Signal] ?s0 ?s2" by (meson service_run.intros)
  have c: "px_cancelled ?s2" by simp
  have "px_workers ?s2 = [Selecting]" "px_main ?s2 = Launching 1"
    by (simp_all add: service_start_def startWorker_def)
  with run orchestrator_shuts_down [OF run c] show ?thesis by blast
qed

text \<open>
  C26: the bound of the scaler under concurrency. At every moment of the orchestrator, with workers being
  launched, working and leaving while the scaler measures, decides and adds, \<open>workerCount\<close> is the number
  of workers that have not begun to leave, the WaitGroup counts exactly the goroutines that have not ended,
  so that it never goes below zero, and together with the workers that the scaler is about to add there are
  never more than the larger of \<open>Workers\<close> and \<open>MaxWorkers\<close>, for maxima below \<open>2 ^ 31 - 10\<close>.
\<close>

theorem orchestrator_workers_bounded:
  assumes "orchestrator_run parse cfg mvs (service_start q) s" "0 \<le> oc_Workers cfg" "oc_Workers cfg < 2 ^ 31"
    and "0 \<le> oc_MaxWorkers cfg" "oc_MaxWorkers cfg < 2 ^ 31 - 10"
  shows "int (sum_of counted s + to_add (px_scaler s)) \<le> max (oc_Workers cfg) (oc_MaxWorkers cfg)
    \<and> px_count s = word_of_nat (sum_of counted s)
    \<and> px_wg s = int (sum_of alive s + scaler_alive (px_scaler s))"
proof -
  let ?d = "orchestrator_duty parse cfg"
  have m: "sint (dt_max ?d) = oc_MaxWorkers cfg" and n: "int (dt_workers ?d) = oc_Workers cfg"
    using assms(2-5) by (simp_all add: orchestrator_duty_def sint_sbintrunc' signed_take_bit_int_eq_self)
  have ok: "service_ok ?d s" by (rule run_ok [OF assms(1) start_ok])
  have "within ?d (service_start q)" using assms(2) by (simp add: within_def service_start_def sum_of_def n)
  from run_within [OF assms(1) start_ok this] m n assms(3,5) have "within ?d s" by simp
  with ok m n show ?thesis by (simp add: within_def service_ok_def)
qed

theorem orchestrator_workers_bounded_witness:
  "\<exists>s. orchestrator_run (\<lambda>_. None) \<lparr>oc_Workers = 1, oc_MaxWorkers = 5, oc_QueueScaleThreshold = 0\<rparr>
      [Main, Main] (service_start (redis_of [])) s
    \<and> px_main s = Serving \<and> px_scaler s = Waiting \<and> sum_of counted s = 1 \<and> px_wg s = 2 \<and> int (sum_of counted s) \<le> 5"
proof -
  let ?cfg = "\<lparr>oc_Workers = 1, oc_MaxWorkers = 5, oc_QueueScaleThreshold = 0\<rparr>"
  let ?d = "orchestrator_duty (\<lambda>_. None) ?cfg"
  let ?s0 = "service_start (redis_of [])"
  let ?s1 = "startWorker ?s0\<lparr>px_main := Launching (Suc 0)\<rparr>"
  let ?s2 = "?s1\<lparr>px_wg := px_wg ?s1 + 1, px_scaler := Waiting, px_main := Serving\<rparr>"
  have "service_step ?d Main ?s0 ?s1" by (rule launch) (simp_all add: service_start_def orchestrator_duty_def)
  moreover have "service_step ?d Main ?s1 ?s2"
    by (rule launch_scaler [where i = "Suc 0"]) (simp_all add: service_start_def orchestrator_duty_def)
  ultimately have run: "service_run ?d [Main, Main] ?s0 ?s2" by (meson service_run.intros)
  have c: "sum_of counted ?s2 = 1" by simp (simp add: service_start_def sum_of_def)
  have "px_main ?s2 = Serving" "px_scaler ?s2 = Waiting" "px_wg ?s2 = 2" by (simp_all add: service_start_def)
  with run c orchestrator_workers_bounded [OF run] show ?thesis by fastforce
qed

end
