(* ===== verification/Pipeline.thy ===== *)
theory Pipeline
  imports Ingestion Fanout Bridge Config
begin

text \<open>
  The services composed: what the ingestion handler accepted passes through the orchestrator and the
  workers of the delivery service. The services share one Redis and one Postgres.
\<close>

section \<open>A delivery leaves the work queues alone\<close>

lemma Enqueue_other: "k' \<noteq> k \<Longrightarrow> rd_lists (snd (Enqueue k e q)) k' = rd_lists q k'"
  using Enqueue_cases [of k e q] by auto

lemma perform_other_queues: "k \<noteq> QueueDLQ \<Longrightarrow> rd_lists (sv_rd (fold perform as s)) k = rd_lists (sv_rd s) k"
proof (induction as arbitrary: s)
  case (Cons a as)
  have "rd_lists (sv_rd (perform a s)) k = rd_lists (sv_rd s) k"
    using Cons.prems by (simp add: perform_def Enqueue_other split: action.split)
  with Cons show ?case by simp
qed simp

lemma deliverEvent_queues:
  "deliverEvent en nets now ev s s' \<Longrightarrow> k \<noteq> QueueDLQ \<Longrightarrow> rd_lists (sv_rd s') k = rd_lists (sv_rd s) k"
  by (auto elim!: deliverEvent.cases simp: perform_other_queues inspect_event_def event_destinations_def Let_def
      split: option.splits prod.splits sum.splits)

section \<open>From the request to the destinations\<close>

text \<open>The incoming queue, the orchestrator and the delivery worker, one event in the queues.\<close>

lemma worker_takes:
  assumes "delivery_worker en nets now s s'" "queue_up (sv_rd s)" "queue_entries (sv_rd s) QueueDelivery = Some ev # rest"
  shows "\<exists>q. deliverEvent en nets now ev (s\<lparr>sv_rd := q\<rparr>) s' \<and> queue_up q
    \<and> queue_entries q = (queue_entries (sv_rd s))(QueueDelivery := rest)"
  using assms(1)
proof cases
  case (nothing r q)
  with rq.deq_result [OF assms(2), of QueueDelivery] assms(3) show ?thesis by auto
next
  case (deliver event q)
  with rq.deq_result [OF assms(2), of QueueDelivery] rq.deq_up [OF assms(2), of QueueDelivery]
    rq.deq_entries [OF assms(2), of QueueDelivery] assms(3)
  show ?thesis by (intro exI [of _ q]) auto
qed

lemma queue_entries_empty: "queue_entries q k = [] \<longleftrightarrow> rd_lists q k = []"
  by (simp add: queue_entries_def)

lemma accepted_entry:
  assumes "handleWebhook allow secrets h i now r s = (resp, s1)" "re_Status resp = 202" "queue_up (in_redis s)"
  obtains body where "rq_Body r = Some body" "queue_up (in_redis s1)"
    "queue_entries (in_redis s1) = (queue_entries (in_redis s))(QueueIncoming :=
       queue_entries (in_redis s) QueueIncoming @ [Some (wire (build_event r body i now))])"
    "rd_lists (in_redis s1) QueueDLQ = rd_lists (in_redis s) QueueDLQ"
  using assms(1)
proof (cases rule: handleWebhook_cases)
  case answered
  with assms(2) show thesis by auto
next
  case (queued body p)
  from queued(3) have "rq_Body r = Some body" by (auto simp: read_body_def split: option.splits if_splits)
  with queued(6) rq.enq_entries [OF assms(3)] rq.enq_up [OF assms(3)]
  show thesis by (intro that [of body]) (auto simp: Enqueue_other)
qed

lemma orchestrated_entry:
  assumes "queue_up q" "queue_entries q QueueIncoming = [Some ev]" "fst (route_event parse ev) = QueueDelivery"
  shows "queue_entries (orchestrator_worker parse q) = (queue_entries q)(QueueIncoming := [],
      QueueDelivery := queue_entries q QueueDelivery @ [Some (wire ev)])"
    "queue_up (orchestrator_worker parse q)"
proof -
  have ne: "fst (route_event parse x) \<noteq> QueueIncoming" for x by (rule route_target)
  have "snd (route_event parse ev) = ev"
    using assms(3) by (auto simp: route_event_def split: option.splits json.splits if_splits)
  with assms(3) show "queue_entries (orchestrator_worker parse q) = (queue_entries q)(QueueIncoming := [],
      QueueDelivery := queue_entries q QueueDelivery @ [Some (wire ev)])"
    using rq.forward_entries [OF assms(1) ne] assms(2)
    by (auto simp: orchestrator_worker_def fun_eq_iff routed_def List.map_filter_def)
  show "queue_up (orchestrator_worker parse q)"
    unfolding orchestrator_worker_def by (rule rq.forward_up [OF assms(1)])
qed

text \<open>
  C1: from the request to its destinations. A webhook that was answered 202 and names no file, the only
  one in the queues, goes through one round of the orchestrator and one round of a delivery worker. While
  the stores answer, at most four attempts are configured and the service is not shut down, its body is
  then in none of the three work queues any more (incoming, extraction, delivery), and each destination that routing chose for it has exactly one of a
  successful attempt and a dead letter; the dead letters and the Redis list agree. Nothing that was
  accepted is lost on the way.
\<close>

theorem webhook_end_to_end:
  assumes accepted: "handleWebhook allow secrets h i now r s = (resp, s1)" "re_Status resp = 202"
    and redis: "queue_up (in_redis s)" "\<forall>k \<in> {QueueIncoming, QueueExtraction, QueueDelivery}. rd_lists (in_redis s) k = []"
    and ev: "rq_Body r = Some body" "ev = wire (wire (build_event r body i now))"
    and route: "fst (route_event (en_parse en) (wire (build_event r body i now))) = QueueDelivery"
    and pg: "pg_up p" "distinct (map (dest_ID \<circ> fst) (pg_dests p))"
    and worker: "delivery_worker en nets t
      \<lparr>sv_pg = p, sv_rd = orchestrator_worker (en_parse en) (in_redis s1), sv_sc = sc\<rparr> s2"
    and m: "en_maxRetries en \<le> 4" and going: "\<forall>i n. \<not> nt_cancelled (nets i) n"
  shows "(\<forall>k \<in> {QueueIncoming, QueueExtraction, QueueDelivery}. rd_lists (sv_rd s2) k = []) \<and> ev_RawBody ev = body
    \<and> (\<exists>new dead. pg_attempts (sv_pg s2) = pg_attempts p @ new \<and> pg_dlq (sv_pg s2) = pg_dlq p @ dead
      \<and> queue_entries (sv_rd s2) QueueDLQ
          = queue_entries (in_redis s) QueueDLQ @ replicate (length dead) (Some (wire ev))
      \<and> (\<forall>d \<in> set (chosen_dests (en_parse en) (en_parse_conds en) (en_ff en) (en_pf en) p (ev_SourceID ev) body).
           (\<exists>a \<in> set new. da_DestinationID a = dest_ID d \<and> da_Success a)
           \<noteq> (\<exists>e \<in> set dead. dl_EventID e = ev_ID ev \<and> dl_DestinationID e = dest_ID d)))"
proof -
  let ?e = "wire (build_event r body i now)" and ?q = "orchestrator_worker (en_parse en) (in_redis s1)"
  let ?s = "\<lparr>sv_pg = p, sv_rd = ?q, sv_sc = sc\<rparr>"
  obtain q1: "queue_up (in_redis s1)" "queue_entries (in_redis s1) =
      (queue_entries (in_redis s))(QueueIncoming := [Some ?e])"
    using accepted_entry [OF accepted redis(1)] ev(1) redis(2) by (auto simp: queue_entries_def)
  have q2: "queue_entries ?q = (queue_entries (in_redis s))(QueueIncoming := [], QueueDelivery := [Some ev])" "queue_up ?q"
    using orchestrated_entry [OF q1(1) _ route] q1(2) redis(2) ev(2) by (auto simp: queue_entries_def)
  then obtain q where d: "deliverEvent en nets t ev (?s\<lparr>sv_rd := q\<rparr>) s2" and q: "queue_up q"
    "queue_entries q = (queue_entries (in_redis s))(QueueIncoming := [], QueueDelivery := [])"
    using worker_takes [OF worker, of ev "[]"] by auto
  have body: "ev_RawBody ev = body" by (simp add: ev(2) build_event_def)
  have up: "all_up (?s\<lparr>sv_rd := q\<rparr>)" using pg(1) q(1) by (simp add: all_up_def)
  have empty: "rd_lists q QueueIncoming = []" "rd_lists q QueueExtraction = []" "rd_lists q QueueDelivery = []"
    using q(2) redis(2) by (auto simp: queue_entries_empty [symmetric])
  obtain new dead where "pg_attempts (sv_pg s2) = pg_attempts p @ new" "pg_dlq (sv_pg s2) = pg_dlq p @ dead"
    and dlq: "rd_lists (sv_rd s2) QueueDLQ = rd_lists q QueueDLQ @ replicate (length dead) (marshal_event ev)"
    and "\<forall>d \<in> set (chosen_dests (en_parse en) (en_parse_conds en) (en_ff en) (en_pf en) p (ev_SourceID ev) body).
           (\<exists>a \<in> set new. da_DestinationID a = dest_ID d \<and> da_Success a)
           \<noteq> (\<exists>e \<in> set dead. dl_EventID e = ev_ID ev \<and> dl_DestinationID e = dest_ID d)"
    using deliverEvent_settles [OF d up _ m going refl] pg(2) by (auto simp: body)
  moreover have "queue_entries (sv_rd s2) QueueDLQ
      = queue_entries (in_redis s) QueueDLQ @ replicate (length dead) (Some (wire ev))"
    using dlq fun_cong [OF q(2), of QueueDLQ] by (simp add: queue_entries_def marshal_event_def map_replicate)
  moreover have "\<forall>k \<in> {QueueIncoming, QueueExtraction, QueueDelivery}. rd_lists (sv_rd s2) k = []"
    using deliverEvent_queues [OF d] empty by simp
  ultimately show ?thesis using body by blast
qed

lemma worker_returns: "\<exists>s'. delivery_worker en nets now s s'"
proof -
  obtain r q where d: "Dequeue False QueueDelivery (sv_rd s) = (r, q)" by fastforce
  show ?thesis
  proof (cases "\<exists>ev. r = Inr (Some ev)")
    case True
    with d deliver deliverEvent_returns show ?thesis by metis
  next
    case False
    then have "r = Inr None \<or> (\<exists>err. r = Inl err)" by (cases r) auto
    from delivery_worker.nothing [OF d this] show ?thesis by blast
  qed
qed

text \<open>The request of the ingestion theory, on its way to a destination that always answers 503.\<close>

theorem webhook_end_to_end_witness:
  "\<exists>s2 :: services. (\<forall>k \<in> {QueueIncoming, QueueExtraction, QueueDelivery}. rd_lists (sv_rd s2) k = [])
    \<and> (\<exists>a \<in> set (pg_attempts (sv_pg s2)). da_DestinationID a = ''d1'' \<and> da_Success a)
       \<noteq> (\<exists>e \<in> set (pg_dlq (sv_pg s2)). dl_EventID e = ''e'' \<and> dl_DestinationID e = ''d1'')"
proof -
  let ?run = "handleWebhook no_limit (Some (GetSourceSigningSecret, EnsureSource)) demo_handler ''e'' 7
     demo_request demo_ingest"
  obtain resp s1 where run: "?run = (resp, s1)" by fastforce
  have ok: "re_Status resp = 202" using demo_run unfolding run by simp
  let ?rd = "in_redis s1" and ?en = demo_engine and ?n = "\<lambda>_. steady (Responded 503 1)"
  let ?ev = "wire (wire (build_event demo_request ''hi'' ''e'' 7))"
  let ?s = "\<lparr>sv_pg = ruled_pg, sv_rd = orchestrator_worker (en_parse ?en) ?rd, sv_sc = \<lparr>sc_rows = [], sc_faults = []\<rparr>\<rparr>"
  have rd: "queue_up (in_redis demo_ingest)" "\<forall>k \<in> {QueueIncoming, QueueExtraction, QueueDelivery}. rd_lists (in_redis demo_ingest) k = []"
    by (simp_all add: demo_ingest_def) (simp_all add: redis_of_def)
  have b: "rq_Body demo_request = Some ''hi''" by (simp add: demo_request_def)
  have route: "fst (route_event (en_parse ?en) e) = QueueDelivery" for e
    by (simp add: route_event_def unmarshal_map_def demo_engine_def)
  obtain body where body: "rq_Body demo_request = Some body" and q1: "queue_up ?rd"
    and entries: "queue_entries ?rd = (queue_entries (in_redis demo_ingest))(QueueIncoming :=
       queue_entries (in_redis demo_ingest) QueueIncoming @ [Some (wire (build_event demo_request body ''e'' 7))])"
    by (rule accepted_entry [OF run ok rd(1)])
  have none: "queue_entries (in_redis demo_ingest) QueueIncoming = []" "queue_entries (in_redis demo_ingest) QueueDelivery = []"
    unfolding queue_entries_empty using rd(2) by simp_all
  have q: "queue_up ?rd" "queue_entries ?rd QueueIncoming = [Some (wire (build_event demo_request ''hi'' ''e'' 7))]"
    "queue_entries ?rd QueueDelivery = []"
    using q1 body b none unfolding entries by simp_all
  obtain s2 where w: "delivery_worker ?en ?n 0 ?s s2" using worker_returns by blast
  have ids: "distinct (map (dest_ID \<circ> fst) (pg_dests ruled_pg))" by (simp add: ruled_pg_def dest_row_def)
  have m: "en_maxRetries ?en \<le> 4" by (simp add: demo_engine_def)
  have go: "\<forall>i n. \<not> nt_cancelled (?n i) n" by (simp add: steady_def)
  have ev: "ev_SourceID ?ev = ''s''" "ev_ID ?ev = ''e''"
    by (simp_all add: wire_def build_event_def demo_request_def ascii_def)
  have rows: "pg_attempts ruled_pg = []" "pg_dlq ruled_pg = []" by (simp_all add: ruled_pg_def)
  let ?ds = "chosen_dests (en_parse ?en) (en_parse_conds ?en) (en_ff ?en) (en_pf ?en) ruled_pg (ev_SourceID ?ev) ''hi''"
  have mem: "dest_row ''d1'' ''s'' \<in> set ?ds"
    unfolding ev by (simp add: chosen_dests_def demo_engine_def unmarshal_map_def default_dests_def active_dests_def
        source_rules_def ruled_pg_def dest_row_def)
  from webhook_end_to_end [OF run ok rd b refl route ruled_pg_up ids w m go]
  have idle: "\<forall>k \<in> {QueueIncoming, QueueExtraction, QueueDelivery}. rd_lists (sv_rd s2) k = []"
    and each: "\<forall>d \<in> set ?ds. (\<exists>a \<in> set (pg_attempts (sv_pg s2)). da_DestinationID a = dest_ID d \<and> da_Success a)
       \<noteq> (\<exists>e \<in> set (pg_dlq (sv_pg s2)). dl_EventID e = ev_ID ?ev \<and> dl_DestinationID e = dest_ID d)"
    unfolding rows append_Nil by blast+
  have id: "dest_ID (dest_row ''d1'' ''s'') = ''d1''" by (simp add: dest_row_def)
  show ?thesis
    by (rule exI [of _ s2], rule conjI, rule idle) (rule bspec [OF each mem, unfolded id ev])
qed

section \<open>A webhook with a file\<close>

text \<open>A delivery round on services whose tables routing does not distinguish from those of \<open>p\<close>.\<close>

lemma settled_view:
  assumes "delivery_worker en nets t s s2" "all_up s" "queue_entries (sv_rd s) QueueDelivery = [Some ev]"
    and "delivery_view (sv_pg s) = delivery_view p" "distinct (map (dest_ID \<circ> fst) (pg_dests p))"
    and "en_maxRetries en \<le> 4" "\<forall>i n. \<not> nt_cancelled (nets i) n"
  shows "rd_lists (sv_rd s2) QueueDelivery = []
    \<and> (\<forall>k. k \<noteq> QueueDLQ \<and> k \<noteq> QueueDelivery \<and> rd_lists (sv_rd s) k = [] \<longrightarrow> rd_lists (sv_rd s2) k = [])
    \<and> (\<exists>new dead. pg_attempts (sv_pg s2) = pg_attempts p @ new \<and> pg_dlq (sv_pg s2) = pg_dlq p @ dead
      \<and> (\<forall>d \<in> set (chosen_dests (en_parse en) (en_parse_conds en) (en_ff en) (en_pf en) p (ev_SourceID ev) (ev_RawBody ev)).
           (\<exists>a \<in> set new. da_DestinationID a = dest_ID d \<and> da_Success a)
           \<noteq> (\<exists>e \<in> set dead. dl_EventID e = ev_ID ev \<and> dl_DestinationID e = dest_ID d)))"
proof -
  have up: "pg_up (sv_pg s)" "queue_up (sv_rd s)" using assms(2) by (simp_all add: all_up_def)
  obtain q where d: "deliverEvent en nets t ev (s\<lparr>sv_rd := q\<rparr>) s2" and q: "queue_up q"
    "queue_entries q = (queue_entries (sv_rd s))(QueueDelivery := [])"
    using worker_takes [OF assms(1) up(2), of ev "[]"] assms(3) by auto
  have view: "pg_attempts (sv_pg s) = pg_attempts p" "pg_dlq (sv_pg s) = pg_dlq p" "pg_dests (sv_pg s) = pg_dests p"
    using assms(4) by (simp_all add: delivery_view_def)
  have "all_up (s\<lparr>sv_rd := q\<rparr>)" using up(1) q(1) by (simp add: all_up_def)
  note settles = deliverEvent_settles [OF d this _ assms(6,7) refl]
  have lists: "rd_lists q QueueDelivery = []" "rd_lists q k = []" if "k \<noteq> QueueDelivery" "rd_lists (sv_rd s) k = []" for k
    using that fun_cong [OF q(2), of k] fun_cong [OF q(2), of QueueDelivery] by (simp_all add: queue_entries_def)
  have "rd_lists q QueueDelivery = []" using fun_cong [OF q(2), of QueueDelivery] by (simp add: queue_entries_def)
  then show ?thesis
    using settles deliverEvent_queues [OF d] lists assms(5) chosen_dests_view [OF assms(4)] by (auto simp: view)
qed

text \<open>
  C7: the same for a webhook that names a file. After one round each of the orchestrator, the bridge and a
  delivery worker the event is in no work queue, whatever became of the download, the object store and the
  model; and each destination that routing chose for the event, with its possibly enriched body, has
  exactly one of a successful attempt and a dead letter. The bridge does not panic.
\<close>

theorem file_webhook_end_to_end:
  assumes accepted: "handleWebhook allow secrets h i now r s = (resp, s1)" "re_Status resp = 202"
    and redis: "queue_up (in_redis s)" "rd_lists (in_redis s) QueueIncoming = []"
      "rd_lists (in_redis s) QueueExtraction = []" "rd_lists (in_redis s) QueueDelivery = []"
    and body: "rq_Body r = Some body"
    and route: "fst (route_event (be_parse env) (wire (build_event r body i now))) = QueueExtraction"
    and ext: "newExtractor (cloud_backend ce da db) (Inr (LocalExtract grpc)) cfg = Inr ext"
    and pg: "pg_up (br_pg b)" "distinct (map (dest_ID \<circ> fst) (pg_dests (br_pg b)))" "br_rd b = in_redis s1"
    and m: "en_maxRetries en \<le> 4" and going: "\<forall>i n. \<not> nt_cancelled (nets i) n"
  shows "\<exists>b2. \<exists>ev :: WebhookEvent. bridge_worker env ext (b\<lparr>br_rd := orchestrator_worker (be_parse env) (br_rd b)\<rparr>) = Some b2
    \<and> ev_ID ev = to_valid i \<and> ev_SourceID ev = to_valid (rq_SourceID r)
    \<and> (\<forall>sc s2. delivery_worker en nets t \<lparr>sv_pg = br_pg b2, sv_rd = br_rd b2, sv_sc = sc\<rparr> s2 \<longrightarrow>
        rd_lists (sv_rd s2) QueueIncoming = [] \<and> rd_lists (sv_rd s2) QueueExtraction = []
        \<and> rd_lists (sv_rd s2) QueueDelivery = []
        \<and> (\<exists>new dead. pg_attempts (sv_pg s2) = pg_attempts (br_pg b) @ new \<and> pg_dlq (sv_pg s2) = pg_dlq (br_pg b) @ dead
          \<and> (\<forall>d \<in> set (chosen_dests (en_parse en) (en_parse_conds en) (en_ff en) (en_pf en) (br_pg b)
                        (ev_SourceID ev) (ev_RawBody ev)).
               (\<exists>a \<in> set new. da_DestinationID a = dest_ID d \<and> da_Success a)
               \<noteq> (\<exists>e \<in> set dead. dl_EventID e = ev_ID ev \<and> dl_DestinationID e = dest_ID d))))"
proof -
  let ?e = "wire (build_event r body i now)" and ?b = "b\<lparr>br_rd := orchestrator_worker (be_parse env) (br_rd b)\<rparr>"
  obtain q: "queue_up (br_rd b)" "queue_entries (br_rd b) = (queue_entries (in_redis s))(QueueIncoming := [Some ?e])"
    using accepted_entry [OF accepted redis(1)] body redis(2) pg(3) by (auto simp: queue_entries_def)
  have in1: "queue_entries (br_rd b) QueueIncoming = Some ?e # []" "queue_entries (br_rd b) QueueExtraction = []"
    using q(2) redis(3) by (simp_all add: queue_entries_def)
  obtain b2 ev where w: "bridge_worker env ext ?b = Some b2"
    and q2: "queue_entries (br_rd b2) = (queue_entries (br_rd b))(QueueIncoming := [],
        QueueDelivery := queue_entries (br_rd b) QueueDelivery @ [Some ev])"
    and e: "ev_ID ev = to_valid (ev_ID ?e)" "ev_SourceID ev = to_valid (ev_SourceID ?e)"
    and up: "pg_up (br_pg b2)" "queue_up (br_rd b2)"
    using file_event_forwarded [OF ext pg(1) q(1) in1 route] by blast
  have id: "ev_ID ev = to_valid i" "ev_SourceID ev = to_valid (rq_SourceID r)"
    by (simp_all add: e wire_def build_event_def)
  have view: "delivery_view (br_pg b2) = delivery_view (br_pg b)"
    using bridge_worker_untouched [OF w] by (simp add: untouched_def delivery_view_def)
  have d2: "queue_entries (br_rd b2) QueueDelivery = [Some ev]" "rd_lists (br_rd b2) QueueIncoming = []"
    "rd_lists (br_rd b2) QueueExtraction = []"
    using fun_cong [OF q2, of QueueDelivery] fun_cong [OF q2, of QueueIncoming] fun_cong [OF q2, of QueueExtraction]
      fun_cong [OF q(2), of QueueDelivery] redis(4) in1(2) by (simp_all add: queue_entries_def)
  have settled: "rd_lists (sv_rd s2) QueueIncoming = [] \<and> rd_lists (sv_rd s2) QueueExtraction = []
        \<and> rd_lists (sv_rd s2) QueueDelivery = []
        \<and> (\<exists>new dead. pg_attempts (sv_pg s2) = pg_attempts (br_pg b) @ new \<and> pg_dlq (sv_pg s2) = pg_dlq (br_pg b) @ dead
          \<and> (\<forall>d \<in> set (chosen_dests (en_parse en) (en_parse_conds en) (en_ff en) (en_pf en) (br_pg b)
                        (ev_SourceID ev) (ev_RawBody ev)).
               (\<exists>a \<in> set new. da_DestinationID a = dest_ID d \<and> da_Success a)
               \<noteq> (\<exists>e \<in> set dead. dl_EventID e = ev_ID ev \<and> dl_DestinationID e = dest_ID d)))"
    if run: "delivery_worker en nets t \<lparr>sv_pg = br_pg b2, sv_rd = br_rd b2, sv_sc = sc\<rparr> s2" for sc s2
    using settled_view [OF run _ _ _ pg(2) m going, of ev] up d2 view by (simp add: all_up_def)
  with w id show ?thesis by blast
qed

text \<open>The deployment of the bridge theory; the destination accepts everything.\<close>

theorem file_webhook_end_to_end_witness:
  "\<exists>ext (b :: http_call list bridge) b2 s2. bridge_worker demo_bridge_env ext b = Some b2
    \<and> rd_lists (br_rd b) QueueExtraction \<noteq> []
    \<and> delivery_worker demo_engine (\<lambda>_. steady (Responded 200 1)) 0
        \<lparr>sv_pg = br_pg b2, sv_rd = br_rd b2, sv_sc = \<lparr>sc_rows = [], sc_faults = []\<rparr>\<rparr> s2
    \<and> rd_lists (sv_rd s2) QueueDelivery = []"
proof -
  let ?n = "\<lambda>_. steady (Responded 200 1)"
  let ?run = "handleWebhook no_limit (Some (GetSourceSigningSecret, EnsureSource)) demo_handler ''e'' 7
     demo_request demo_ingest"
  obtain resp s1 where run: "?run = (resp, s1)" by fastforce
  have ok: "re_Status resp = 202" using demo_run unfolding run by simp
  obtain ext where ext: "newExtractor (cloud_backend recovering plain_reply openai_reply)
      (Inr (LocalExtract (\<lambda>r s. (Inl ''down'', s)))) demo_config = Inr ext" using demo_backend by blast
  define b :: "http_call list bridge" where "b = (demo_bridge [])\<lparr>br_pg := ruled_pg, br_rd := in_redis s1\<rparr>"
  let ?b = "b\<lparr>br_rd := orchestrator_worker (be_parse demo_bridge_env) (br_rd b)\<rparr>"
  have rd: "queue_up (in_redis demo_ingest)" "rd_lists (in_redis demo_ingest) QueueIncoming = []"
    "rd_lists (in_redis demo_ingest) QueueExtraction = []" "rd_lists (in_redis demo_ingest) QueueDelivery = []"
    by (simp_all add: demo_ingest_def) (simp_all add: redis_of_def)
  have body: "rq_Body demo_request = Some ''hi''" by (simp add: demo_request_def)
  have route: "fst (route_event (be_parse demo_bridge_env) (wire (build_event demo_request ''hi'' ''e'' 7))) = QueueExtraction"
    by (simp add: route_event_def unmarshal_map_def map_entries_def demo_bridge_env_def build_event_def)
  have pg: "pg_up (br_pg b)" "distinct (map (dest_ID \<circ> fst) (pg_dests (br_pg b)))" "br_rd b = in_redis s1"
    by (simp_all add: b_def) (simp add: ruled_pg_def dest_row_def)
  have m: "en_maxRetries demo_engine \<le> 4" and go: "\<forall>i n. \<not> nt_cancelled (?n i) n"
    by (simp_all add: demo_engine_def steady_def)
  obtain raw where "rq_Body demo_request = Some raw" and q1: "queue_up (in_redis s1)"
    and entries: "queue_entries (in_redis s1) = (queue_entries (in_redis demo_ingest))(QueueIncoming :=
       queue_entries (in_redis demo_ingest) QueueIncoming @ [Some (wire (build_event demo_request raw ''e'' 7))])"
    by (rule accepted_entry [OF run ok rd(1)])
  with body rd(2) have "queue_entries (br_rd b) QueueIncoming
      = Some (wire (build_event demo_request ''hi'' ''e'' 7)) # []"
    by (simp add: b_def queue_entries_def)
  with route have "queue_entries (br_rd ?b) QueueExtraction \<noteq> []"
    using rq.forward_entries [OF q1 route_target [of "be_parse demo_bridge_env"]]
    by (simp add: orchestrator_worker_def b_def routed_def)
  then have moved: "rd_lists (br_rd ?b) QueueExtraction \<noteq> []" by (simp add: queue_entries_empty)
  obtain b2 ev where w: "bridge_worker demo_bridge_env ext ?b = Some b2"
    and settled: "\<forall>sc s2. delivery_worker demo_engine ?n 0 \<lparr>sv_pg = br_pg b2, sv_rd = br_rd b2, sv_sc = sc\<rparr> s2
        \<longrightarrow> rd_lists (sv_rd s2) QueueIncoming = [] \<and> rd_lists (sv_rd s2) QueueExtraction = []
          \<and> rd_lists (sv_rd s2) QueueDelivery = []"
    using file_webhook_end_to_end [OF run ok rd body route ext pg m go, of 0] by blast
  obtain s2 where "delivery_worker demo_engine ?n 0
      \<lparr>sv_pg = br_pg b2, sv_rd = br_rd b2, sv_sc = \<lparr>sc_rows = [], sc_faults = []\<rparr>\<rparr> s2"
    using worker_returns by blast
  with w settled moved show ?thesis by blast
qed

section \<open>The configured number of attempts\<close>

text \<open>
  C37: a configuration that loads can stop the delivery service. Any number of attempts above four is
  accepted; the table of delays has four entries, so a destination that fails four times without deciding
  ends the process with an index out of range: there are four attempt rows, and the event is neither
  delivered nor in the dead letter queue.
\<close>

theorem accepted_configuration_panics:
  assumes "Load env = Inr cfg" "parse_int (env ''DELIVERY_MAX_RETRIES'') = Some m" "4 < m"
    and "\<forall>n \<in> {1..4}. \<not> decisive (nt_answer nt n) \<and> \<not> nt_cancelled nt n"
  shows "snd (deliverToDestination c nt (dc_MaxRetries (cf_Delivery cfg)) ev d) = Panicked
    \<and> pushed_of (fst (deliverToDestination c nt (dc_MaxRetries (cf_Delivery cfg)) ev d)) = []
    \<and> length (attempts_of (fst (deliverToDestination c nt (dc_MaxRetries (cf_Delivery cfg)) ev d))) = 4"
proof -
  have "dc_MaxRetries (cf_Delivery cfg) = m"
    using Load_ok [OF assms(1)] assms(2) by (simp add: load_delivery_def envOrDefaultInt_eq)
  with fifth_attempt_panics [OF assms(3,4)] show ?thesis by simp
qed

definition five_tries :: "string \<Rightarrow> string" where
  "five_tries key =
    (if key = ''POSTGRES_DSN'' \<or> key = ''REDIS_ADDR'' then ''x'' else if key = ''DELIVERY_MAX_RETRIES'' then ''5'' else [])"

theorem accepted_configuration_panics_witness:
  "\<exists>cfg. Load five_tries = Inr cfg \<and>
    snd (deliverToDestination id (steady (Responded 503 7)) (dc_MaxRetries (cf_Delivery cfg))
      (plain ''e'' ''s'' []) (dest_row ''d1'' ''s'')) = Panicked"
proof -
  obtain cfg where cfg: "Load five_tries = Inr cfg" by (simp add: Load_def five_tries_def)
  have m: "parse_int (five_tries ''DELIVERY_MAX_RETRIES'') = Some 5" by code_simp
  have "\<forall>n \<in> {1..4}. \<not> decisive (nt_answer (steady (Responded 503 7)) n) \<and> \<not> nt_cancelled (steady (Responded 503 7)) n"
    by (simp add: steady_def decisive_def accepted_def refused_def)
  with accepted_configuration_panics [OF cfg m] cfg show ?thesis by simp
qed

end
