(* ===== verification/Router.thy ===== *)
theory Router
  imports Api
begin

text \<open>
  \<open>internal/api/router.go\<close>: the route table of the management API and its middleware. Matching a path is
  chi's; its result is an argument, the route with its one URL parameter or the status of a request
  that matches none.
\<close>

section \<open>Routes\<close>

datatype route =
    Health | Sources | Webhooks | Webhook | Schema_of | Drifts | Diffs | DLQ | RetryDLQ | DiscardDLQ
  | Throughput | Latency | CreateRule | ListRules | UpdateRule | DeleteRule | TestRule
  | BeginReplay | GetReplay | PauseReplay | ResumeReplay | CancelReplay

definition api_routes :: "(string \<times> string \<times> route) list" where
  "api_routes =
    [(''GET'', ''/api/health'', Health),
     (''GET'', ''/api/sources'', Sources),
     (''GET'', ''/api/sources/{sourceID}/webhooks'', Webhooks),
     (''GET'', ''/api/webhooks/{eventID}'', Webhook),
     (''GET'', ''/api/sources/{sourceID}/schema'', Schema_of),
     (''GET'', ''/api/sources/{sourceID}/drifts'', Drifts),
     (''GET'', ''/api/sources/{sourceID}/diffs'', Diffs),
     (''GET'', ''/api/dlq'', DLQ),
     (''POST'', ''/api/dlq/{eventID}/retry'', RetryDLQ),
     (''POST'', ''/api/dlq/{eventID}/discard'', DiscardDLQ),
     (''GET'', ''/api/metrics/throughput'', Throughput),
     (''GET'', ''/api/metrics/latency'', Latency),
     (''POST'', ''/api/sources/{sourceID}/rules'', CreateRule),
     (''GET'', ''/api/sources/{sourceID}/rules'', ListRules),
     (''PUT'', ''/api/rules/{ruleID}'', UpdateRule),
     (''DELETE'', ''/api/rules/{ruleID}'', DeleteRule),
     (''POST'', ''/api/rules/{ruleID}/test'', TestRule),
     (''POST'', ''/api/sources/{sourceID}/replay'', BeginReplay),
     (''GET'', ''/api/replay/{sessionID}'', GetReplay),
     (''POST'', ''/api/replay/{sessionID}/pause'', PauseReplay),
     (''POST'', ''/api/replay/{sessionID}/resume'', ResumeReplay),
     (''DELETE'', ''/api/replay/{sessionID}'', CancelReplay)]"

text \<open>What the handlers need of the libraries and of the server, and what a request brings.\<close>

record api_env =
  ae_print :: "json \<Rightarrow> bytes"
  ae_parse_time :: "string \<Rightarrow> int option"
  ae_valid :: "bytes \<Rightarrow> bool"
  ae_uuid :: "string \<Rightarrow> string option"
  ae_has_queue :: bool
  ae_has_engine :: bool
  ae_now :: int
  ae_throughput :: "zset option option"
  ae_latency :: "zset option option"

record api_input =
  ai_param :: string
  ai_query :: params
  ai_rule :: "RuleInput option"
  ai_replay :: "ReplayInput option"

fun status_of :: "'a reply \<Rightarrow> int" where
  "status_of (Reply code _) = code"
| "status_of (Failure code _) = code"

definition answered :: "'a reply \<times> server \<Rightarrow> int \<times> server" where
  "answered r = (status_of (fst r), snd r)"

fun dispatch :: "api_env \<Rightarrow> api_input \<Rightarrow> route \<Rightarrow> server \<Rightarrow> int \<times> server" where
  "dispatch env i Health s = (200, s)"
| "dispatch env i Sources s = answered (handleListSources s)"
| "dispatch env i Webhooks s = answered (handleListWebhooks (ai_query i) (ai_param i) s)"
| "dispatch env i Webhook s =
     answered (handleGetWebhookDetail (ae_valid env) (ae_uuid env) (ai_query i) (ai_param i) s)"
| "dispatch env i Schema_of s = answered (handleGetSchema (ai_param i) s)"
| "dispatch env i Drifts s = answered (handleGetDrifts (ai_query i) (ai_param i) s)"
| "dispatch env i Diffs s = answered (handleGetDiffs (ai_query i) (ai_param i) s)"
| "dispatch env i DLQ s = answered (handleListDLQ (ai_query i) s)"
| "dispatch env i RetryDLQ s = answered (handleRetryDLQ (ae_has_queue env) (ai_param i) s)"
| "dispatch env i DiscardDLQ s = answered (handleDiscardDLQ (ae_has_queue env) (ai_param i) s)"
| "dispatch env i Throughput s =
     (status_of (handleThroughputMetrics (ai_query i) (ae_now env) (ae_throughput env)), s)"
| "dispatch env i Latency s = (status_of (handleLatencyMetrics (ai_query i) (ae_now env) (ae_latency env)), s)"
| "dispatch env i CreateRule s = answered (handleCreateRule (ae_print env) (ai_param i) (ai_rule i) s)"
| "dispatch env i ListRules s = answered (handleListRules (ai_param i) s)"
| "dispatch env i UpdateRule s = answered (handleUpdateRule (ae_print env) (ai_param i) (ai_rule i) s)"
| "dispatch env i DeleteRule s = answered (handleDeleteRule (ai_param i) s)"
| "dispatch env i TestRule s = answered (handleTestRule s)"
| "dispatch env i BeginReplay s =
     answered (handleStartReplay (ae_parse_time env) (ae_has_engine env) (ai_param i) (ai_replay i) s)"
| "dispatch env i GetReplay s = answered (handleGetReplay (ai_param i) s)"
| "dispatch env i PauseReplay s = answered (handlePauseReplay (ai_param i) s)"
| "dispatch env i ResumeReplay s = answered (handleResumeReplay (ai_param i) s)"
| "dispatch env i CancelReplay s = answered (handleCancelReplay (ai_param i) s)"

text \<open>The CORS middleware answers a preflight before any route is looked up.\<close>

definition api_request ::
    "api_env \<Rightarrow> string \<Rightarrow> int + route \<Rightarrow> api_input \<Rightarrow> server \<Rightarrow> int \<times> server" where
  "api_request env method matched i s =
    (if method = ''OPTIONS'' then (200, s)
     else case matched of Inl code \<Rightarrow> (code, s) | Inr rt \<Rightarrow> dispatch env i rt s)"

section \<open>Reading does not write\<close>

text \<open>The data of two servers: everything but the scripts of the faults to come.\<close>

definition same_data :: "server \<Rightarrow> server \<Rightarrow> bool" where
  "same_data s t \<longleftrightarrow> (ap_pg s)\<lparr>pg_faults := []\<rparr> = (ap_pg t)\<lparr>pg_faults := []\<rparr>
    \<and> sc_rows (ap_sc s) = sc_rows (ap_sc t) \<and> rd_lists (ap_rd s) = rd_lists (ap_rd t) \<and> ap_started s = ap_started t"

lemma serve_reads: "same_data (snd (serve (pg_query q (ap_pg s)) code err s)) s"
  by (simp add: serve_def pg_query_def same_data_def pg_tick_def)

lemma detail_reads: "same_data (snd (handleGetWebhookDetail valid uuid query i s)) s"
proof -
  have q: "(snd (GetWebhookDetail i p))\<lparr>pg_faults := []\<rparr> = p\<lparr>pg_faults := []\<rparr>" for p
    by (auto simp: GetWebhookDetail_def attempts_of_event_def extraction_of_event_def diff_of_event_def pg_query_def
        pg_tick_def)
  have e: "sc_rows (snd (GetEvent uuid src i sc)) = sc_rows sc" for src sc
    by (simp add: GetEvent_def sc_tick_def split: option.split)
  obtain r p where d: "GetWebhookDetail i (ap_pg s) = (r, p)" by fastforce
  with q [of "ap_pg s"] have p: "p\<lparr>pg_faults := []\<rparr> = (ap_pg s)\<lparr>pg_faults := []\<rparr>" by simp
  show ?thesis
  proof (cases r)
    case (Inr detail)
    obtain ev sc where g: "(if (if we_SourceID detail = [] then query ''source_id'' else we_SourceID detail) \<noteq> []
        then GetEvent uuid (if we_SourceID detail = [] then query ''source_id'' else we_SourceID detail) i (ap_sc s)
        else (None, ap_sc s)) = (ev, sc)" by fastforce
    then have "sc_rows sc = sc_rows (ap_sc s)" using e by (metis snd_conv)
    with d p g Inr show ?thesis by (simp add: handleGetWebhookDetail_def Let_def same_data_def)
  qed (use d p in \<open>simp add: handleGetWebhookDetail_def same_data_def\<close>)
qed

lemmas read_handlers = handleListSources_def handleListWebhooks_def handleGetSchema_def handleGetDrifts_def
  handleGetDiffs_def handleListDLQ_def handleListRules_def handleGetReplay_def
lemmas read_queries = ListSources_def ListWebhooks_def GetPayloadSchema_def GetDriftEvents_def GetWebhookDiffs_def
  ListDLQEntries_def GetRoutingRules_def GetReplaySession_def

lemma same_data_refl: "same_data s s"
  by (simp add: same_data_def)

definition reading :: "route set" where
  "reading = {Health, Sources, Webhooks, Webhook, Schema_of, Drifts, Diffs, DLQ, Throughput, Latency, ListRules, GetReplay}"

lemma dispatch_reads: "rt \<in> reading \<Longrightarrow> same_data (snd (dispatch env i rt s)) s"
  by (cases rt)
    (simp_all only: reading_def dispatch.simps answered_def snd_conv read_handlers read_queries serve_reads detail_reads
      same_data_refl insert_iff empty_iff route.distinct simp_thms)

lemma get_routes: "(''GET'', pattern, rt) \<in> set api_routes \<Longrightarrow> rt \<in> reading"
  by (auto simp: api_routes_def reading_def)

text \<open>
  C22: reading does not write. A request with the method GET or OPTIONS, whatever path it has and whatever
  the stores answer, leaves every table of Postgres, the archive and the queues as they are, and starts
  no replay.
\<close>

theorem get_requests_read_only:
  assumes "method \<in> {''GET'', ''OPTIONS''}"
    and "matched = Inl code \<or> (\<exists>pattern rt. matched = Inr rt \<and> (method, pattern, rt) \<in> set api_routes)"
  shows "same_data (snd (api_request env method matched i s)) s"
proof (cases "method = ''GET''")
  case True
  with assms(2) get_routes dispatch_reads same_data_refl show ?thesis
    by (auto simp: api_request_def)
next
  case False
  with assms(1) same_data_refl show ?thesis by (simp add: api_request_def)
qed

definition plain_input :: api_input where
  "plain_input = \<lparr>ai_param = [], ai_query = (\<lambda>_. []), ai_rule = None, ai_replay = None\<rparr>"

theorem get_requests_read_only_witness:
  "\<exists>env. same_data (snd (api_request env ''GET'' (Inr DLQ) plain_input twice_dead)) twice_dead
    \<and> fst (api_request env ''GET'' (Inr DLQ) plain_input twice_dead) = 200"
proof -
  have "same_data (snd (api_request env ''GET'' (Inr DLQ) plain_input twice_dead)) twice_dead" for env
    by (rule get_requests_read_only) (simp_all add: api_routes_def)
  moreover have "fst (api_request env ''GET'' (Inr DLQ) plain_input twice_dead) = 200" for env
    by (simp add: api_request_def answered_def handleListDLQ_def serve_def queryInt_def ListDLQEntries_def pg_query_def
        pg_page_def twice_dead_def fresh_pg_def pg_fails_def pg_tick_def plain_input_def)
  ultimately show ?thesis by blast
qed

end
