(* ===== verification/Startup.thy ===== *)
theory Startup
  imports Pipeline Api Hub Filestore
begin

text \<open>
  The start of the services: \<open>main\<close> of the commands under \<open>cmd\<close> up to the moment where they serve, and
  the connection loop of \<open>NewScyllaStore\<close>. A connection is made or not; what a command logs before it
  exits with status 1 is the value of \<open>Exit1\<close>.
\<close>

section \<open>The connection to Scylla\<close>

definition scylla_maxAttempts :: nat where "scylla_maxAttempts = 10"

text \<open>\<open>1 << min(attempt-1, 3)\<close> seconds.\<close>

definition scylla_delay :: "nat \<Rightarrow> int" where
  "scylla_delay attempt = 2 ^ min (attempt - 1) 3 * second"

text \<open>
  \<open>session n\<close> tells whether \<open>CreateSession\<close> succeeds at attempt \<open>n\<close>. The result is the waits and the
  attempt that connected.
\<close>

function scylla_connect :: "(nat \<Rightarrow> bool) \<Rightarrow> nat \<Rightarrow> int list \<times> nat option" where
  "scylla_connect session attempt =
    (if attempt > scylla_maxAttempts then ([], None)
     else if session attempt then ([], Some attempt)
     else if attempt = scylla_maxAttempts then ([], None)
     else case scylla_connect session (attempt + 1) of (waits, r) \<Rightarrow> (scylla_delay attempt # waits, r))"
  by pat_completeness auto
termination by (relation "measure (\<lambda>(_, attempt). Suc scylla_maxAttempts - attempt)") auto

declare scylla_connect.simps [simp del]

definition NewScyllaStore :: "(nat \<Rightarrow> bool) \<Rightarrow> int list \<times> nat option" where
  "NewScyllaStore session = scylla_connect session 1"

lemma scylla_connect_shape:
  assumes "attempt \<le> scylla_maxAttempts" "scylla_connect session attempt = (waits, r)"
  shows "waits = map scylla_delay [attempt ..< case r of None \<Rightarrow> scylla_maxAttempts | Some n \<Rightarrow> n]
    \<and> (case r of
         None \<Rightarrow> \<forall>n \<in> {attempt .. scylla_maxAttempts}. \<not> session n
       | Some n \<Rightarrow> attempt \<le> n \<and> n \<le> scylla_maxAttempts \<and> session n \<and> (\<forall>m \<in> {attempt ..< n}. \<not> session m))"
  using assms
proof (induction session attempt arbitrary: waits r rule: scylla_connect.induct)
  case (1 session attempt)
  show ?case
  proof (cases "session attempt \<or> attempt = scylla_maxAttempts")
    case True
    with "1.prems" show ?thesis by (subst (asm) scylla_connect.simps) (auto split: if_splits)
  next
    case False
    obtain waits' r' where rec: "scylla_connect session (attempt + 1) = (waits', r')" by fastforce
    with False "1.prems" have w: "waits = scylla_delay attempt # waits'" "r = r'"
      by (subst (asm) scylla_connect.simps, simp)+
    from False "1.prems"(1) have "attempt < scylla_maxAttempts" by simp
    with "1.IH" [OF _ _ _ _ rec] False
    have ih: "waits' = map scylla_delay [attempt + 1 ..< case r' of None \<Rightarrow> scylla_maxAttempts | Some n \<Rightarrow> n]"
      "case r' of None \<Rightarrow> \<forall>n \<in> {attempt + 1 .. scylla_maxAttempts}. \<not> session n
       | Some n \<Rightarrow> attempt + 1 \<le> n \<and> n \<le> scylla_maxAttempts \<and> session n \<and> (\<forall>m \<in> {attempt + 1 ..< n}. \<not> session m)"
      by auto
    have upto: "[attempt ..< k] = attempt # [attempt + 1 ..< k]" if "attempt < k" for k
      using that by (simp add: upt_conv_Cons)
    show ?thesis
    proof (cases r')
      case None
      with ih(2) False have "\<not> session n" if "n \<in> {attempt .. scylla_maxAttempts}" for n
        using that by (cases "n = attempt") auto
      with None ih(1) w upto [of scylla_maxAttempts] \<open>attempt < scylla_maxAttempts\<close> show ?thesis by simp
    next
      case (Some n)
      with ih(2) False have "\<not> session m" if "m \<in> {attempt ..< n}" for m
        using that by (cases "m = attempt") auto
      with Some ih w upto [of n] show ?thesis by simp
    qed
  qed
qed

lemma scylla_waits: "n \<le> 10 \<Longrightarrow> sum_list (map scylla_delay [1 ..< n]) \<le> 55 * second"
proof -
  assume "n \<le> 10"
  have pos: "0 \<le> scylla_delay k" for k by (simp add: scylla_delay_def second_def)
  have all: "sum_list (map scylla_delay [1 ..< 10]) = 55 * second"
    by (simp add: upt_rec scylla_delay_def)
  show ?thesis
  proof (cases "1 \<le> n")
    case True
    with \<open>n \<le> 10\<close> have "[1 ..< 10] = [1 ..< n] @ [n ..< 10]" by (metis le_add_diff_inverse upt_add_eq_append)
    moreover have "0 \<le> sum_list (map scylla_delay [n ..< 10])" by (rule sum_list_nonneg) (auto simp: pos)
    ultimately show ?thesis using all by simp
  qed (simp add: second_def)
qed

text \<open>
  C24: the connection loop ends. Whatever the cluster does, it returns after at most ten attempts and 55
  seconds of waiting; it gives up exactly when the first ten attempts fail, and otherwise the session is
  that of the first attempt that succeeds, after one wait for each failure.
\<close>

theorem scylla_connection_loop:
  assumes "NewScyllaStore session = (waits, r)"
  shows "waits = map scylla_delay [1 ..< case r of None \<Rightarrow> 10 | Some n \<Rightarrow> n] \<and> sum_list waits \<le> 55 * second
    \<and> (case r of
         None \<Rightarrow> \<forall>n \<in> {1 .. 10}. \<not> session n
       | Some n \<Rightarrow> n \<in> {1 .. 10} \<and> session n \<and> (\<forall>m \<in> {1 ..< n}. \<not> session m))"
proof -
  have shape: "waits = map scylla_delay [1 ..< case r of None \<Rightarrow> 10 | Some n \<Rightarrow> n]
    \<and> (case r of None \<Rightarrow> \<forall>n \<in> {1 .. 10}. \<not> session n
       | Some n \<Rightarrow> 1 \<le> n \<and> n \<le> 10 \<and> session n \<and> (\<forall>m \<in> {1 ..< n}. \<not> session m))"
    using scylla_connect_shape [unfolded scylla_maxAttempts_def, of 1 session waits r] assms by (simp add: NewScyllaStore_def)
  moreover have "(case r of None \<Rightarrow> 10 | Some n \<Rightarrow> n) \<le> 10" using shape by (auto split: option.splits)
  ultimately show ?thesis using scylla_waits by (auto split: option.splits)
qed

theorem scylla_connection_loop_witness:
  "\<exists>waits r. NewScyllaStore (\<lambda>n. n = 3) = (waits, r) \<and> r = Some 3 \<and> waits = [second, 2 * second]"
proof -
  obtain waits r where run: "NewScyllaStore (\<lambda>n. n = 3) = (waits, r)" by fastforce
  from scylla_connection_loop [OF run] have r: "r = Some 3" by (cases r) auto
  with scylla_connection_loop [OF run] have "waits = [second, 2 * second]"
    by (simp add: upt_rec scylla_delay_def)
  with run r show ?thesis by blast
qed

section \<open>The commands\<close>

datatype 'a launched = Exit1 string | Up 'a

definition ingestion_main :: "(string \<Rightarrow> string) \<Rightarrow> bool \<Rightarrow> bool \<Rightarrow> Handler launched" where
  "ingestion_main env redis postgres =
    (case Load env of
       Inl _ \<Rightarrow> Exit1 ''failed to load config''
     | Inr cfg \<Rightarrow>
         if \<not> redis then Exit1 ''failed to connect to redis''
         else if \<not> postgres then Exit1 ''failed to connect to postgres''
         else let ing = cf_Ingestion cfg in
           Up (NewHandler (Some (NewLimiter (ic_RateLimitPerIP ing) (ic_RateLimitPerSource ing)))
                 (ic_MaxBodyBytes ing) (ic_RequireSignature ing)))"

text \<open>The number of workers at the start and the limit of the scaler.\<close>

definition orchestrator_main :: "(string \<Rightarrow> string) \<Rightarrow> bool \<Rightarrow> (32 word \<times> OrchestratorConfig) launched" where
  "orchestrator_main env redis =
    (case Load env of
       Inl _ \<Rightarrow> Exit1 ''failed to load config''
     | Inr cfg \<Rightarrow>
         if \<not> redis then Exit1 ''failed to connect to redis''
         else Up (word_of_int (oc_Workers (cf_Orchestrator cfg)), cf_Orchestrator cfg))"

text \<open>\<open>en\<close> gives the libraries that the engine uses; recovery runs before the workers start.\<close>

definition delivery_main ::
    "(string \<Rightarrow> string) \<Rightarrow> bool \<Rightarrow> bool \<Rightarrow> (nat \<Rightarrow> bool) \<Rightarrow> engine \<Rightarrow> int \<Rightarrow> services \<Rightarrow> (engine \<times> services) launched" where
  "delivery_main env redis postgres session en now s =
    (case Load env of
       Inl _ \<Rightarrow> Exit1 ''failed to load config''
     | Inr cfg \<Rightarrow>
         if \<not> redis then Exit1 ''failed to connect to redis''
         else if \<not> postgres then Exit1 ''failed to connect to postgres''
         else if snd (NewScyllaStore session) = None then Exit1 ''failed to connect to scylladb''
         else let en' = NewEngine en (dc_MaxRetries (cf_Delivery cfg)) (sg_MinSamples (cf_Schema cfg))
           in Up (en', RecoverIncomplete en' now s))"

definition bridge_main ::
    "(string \<Rightarrow> string) \<Rightarrow> bool \<Rightarrow> bool \<Rightarrow> minio_lib \<Rightarrow> minio_server \<Rightarrow> (CloudExtractorOptions \<Rightarrow> string + 's backend) \<Rightarrow> string + 's backend
     \<Rightarrow> (MinIOStore \<times> 's backend \<times> 32 word \<times> ExtractorBridgeConfig) launched \<times> minio_server" where
  "bridge_main env redis postgres lib srv cloud local =
    (case Load env of
       Inl _ \<Rightarrow> (Exit1 ''failed to load config'', srv)
     | Inr cfg \<Rightarrow>
         if \<not> redis then (Exit1 ''failed to connect to redis'', srv)
         else if \<not> postgres then (Exit1 ''failed to connect to postgres'', srv)
         else case NewMinIOStore lib (cf_MinIO cfg) srv of
           (Inl _, srv1) \<Rightarrow> (Exit1 ''failed to connect to minio'', srv1)
         | (Inr store, srv1) \<Rightarrow>
             (case newExtractor cloud local (cf_Extractor cfg) of
                Inl _ \<Rightarrow> (Exit1 ''failed to initialize extractor backend'', srv1)
              | Inr ext \<Rightarrow>
                  (Up (store, ext, word_of_int (bc_Workers (cf_ExtractorBridge cfg)), cf_ExtractorBridge cfg), srv1)))"

text \<open>The API serves without Redis; the flags tell the handlers whether the queue and the publisher are there.\<close>

definition api_main :: "(string \<Rightarrow> string) \<Rightarrow> bool \<Rightarrow> (nat \<Rightarrow> bool) \<Rightarrow> bool \<Rightarrow> bool \<Rightarrow> (bool \<times> bool) launched" where
  "api_main env postgres session publisher redis =
    (case Load env of
       Inl _ \<Rightarrow> Exit1 ''failed to load config''
     | Inr cfg \<Rightarrow>
         if \<not> postgres then Exit1 ''failed to connect to postgres''
         else if snd (NewScyllaStore session) = None then Exit1 ''failed to connect to scylladb''
         else Up (redis, publisher))"

definition sse_main :: "(string \<Rightarrow> string) \<Rightarrow> bool \<Rightarrow> sse_server launched" where
  "sse_main env redis =
    (case Load env of
       Inl _ \<Rightarrow> Exit1 ''failed to load config''
     | Inr cfg \<Rightarrow> if \<not> redis then Exit1 ''failed to connect to redis for pub/sub'' else Up sse_start)"

section \<open>What the environment decides\<close>

text \<open>
  C18: a deployment that requires signatures gets them. When the ingestion service was started with
  \<open>INGESTION_REQUIRE_SIGNATURE\<close> set to \<open>true\<close>, every webhook it answers with 202 comes from a source that
  has a signing secret and carries a header that verifies against its body with that secret, whatever
  fails in the database and the rate limiter.
\<close>

theorem required_signatures:
  assumes "ingestion_main env redis postgres = Up h" "env ''INGESTION_REQUIRE_SIGNATURE'' = ''true''"
    and "handleWebhook allow (Some (GetSourceSigningSecret, EnsureSource)) h i now r s = (resp, s')" "re_Status resp = 202"
  shows "\<exists>body. rq_Body r = Some body \<and> pg_secret (in_store s) (rq_SourceID r) \<noteq> []
    \<and> Verify (pg_secret (in_store s) (rq_SourceID r)) (header_get r ''X-Signature'') body now signatureMaxAge = None"
proof -
  have "hd_requireSignature h"
    using assms(1,2) Load_ok [of env]
    by (auto simp: ingestion_main_def NewHandler_def load_ingestion_def envOrDefault_def Let_def split: sum.splits if_splits)
  with pgk.accepted_signed [OF assms(3,4)] show ?thesis by (auto split: if_splits)
qed

text \<open>
  A quick restart recovers nothing. Recovery runs once, when the delivery service starts, and skips
  the deliveries whose backoff has not elapsed; when that holds for all incomplete deliveries, the service
  starts to serve with the delivery queue as it was, and nothing looks at them again until the next start.
\<close>

theorem quick_restart_recovers_nothing:
  assumes "delivery_main env redis postgres session en now s = Up (en', s')"
    and "fst (GetIncompleteDeliveries (sv_pg s)) = Inr ds"
    and "\<forall>d \<in> set ds. now - id_LastAttemptAt d < recovery_delay (id_AttemptNumber d)"
  shows "sv_rd s' = sv_rd s \<and> sv_sc s' = sv_sc s"
proof -
  have "fold (recover_one en' now) ds t = t" if "\<forall>d \<in> set ds. now - id_LastAttemptAt d < recovery_delay (id_AttemptNumber d)"
    for ds t using that by (induction ds) (auto simp: recover_one_def)
  note skip = this [OF assms(3)]
  have "s' = RecoverIncomplete en' now s"
    using assms(1) by (auto simp: delivery_main_def Let_def split: sum.splits if_splits)
  with skip assms(2) show ?thesis
    by (cases "GetIncompleteDeliveries (sv_pg s)") (simp add: RecoverIncomplete_def)
qed

section \<open>Runs\<close>

definition strict_env :: "string \<Rightarrow> string" where
  "strict_env key =
    (if key = ''POSTGRES_DSN'' \<or> key = ''REDIS_ADDR'' then ''x''
     else if key = ''INGESTION_REQUIRE_SIGNATURE'' then ''true'' else [])"

definition signed_request :: request where
  "signed_request =
    \<lparr>rq_SourceID = ''s'', rq_Headers = [(''X-Signature'', (SignForTest ''key'' ''hi'' 1700000000000000000, []))],
     rq_Body = Some ''hi'', rq_RemoteAddr = ''10.0.0.1:80''\<rparr>"

definition secret_ingest :: "(unit, pg) ingest" where
  "secret_ingest = demo_ingest\<lparr>in_store := (fresh_pg ''s'')\<lparr>pg_sources := [\<lparr>so_ID = ''s'', so_Secret = Some ''key''\<rparr>]\<rparr>\<rparr>"

theorem required_signatures_witness:
  "\<exists>h s' resp. ingestion_main strict_env True True = Up h \<and> re_Status resp = 202
    \<and> handleWebhook no_limit (Some (GetSourceSigningSecret, EnsureSource)) h ''e'' 1700000000000000000 signed_request
        secret_ingest = (resp, s') \<and> pg_secret (in_store secret_ingest) ''s'' \<noteq> []"
proof -
  obtain h where h: "ingestion_main strict_env True True = Up h" "hd_requireSignature h" "hd_maxBodyBytes h = 10485760"
    by (simp add: ingestion_main_def NewHandler_def Load_def strict_env_def load_ingestion_def envOrDefault_def envOrDefaultInt_def Let_def)
  let ?run = "handleWebhook no_limit (Some (GetSourceSigningSecret, EnsureSource)) h ''e'' 1700000000000000000
    signed_request secret_ingest"
  have header: "header_get signed_request ''X-Signature'' = SignForTest ''key'' ''hi'' 1700000000000000000"
  proof -
    have "canonical_key ''X-Signature'' = ''X-Signature''" by code_simp
    then show ?thesis by (simp add: header_get_def signed_request_def)
  qed
  have verify: "Verify ''key'' (SignForTest ''key'' ''hi'' 1700000000000000000) ''hi'' 1700000000000000000 signatureMaxAge = None"
    by (rule Verify_sign_roundtrip) (simp_all add: second_def max64_def signatureMaxAge_def)
  have src: "pg_secret (in_store secret_ingest) ''s'' = ''key''" "rq_SourceID signed_request = ''s''"
    "rq_Body signed_request = Some ''hi''"
    by (simp_all add: secret_ingest_def pg_secret_def signed_request_def)
  have limit: "fst (checkRateLimit no_limit l r x t) = None" for l r x t
    by (cases l) (simp_all add: checkRateLimit_def AllowIP_def AllowSource_def limiter_allow_def no_limit_def Let_def unlimited_def
        split: prod.splits)
  have sig: "fst (checkSignature (Some GetSourceSigningSecret) True signed_request ''s'' ''hi'' 1700000000000000000
      (in_store secret_ingest)) = None"
    using verify header src(1)
    by (simp add: checkSignature_def GetSourceSigningSecret_eq secret_ingest_def pg_fails_def)
  have "re_Status (fst ?run) = 202"
    using limit sig src(2,3) h(2,3)
    by (simp add: handleWebhook_def read_body_def case_prod_unfold Let_def Enqueue_def secret_ingest_def demo_ingest_def)
  then obtain resp s' where run: "?run = (resp, s')" "re_Status resp = 202" by (metis fst_conv surj_pair)
  have env: "strict_env ''INGESTION_REQUIRE_SIGNATURE'' = ''true''" by (simp add: strict_env_def)
  from required_signatures [OF h(1) env run] src(2) have "pg_secret (in_store secret_ingest) ''s'' \<noteq> []" by auto
  with h(1) run show ?thesis by blast
qed

definition quick_env :: "string \<Rightarrow> string" where
  "quick_env key = (if key = ''POSTGRES_DSN'' \<or> key = ''REDIS_ADDR'' then ''x'' else [])"

text \<open>The services of the recovery run, restarted five seconds after the attempt.\<close>

theorem quick_restart_recovers_nothing_witness:
  "\<exists>en s'. delivery_main quick_env True True (\<lambda>n. True) demo_engine 1 restarted = Up (en, s') \<and> sv_rd s' = sv_rd restarted"
proof -
  have "snd (NewScyllaStore (\<lambda>n. True)) = Some 1"
    unfolding NewScyllaStore_def by (subst scylla_connect.simps) (simp add: scylla_maxAttempts_def)
  then obtain en s' where up: "delivery_main quick_env True True (\<lambda>n. True) demo_engine 1 restarted = Up (en, s')"
    by (simp add: delivery_main_def Load_def quick_env_def Let_def)
  have g: "fst (GetIncompleteDeliveries (sv_pg restarted)) = Inr [incomplete_of (attempt_row ''e'' ''d1'' 1 False)]"
    by (simp add: GetIncompleteDeliveries_def pg_query_def pg_fails_def incomplete_row_def attempt_row_def
        restarted_def ruled_pg_def)
  have "\<forall>d \<in> set [incomplete_of (attempt_row ''e'' ''d1'' 1 False)].
      1 - id_LastAttemptAt d < recovery_delay (id_AttemptNumber d)"
    by (simp add: recovery_delay_def retryDelays_def seconds_def incomplete_of_def attempt_row_def second_def)
  from quick_restart_recovers_nothing [OF up g this] up show ?thesis by blast
qed

end
