(* ===== verification/Servers.thy ===== *)
theory Servers
  imports Ingestion Hub Router "HOL-Library.Multiset"
begin

text \<open>
  The HTTP servers of \<open>cmd/ingestion\<close>, \<open>cmd/api\<close> and \<open>cmd/sse\<close> from the start of the listener to the exit
  of the process: the goroutine of \<open>ListenAndServe\<close>, the connections with their handlers, and \<open>main\<close>, which
  waits for SIGINT or SIGTERM and calls \<open>Shutdown\<close> with a deadline. The three commands differ in the service
  behind the server and in the time and the exit status of a shutdown.
\<close>

section \<open>A server\<close>

text \<open>
  What a server runs. A handler is entered with a request and later returns an answer; in between it holds a
  value of type \<open>'h\<close>. What it returns can depend on whether the read deadline of its connection has passed:
  the server reads from the connection while the handler runs, and an error of this read, also the timeout,
  cancels the context of the request. Other processes change the state too.
\<close>

record ('q, 'h, 'r, 's) http_service =
  hs_enter :: "'q \<Rightarrow> 's \<Rightarrow> 'h \<Rightarrow> 's \<Rightarrow> bool"
  hs_return :: "'q \<Rightarrow> 'h \<Rightarrow> bool \<Rightarrow> 's \<Rightarrow> 'r \<Rightarrow> 's \<Rightarrow> bool"
  hs_outside :: "'s \<Rightarrow> 's \<Rightarrow> bool"
  hs_readTimeout :: int
  hs_grace :: int
  hs_failed :: int

text \<open>
  A connection is new since an instant, or idle since an instant between two requests, or its handler runs,
  with the read deadline of the connection, or the answer is to be written.
\<close>

datatype ('q, 'h, 'r) conn = Fresh int | Idle int | Running 'q 'h int | Answered 'q 'r

text \<open>
  When reading a request began, if it can be read at all: with the connection for the first one, and later
  with the first bytes of the request, for which an idle connection waits as long as for a request.
\<close>

fun reading_since :: "int \<Rightarrow> ('q, 'h, 'r) conn \<Rightarrow> int \<Rightarrow> bool" where
  "reading_since timeout (Fresh t) t0 \<longleftrightarrow> t0 = t"
| "reading_since timeout (Idle t) t0 \<longleftrightarrow> t \<le> t0 \<and> t0 \<le> t + timeout"
| "reading_since timeout _ t0 \<longleftrightarrow> False"

datatype listener = Starting | Accepting | Closed

text \<open>\<open>Stopping t\<close> waits in \<open>Shutdown\<close> with the deadline \<open>t\<close>; \<open>Exited\<close> has the status and whether \<open>Shutdown\<close> failed.\<close>

datatype stage = Serving | Stopping int | Exited int bool

text \<open>
  The last three fields are history: the requests read, the answers of the handlers, and those written to
  clients that were still there.
\<close>

record ('q, 'h, 'r, 's) site =
  st_data :: 's
  st_listener :: listener
  st_conns :: "('q, 'h, 'r) conn multiset"
  st_clock :: int
  st_cancelled :: bool
  st_main :: stage
  st_read :: "'q multiset"
  st_returned :: "('q \<times> 'r) multiset"
  st_written :: "('q \<times> 'r) multiset"

definition site_start :: "'s \<Rightarrow> int \<Rightarrow> ('q, 'h, 'r, 's) site" where
  "site_start d now = \<lparr>st_data = d, st_listener = Starting, st_conns = {#}, st_clock = now, st_cancelled = False,
    st_main = Serving, st_read = {#}, st_returned = {#}, st_written = {#}\<rparr>"

fun exited :: "stage \<Rightarrow> bool" where
  "exited (Exited _ _) = True"
| "exited _ = False"

text \<open>
  \<open>Shutdown\<close> treats a connection as idle also when it is new and has sent nothing for five seconds.
\<close>

fun closable :: "int \<Rightarrow> ('q, 'h, 'r) conn \<Rightarrow> bool" where
  "closable now (Fresh t) \<longleftrightarrow> now - t > 5 * second"
| "closable now (Idle t) \<longleftrightarrow> True"
| "closable now _ \<longleftrightarrow> False"

text \<open>
  \<open>ListenAndServe\<close> returns \<open>ErrServerClosed\<close> once a shutdown has begun, and any other error ends the process
  with status 1. \<open>Shutdown\<close> closes the listener, then closes idle connections again and again until none is left, and
  returns an error when the deadline passes first or the listener could not be closed.
\<close>

inductive site_step ::
    "('q, 'h, 'r, 's) http_service \<Rightarrow> ('q, 'h, 'r, 's) site \<Rightarrow> ('q, 'h, 'r, 's) site \<Rightarrow> bool" for sv where
  listen: "st_listener s = Starting \<Longrightarrow> st_main s = Serving \<Longrightarrow> site_step sv s (s\<lparr>st_listener := Accepting\<rparr>)"
| too_late: "st_listener s = Starting \<Longrightarrow> st_main s = Stopping t \<Longrightarrow> site_step sv s (s\<lparr>st_listener := Closed\<rparr>)"
| listen_failed: "st_listener s = Starting \<and> \<not> exited (st_main s) \<or> st_listener s = Accepting \<and> st_main s = Serving
    \<Longrightarrow> site_step sv s (s\<lparr>st_main := Exited 1 False\<rparr>)"
| connect: "\<not> exited (st_main s) \<Longrightarrow> st_listener s = Accepting
    \<Longrightarrow> site_step sv s (s\<lparr>st_conns := add_mset (Fresh (st_clock s)) (st_conns s)\<rparr>)"
| read: "\<not> exited (st_main s) \<Longrightarrow> st_conns s = add_mset c cs
    \<Longrightarrow> reading_since (hs_readTimeout sv) c t0 \<Longrightarrow> t0 \<le> st_clock s \<Longrightarrow> st_clock s \<le> t0 + hs_readTimeout sv
    \<Longrightarrow> hs_enter sv q (st_data s) h d
    \<Longrightarrow> site_step sv s (s\<lparr>st_conns := add_mset (Running q h (t0 + hs_readTimeout sv)) cs, st_data := d,
          st_read := add_mset q (st_read s)\<rparr>)"
| return: "\<not> exited (st_main s) \<Longrightarrow> st_conns s = add_mset (Running q h dl) cs
    \<Longrightarrow> hs_return sv q h (dl \<le> st_clock s) (st_data s) r d
    \<Longrightarrow> site_step sv s (s\<lparr>st_conns := add_mset (Answered q r) cs, st_data := d,
          st_returned := add_mset (q, r) (st_returned s)\<rparr>)"
| answer: "\<not> exited (st_main s) \<Longrightarrow> st_conns s = add_mset (Answered q r) cs \<Longrightarrow> keep = {#Idle (st_clock s)#} \<or> keep = {#}
    \<Longrightarrow> site_step sv s (s\<lparr>st_conns := keep + cs, st_written := add_mset (q, r) (st_written s)\<rparr>)"
| hang_up: "\<not> exited (st_main s) \<Longrightarrow> st_conns s = add_mset c cs \<Longrightarrow> \<forall>q h dl. c \<noteq> Running q h dl
    \<Longrightarrow> site_step sv s (s\<lparr>st_conns := cs\<rparr>)"
| signal: "\<not> exited (st_main s) \<Longrightarrow> site_step sv s (s\<lparr>st_cancelled := True\<rparr>)"
| shut_down: "st_main s = Serving \<Longrightarrow> st_cancelled s
    \<Longrightarrow> site_step sv s (s\<lparr>st_main := Stopping (st_clock s + hs_grace sv),
          st_listener := (if st_listener s = Accepting then Closed else st_listener s)\<rparr>)"
| close_idle: "st_main s = Stopping t
    \<Longrightarrow> site_step sv s (s\<lparr>st_conns := filter_mset (\<lambda>c. \<not> closable (st_clock s) c) (st_conns s)\<rparr>)"
| drained: "st_main s = Stopping t \<Longrightarrow> st_conns s = {#} \<Longrightarrow> site_step sv s (s\<lparr>st_main := Exited 0 False\<rparr>)"
| not_closed: "st_main s = Stopping t \<Longrightarrow> st_conns s = {#} \<Longrightarrow> site_step sv s (s\<lparr>st_main := Exited (hs_failed sv) True\<rparr>)"
| deadline: "st_main s = Stopping t \<Longrightarrow> t \<le> st_clock s \<Longrightarrow> site_step sv s (s\<lparr>st_main := Exited (hs_failed sv) True\<rparr>)"
| time_passes: "\<not> exited (st_main s) \<Longrightarrow> 0 \<le> dt \<Longrightarrow> site_step sv s (s\<lparr>st_clock := st_clock s + dt\<rparr>)"
| outside: "\<not> exited (st_main s) \<Longrightarrow> hs_outside sv (st_data s) d \<Longrightarrow> site_step sv s (s\<lparr>st_data := d\<rparr>)"

inductive site_run ::
    "('q, 'h, 'r, 's) http_service \<Rightarrow> ('q, 'h, 'r, 's) site \<Rightarrow> ('q, 'h, 'r, 's) site \<Rightarrow> bool" for sv s where
  same: "site_run sv s s"
| later: "site_run sv s s1 \<Longrightarrow> site_step sv s1 s2 \<Longrightarrow> site_run sv s s2"

section \<open>The three commands\<close>

text \<open>
  \<open>Router\<close> of \<open>internal/ingestion\<close>: matching is chi's. A webhook is handled in one step between the
  others; the handler draws the identifier and reads the clock.
\<close>

datatype ingestion_request = Webhook_at request | Health_check | Unmatched int

definition route_request ::
    "'l allow \<Rightarrow> ((string \<Rightarrow> 's \<Rightarrow> ('e + string) \<times> 's) \<times> (string \<Rightarrow> 's \<Rightarrow> 'f \<times> 's)) option
     \<Rightarrow> Handler \<Rightarrow> string \<Rightarrow> int \<Rightarrow> ingestion_request \<Rightarrow> ('l, 's) ingest \<Rightarrow> response \<times> ('l, 's) ingest" where
  "route_request allow secrets h eventID now q s =
    (case q of
       Webhook_at r \<Rightarrow> handleWebhook allow secrets h eventID now r s
     | Health_check \<Rightarrow> (handleHealth, s)
     | Unmatched code \<Rightarrow> (\<lparr>re_Status = code, re_Headers = [], re_Body = []\<rparr>, s))"

text \<open>
  The state of the ingestion service and the entries that others have taken from the head of the incoming
  queue so far. Nothing else is assumed of the others.
\<close>

type_synonym ('l, 's) ingestion_state = "('l, 's) ingest \<times> raw_text list"

definition arrivals :: "('l, 's) ingestion_state \<Rightarrow> raw_text list" where
  "arrivals d = snd d @ rd_lists (in_redis (fst d)) QueueIncoming"

definition ingestion_service ::
    "'l allow \<Rightarrow> ((string \<Rightarrow> 's \<Rightarrow> ('e + string) \<times> 's) \<times> (string \<Rightarrow> 's \<Rightarrow> 'f \<times> 's)) option \<Rightarrow> Handler
     \<Rightarrow> (ingestion_request, unit, string \<times> int \<times> response, ('l, 's) ingestion_state) http_service" where
  "ingestion_service allow secrets h =
    \<lparr>hs_enter = (\<lambda>q d _ d'. d' = d),
     hs_return = (\<lambda>q _ _ d (eventID, now, resp) d'.
       route_request allow secrets h eventID now q (fst d) = (resp, fst d') \<and> snd d' = snd d),
     hs_outside = (\<lambda>d d'. arrivals d' = arrivals d), hs_readTimeout = 5 * second,
     hs_grace = 10 * second, hs_failed = 1\<rparr>"

text \<open>The method, the route that chi found, and what else the request brings.\<close>

type_synonym api_call = "string \<times> (int + route) \<times> api_input"

definition api_service :: "api_env \<Rightarrow> (api_call, unit, int, server) http_service" where
  "api_service env =
    \<lparr>hs_enter = (\<lambda>q d _ d'. d' = d),
     hs_return = (\<lambda>(method, matched, i) _ _ d r d'. \<exists>now. api_request (env\<lparr>ae_now := now\<rparr>) method matched i d = (r, d')),
     hs_outside = (\<lambda>d d'. True), hs_readTimeout = 10 * second, hs_grace = 10 * second, hs_failed = 0\<rparr>"

text \<open>
  The streams: a handler that streams returns when the context of its request is cancelled, because its
  client has gone or because the read deadline of the connection has passed. The state has the clients that
  have gone, by their channels.
\<close>

datatype sse_handler = Streaming nat | Replying int string

type_synonym sse_state = "sse_server \<times> nat set"

definition sse_enter :: "string \<times> string \<Rightarrow> sse_state \<Rightarrow> sse_handler \<Rightarrow> sse_state \<Rightarrow> bool" where
  "sse_enter q d h d' =
    (case q of (path, sourceFilter) \<Rightarrow>
      case sse_mux path of
        EventStream \<Rightarrow> sv_casting (fst d) = None \<and> h = Streaming (hb_next (sv_hub (fst d)))
          \<and> ServeHTTP True sourceFilter (fst d) = Inr (fst d') \<and> snd d' = snd d
      | Hub.Health \<Rightarrow> h = Replying 200 (sse_health (fst d)) \<and> d' = d
      | NotFound \<Rightarrow> h = Replying 404 ''404 page not found\<newline>'' \<and> d' = d)"

fun sse_return :: "sse_handler \<Rightarrow> bool \<Rightarrow> sse_state \<Rightarrow> int \<times> string \<Rightarrow> sse_state \<Rightarrow> bool" where
  "sse_return (Replying code body) timed_out d r d' \<longleftrightarrow> r = (code, body) \<and> d' = d"
| "sse_return (Streaming ch) timed_out d r d' \<longleftrightarrow>
     (timed_out \<or> ch \<in> snd d) \<and> sv_casting (fst d) = None \<and> snd d' = snd d
     \<and> r = (200, concat (map render (sv_out (fst d) ch)))
     \<and> (case Unregister ch (sv_hub (fst d)) of
          None \<Rightarrow> fst d' = (fst d)\<lparr>sv_crashed := True\<rparr>
        | Some h \<Rightarrow> fst d' = (fst d)\<lparr>sv_hub := h, sv_serving := sv_serving (fst d) - {ch}\<rparr>)"

text \<open>The subscriber broadcasts, the handlers forward and ping, and clients go.\<close>

inductive sse_outside :: "sse_state \<Rightarrow> sse_state \<Rightarrow> bool" where
  broadcasts: "cast_step s s' \<Longrightarrow> sse_outside (s, gone) (s', gone)"
| forwards: "ch \<in> sv_serving s \<Longrightarrow> ch_buf (hb_chans (sv_hub s) ch) = msg # ms
    \<Longrightarrow> sse_outside (s, gone) (written ch (Event msg) (received ch ms s), gone)"
| pings: "ch \<in> sv_serving s \<Longrightarrow> sse_outside (s, gone) (written ch Ping s, gone)"
| goes: "sse_outside (s, gone) (s, insert ch gone)"

definition sse_service :: "(string \<times> string, sse_handler, int \<times> string, sse_state) http_service" where
  "sse_service =
    \<lparr>hs_enter = sse_enter, hs_return = (\<lambda>_. sse_return), hs_outside = sse_outside, hs_readTimeout = 10 * second,
     hs_grace = 5 * second, hs_failed = 0\<rparr>"

text \<open>What can become of a command after its start: \<open>s\<close> is a moment of a run that begins at \<open>now\<close>.\<close>

definition ingestion_serves where
  "ingestion_serves allow secrets h d now s = site_run (ingestion_service allow secrets h) (site_start d now) s"

definition api_serves where
  "api_serves env d now s = site_run (api_service env) (site_start d now) s"

definition sse_serves where
  "sse_serves now s = site_run sse_service (site_start (sse_start, {}) now) s"

section \<open>What every server keeps\<close>

fun in_handler :: "('q, 'h, 'r) conn \<Rightarrow> 'q multiset" where
  "in_handler (Running q h dl) = {#q#}"
| "in_handler _ = {#}"

fun to_write :: "('q, 'h, 'r) conn \<Rightarrow> ('q \<times> 'r) multiset" where
  "to_write (Answered q r) = {#(q, r)#}"
| "to_write _ = {#}"

definition over :: "('c \<Rightarrow> 'a multiset) \<Rightarrow> 'c multiset \<Rightarrow> 'a multiset" where
  "over f cs = sum_mset (image_mset f cs)"

lemma over_simps [simp]: "over f {#} = {#}" "over f (add_mset c cs) = f c + over f cs" "over f (cs + cs') = over f cs + over f cs'"
  by (simp_all add: over_def)

lemma over_filter: "(\<And>c. \<not> P c \<Longrightarrow> f c = {#}) \<Longrightarrow> over f (filter_mset P cs) = over f cs"
  by (induction cs) auto

lemma closable_nothing: "closable now c \<Longrightarrow> in_handler c = {#} \<and> to_write c = {#}"
  by (cases c) auto

text \<open>Every request is in its handler or answered; an exit without an error leaves no connection.\<close>

definition site_ok :: "('q, 'h, 'r, 's) http_service \<Rightarrow> ('q, 'h, 'r, 's) site \<Rightarrow> bool" where
  "site_ok sv s \<longleftrightarrow> st_read s = image_mset fst (st_returned s) + over in_handler (st_conns s)
    \<and> st_written s + over to_write (st_conns s) \<subseteq># st_returned s
    \<and> (case st_main s of
         Serving \<Rightarrow> True
       | Stopping t \<Rightarrow> st_cancelled s
       | Exited code err \<Rightarrow> if err then st_cancelled s \<and> code = hs_failed sv
           else code = 1 \<or> code = 0 \<and> st_cancelled s \<and> st_conns s = {#})"

lemma site_start_ok: "site_ok sv (site_start d now)"
  by (simp add: site_ok_def site_start_def)

lemma site_step_ok: "site_step sv s s' \<Longrightarrow> site_ok sv s \<Longrightarrow> site_ok sv s'"
proof (induction rule: site_step.induct)
  case (read s c cs t0 q h d)
  then show ?case by (cases c) (auto simp: site_ok_def split: stage.splits)
next
  case (answer s q r cs keep)
  then show ?case by (auto simp: site_ok_def split: stage.splits)
next
  case (hang_up s c cs)
  have "in_handler c = {#}" using hang_up(3) by (cases c) auto
  moreover have "st_written s + over to_write cs \<subseteq># st_returned s"
    using hang_up.prems subset_mset.trans [of "st_written s + over to_write cs" "st_written s + over to_write (st_conns s)"]
    by (simp add: site_ok_def hang_up(2))
  ultimately show ?case using hang_up by (auto simp: site_ok_def split: stage.splits)
next
  case (close_idle s t)
  have "over in_handler {#c \<in># st_conns s. \<not> closable (st_clock s) c#} = over in_handler (st_conns s)"
    "over to_write {#c \<in># st_conns s. \<not> closable (st_clock s) c#} = over to_write (st_conns s)"
    using closable_nothing by (intro over_filter; blast)+
  with close_idle show ?case by (simp add: site_ok_def)
qed (auto simp: site_ok_def split: stage.splits)

lemma site_run_ok: "site_run sv s s' \<Longrightarrow> site_ok sv s \<Longrightarrow> site_ok sv s'"
  by (induction rule: site_run.induct) (auto intro: site_step_ok)

section \<open>Services that keep a ledger\<close>

text \<open>
  The contract of a service whose answers go with entries of a ledger: an answer in \<open>must\<close> has made its
  entry, one in \<open>may\<close> has perhaps, another one has not; others leave the ledger alone.
\<close>

locale ledger_service =
  fixes sv :: "('q, 'h, 'r, 's) http_service"
    and ledger :: "'s \<Rightarrow> 'e list"
    and entry :: "'q \<times> 'r \<Rightarrow> 'e"
    and must may :: "'q \<times> 'r \<Rightarrow> bool"
  assumes enter_keeps: "hs_enter sv q d h d' \<Longrightarrow> ledger d' = ledger d"
    and outside_keeps: "hs_outside sv d d' \<Longrightarrow> ledger d' = ledger d"
    and recorded: "hs_return sv q h late d r d' \<Longrightarrow>
      (if must (q, r) then ledger d' = ledger d @ [entry (q, r)]
       else ledger d' = ledger d \<or> may (q, r) \<and> ledger d' = ledger d @ [entry (q, r)])"
    and apart: "must x \<Longrightarrow> \<not> may x"
begin

definition balanced :: "'e list \<Rightarrow> ('q, 'h, 'r, 's) site \<Rightarrow> bool" where
  "balanced es0 s \<longleftrightarrow> (\<exists>xs late. ledger (st_data s) = es0 @ map entry xs
    \<and> mset xs = filter_mset must (st_returned s) + late \<and> late \<subseteq># filter_mset may (st_returned s))"

lemma step_balanced: "site_step sv s s' \<Longrightarrow> balanced es0 s \<Longrightarrow> balanced es0 s'"
proof (induction rule: site_step.induct)
  case (return s q h dl cs r d)
  obtain xs late where b: "ledger (st_data s) = es0 @ map entry xs" "mset xs = filter_mset must (st_returned s) + late"
    "late \<subseteq># filter_mset may (st_returned s)"
    using return.prems by (auto simp: balanced_def)
  consider "must (q, r)" "ledger d = ledger (st_data s) @ [entry (q, r)]"
    | "\<not> must (q, r)" "ledger d = ledger (st_data s)"
    | "\<not> must (q, r)" "may (q, r)" "ledger d = ledger (st_data s) @ [entry (q, r)]"
    using recorded [OF return.hyps(3)] by (auto split: if_splits)
  then show ?case
  proof cases
    case 1
    with b apart [OF 1(1)] show ?thesis
      unfolding balanced_def by (intro exI [of _ "xs @ [(q, r)]"] exI [of _ late]) simp
  next
    case 2
    have "filter_mset may (st_returned s) \<subseteq># filter_mset may (add_mset (q, r) (st_returned s))"
      by (rule multiset_filter_mono) simp
    from 2 b subset_mset.trans [OF b(3) this] show ?thesis
      unfolding balanced_def by (intro exI [of _ xs] exI [of _ late]) simp
  next
    case 3
    with b show ?thesis
      unfolding balanced_def by (intro exI [of _ "xs @ [(q, r)]"] exI [of _ "add_mset (q, r) late"]) simp
  qed
qed (simp_all add: balanced_def enter_keeps outside_keeps)

lemma run_balanced: "site_run sv s s' \<Longrightarrow> balanced es0 s \<Longrightarrow> balanced es0 s'"
  by (induction rule: site_run.induct) (auto intro: step_balanced)

lemma start_balanced: "balanced (ledger d) (site_start d now)"
  unfolding balanced_def by (rule exI [of _ "[]"]) (simp add: site_start_def)

end

section \<open>The ingestion server\<close>

fun entry_of :: "ingestion_request \<times> string \<times> int \<times> response \<Rightarrow> raw_text" where
  "entry_of (Webhook_at r, eventID, now, resp) =
     marshal_event (build_event r (case rq_Body r of None \<Rightarrow> [] | Some body \<Rightarrow> body) eventID now)"
| "entry_of (_, eventID, now, resp) = marshal_event (build_event demo_request [] eventID now)"

fun webhook_status :: "ingestion_request \<times> string \<times> int \<times> response \<Rightarrow> int option" where
  "webhook_status (Webhook_at r, eventID, now, resp) = Some (re_Status resp)"
| "webhook_status _ = None"

interpretation ing: ledger_service "ingestion_service allow secrets h" arrivals entry_of
    "\<lambda>x. webhook_status x = Some 202" "\<lambda>x. webhook_status x = Some 503" for allow secrets h
proof
  fix q :: ingestion_request and k late d r d'
  assume "hs_return (ingestion_service allow secrets h) q k late d r d'"
  moreover obtain i now resp where r: "r = (i, now, resp)" by (cases r)
  ultimately have run: "route_request allow secrets h i now q (fst d) = (resp, fst d')" and taken: "snd d' = snd d"
    by (simp_all add: ingestion_service_def)
  show "if webhook_status (q, r) = Some 202 then arrivals d' = arrivals d @ [entry_of (q, r)]
    else arrivals d' = arrivals d \<or> webhook_status (q, r) = Some 503 \<and> arrivals d' = arrivals d @ [entry_of (q, r)]"
  proof (cases q)
    case (Webhook_at w)
    with run have "handleWebhook allow secrets h i now w (fst d) = (resp, fst d')" by (simp add: route_request_def)
    then show ?thesis
    proof (cases rule: handleWebhook_cases)
      case answered
      then show ?thesis by (auto simp: Webhook_at r arrivals_def taken)
    next
      case (queued body p)
      have b: "rq_Body w = Some body" using queued(3) by (auto simp: read_body_def split: option.splits if_splits)
      show ?thesis
        using queued(6,7) Enqueue_ok [of QueueIncoming "build_event w body i now" "in_redis (fst d)"]
          Enqueue_cases [of QueueIncoming "build_event w body i now" "in_redis (fst d)"]
        by (auto simp: Webhook_at r arrivals_def taken b split: if_splits)
    qed
  qed (use run in \<open>auto simp: route_request_def r arrivals_def taken\<close>)
qed (auto simp: ingestion_service_def)

text \<open>
  C8: what the ingestion server accepts is queued, in every run. Let clients connect and leave, handlers
  overlap, other services take entries from the head of the queue, time pass and a signal come in any
  order. The entries that the incoming queue has gained are the events of exactly the webhooks answered 202,
  one for each, and of some of those answered 503, whose push lost its reply; no other request adds one.
  A client is told only what a handler has answered. When the process ends with status 0 a signal had come, and
  every request that was read has been answered by its handler; it ends with status 1 otherwise.
\<close>

theorem served_webhooks_are_queued:
  assumes "ingestion_serves allow secrets h d now s"
  shows "(\<exists>xs late. arrivals (st_data s) = arrivals d @ map entry_of xs
      \<and> mset xs = filter_mset (\<lambda>x. webhook_status x = Some 202) (st_returned s) + late
      \<and> late \<subseteq># filter_mset (\<lambda>x. webhook_status x = Some 503) (st_returned s))
    \<and> st_written s \<subseteq># st_returned s
    \<and> (\<forall>code err. st_main s = Exited code err \<longrightarrow>
        code = 1 \<or> code = 0 \<and> st_cancelled s \<and> st_read s = image_mset fst (st_returned s))"
proof -
  note run = assms [unfolded ingestion_serves_def]
  have ok: "site_ok (ingestion_service allow secrets h) s" by (rule site_run_ok [OF run site_start_ok])
  then have "st_written s \<subseteq># st_returned s"
    by (auto simp: site_ok_def intro: subset_mset.trans [rotated])
  moreover have "code = 1 \<or> code = 0 \<and> st_cancelled s \<and> st_read s = image_mset fst (st_returned s)"
    if "st_main s = Exited code err" for code err
    using ok that by (auto simp: site_ok_def ingestion_service_def split: if_splits)
  ultimately show ?thesis
    using ing.run_balanced [OF run ing.start_balanced] unfolding ing.balanced_def by blast
qed

text \<open>
  The API ends with status 0 after every shutdown, also when \<open>Shutdown\<close> has failed and requests were cut off;
  only the status 1 of a failed listener stands out.
\<close>

lemma api_exit_status:
  assumes "api_serves env d now s" "st_main s = Exited code err"
  shows "code = 0 \<and> st_cancelled s \<or> code = 1 \<and> \<not> err"
  using site_run_ok [OF assms(1) [unfolded api_serves_def] site_start_ok] assms(2)
  by (auto simp: site_ok_def api_service_def split: if_splits)

section \<open>Open streams\<close>

text \<open>No read deadline is further away than the timeout.\<close>

definition deadlines_near :: "('q, 'h, 'r, 's) http_service \<Rightarrow> ('q, 'h, 'r, 's) site \<Rightarrow> bool" where
  "deadlines_near sv s \<longleftrightarrow> (\<forall>q h dl. Running q h dl \<in># st_conns s \<longrightarrow> dl \<le> st_clock s + hs_readTimeout sv)"

lemma step_deadlines: "site_step sv s s' \<Longrightarrow> deadlines_near sv s \<Longrightarrow> deadlines_near sv s'"
  by (induction rule: site_step.induct) (fastforce simp: deadlines_near_def)+

lemma run_deadlines: "site_run sv s s' \<Longrightarrow> deadlines_near sv s \<Longrightarrow> deadlines_near sv s'"
  by (induction rule: site_run.induct) (auto intro: step_deadlines)

lemma step_clock: "site_step sv s s' \<Longrightarrow> st_clock s \<le> st_clock s'"
  by (induction rule: site_step.induct) simp_all

text \<open>
  The contract of a request that its handler keeps before the read deadline as long as \<open>here\<close> holds of the
  state; what has ceased to hold does not come back.
\<close>

locale lasting_request =
  fixes sv :: "('q, 'h, 'r, 's) http_service"
    and h :: 'h
    and here :: "'s \<Rightarrow> bool"
  assumes kept: "here d \<Longrightarrow> \<not> hs_return sv q h False d r d'"
    and enter_here: "hs_enter sv q d h' d' \<Longrightarrow> here d' \<Longrightarrow> here d"
    and return_here: "hs_return sv q h' late d r d' \<Longrightarrow> here d' \<Longrightarrow> here d"
    and outside_here: "hs_outside sv d d' \<Longrightarrow> here d' \<Longrightarrow> here d"
begin

definition held :: "'q \<Rightarrow> int \<Rightarrow> int \<Rightarrow> ('q, 'h, 'r, 's) site \<Rightarrow> bool" where
  "held q dl since s \<longleftrightarrow> Running q h dl \<in># st_conns s \<and> since \<le> st_clock s
    \<and> (case st_main s of
         Serving \<Rightarrow> True
       | Stopping t \<Rightarrow> since + hs_grace sv \<le> t
       | Exited code err \<Rightarrow> if err then code = hs_failed sv \<and> since + hs_grace sv \<le> st_clock s else code = 1)"

lemma step_held:
  assumes "site_step sv s s'" "here (st_data s) \<Longrightarrow> st_clock s < dl \<Longrightarrow> held q dl since s"
    and "here (st_data s')" "st_clock s' < dl"
  shows "held q dl since s'"
proof -
  have here: "here (st_data s)"
    using assms(1,3) by cases (auto dest: enter_here return_here outside_here)
  have early: "st_clock s < dl" using step_clock [OF assms(1)] assms(4) by simp
  have held: "held q dl since s" by (rule assms(2) [OF here early])
  from assms(1) show ?thesis
  proof cases
    case (return q' h' dl' cs r d)
    have "Running q h dl \<noteq> Running q' h' dl'" using kept [OF here] return(4) early by auto
    with held return show ?thesis by (auto simp: held_def split: stage.splits)
  next
    case (hang_up c cs)
    with held show ?thesis by (auto simp: held_def split: stage.splits)
  next
    case (answer q r cs keep)
    with held show ?thesis by (auto simp: held_def split: stage.splits)
  next
    case (read c cs t0 q h d)
    with held show ?thesis by (cases c) (auto simp: held_def split: stage.splits)
  qed (use held in \<open>auto simp: held_def split: stage.splits if_splits\<close>)
qed

lemma run_held:
  assumes "site_run sv s s'" "held q dl since s" "here (st_data s')" "st_clock s' < dl"
  shows "held q dl since s'"
proof -
  from assms(1) have "here (st_data s') \<longrightarrow> st_clock s' < dl \<longrightarrow> held q dl since s'"
  proof (induction rule: site_run.induct)
    case same
    with assms(2) show ?case by blast
  next
    case (later s1 s2)
    then show ?case using step_held by blast
  qed
  with assms(3,4) show ?thesis by blast
qed

end

lemma sse_service_fields [simp]:
  "hs_grace sse_service = 5 * second" "hs_failed sse_service = 0" "hs_readTimeout sse_service = 10 * second"
  "hs_return sse_service q = sse_return"
  by (simp_all add: sse_service_def)

lemma sse_enter_gone: "sse_enter q d h d' \<Longrightarrow> snd d' = snd d"
  by (cases q; cases "sse_mux (fst q)") (auto simp: sse_enter_def)

lemma sse_return_gone: "sse_return h late d r d' \<Longrightarrow> snd d' = snd d"
  by (cases h) simp_all

lemma sse_outside_gone: "sse_outside d d' \<Longrightarrow> snd d \<subseteq> snd d'"
  by (induction rule: sse_outside.induct) auto

interpretation stream: lasting_request sse_service "Streaming ch" "\<lambda>d. ch \<notin> snd d" for ch
  by unfold_locales (auto simp: sse_service_def dest: sse_enter_gone sse_return_gone sse_outside_gone)

text \<open>A stream that is late returns, although its client may still be there.\<close>

lemma late_stream_returns:
  "sv_casting (fst d) = None \<Longrightarrow>
    \<exists>d'. sse_return (Streaming ch) True d (200, concat (map render (sv_out (fst d) ch))) d' \<and> snd d' = snd d"
  by (cases "Unregister ch (sv_hub (fst d))") auto

text \<open>
  C38: a stream lives for ten seconds, and a shutdown in that time fails. The read deadline of an open stream
  is never more than ten seconds away. Before the deadline, and while its client stays, the stream is open in
  every run; a process that has ended by then has died of its listener, or it has waited five seconds or
  more and \<open>Shutdown\<close> has returned an error, which the status 0 of the process does not show. Once the
  deadline has passed (and no broadcast is under way) the handler can return at once, with what it has
  written, although its client may still be there.
\<close>

theorem stream_ends_at_read_deadline:
  assumes "sse_serves now s" "Running q (Streaming ch) dl \<in># st_conns s"
  shows "dl \<le> st_clock s + 10 * second
    \<and> (\<forall>s'. st_main s = Serving \<and> site_run sse_service s s' \<and> ch \<notin> snd (st_data s') \<and> st_clock s' < dl \<longrightarrow>
        Running q (Streaming ch) dl \<in># st_conns s'
        \<and> (\<forall>code err. st_main s' = Exited code err \<longrightarrow>
            code = 1 \<and> \<not> err \<or> code = 0 \<and> err \<and> st_clock s + 5 * second \<le> st_clock s'))
    \<and> (dl \<le> st_clock s \<and> \<not> exited (st_main s) \<and> sv_casting (fst (st_data s)) = None \<longrightarrow>
        (\<exists>s'. site_step sse_service s s' \<and> snd (st_data s') = snd (st_data s)
          \<and> st_conns s' = add_mset (Answered q (200, concat (map render (sv_out (fst (st_data s)) ch))))
              (st_conns s - {#Running q (Streaming ch) dl#})))"
proof (intro conjI allI impI)
  have "deadlines_near sse_service s"
    by (rule run_deadlines [OF assms(1) [unfolded sse_serves_def]]) (simp add: deadlines_near_def site_start_def)
  with assms(2) show "dl \<le> st_clock s + 10 * second" unfolding deadlines_near_def sse_service_fields by blast
next
  fix s' assume s': "st_main s = Serving \<and> site_run sse_service s s' \<and> ch \<notin> snd (st_data s') \<and> st_clock s' < dl"
  then have "stream.held ch q dl (st_clock s) s'"
    using assms(2) by (intro stream.run_held [of s s']) (auto simp: stream.held_def)
  then show "Running q (Streaming ch) dl \<in># st_conns s'"
    "\<And>code err. st_main s' = Exited code err \<Longrightarrow>
      code = 1 \<and> \<not> err \<or> code = 0 \<and> err \<and> st_clock s + 5 * second \<le> st_clock s'"
    by (auto simp: stream.held_def split: if_splits)
next
  assume late: "dl \<le> st_clock s \<and> \<not> exited (st_main s) \<and> sv_casting (fst (st_data s)) = None"
  let ?r = "(200, concat (map render (sv_out (fst (st_data s)) ch)))"
  obtain d' where d': "sse_return (Streaming ch) True (st_data s) ?r d'" "snd d' = snd (st_data s)"
    using late late_stream_returns by blast
  obtain cs where cs: "st_conns s = add_mset (Running q (Streaming ch) dl) cs"
    using multi_member_split [OF assms(2)] by blast
  let ?s' = "s\<lparr>st_conns := add_mset (Answered q ?r) cs, st_data := d', st_returned := add_mset (q, ?r) (st_returned s)\<rparr>"
  have "site_step sse_service s ?s'"
    by (rule return [OF _ cs]) (use late d' in simp_all)
  then show "\<exists>s'. site_step sse_service s s' \<and> snd (st_data s') = snd (st_data s)
      \<and> st_conns s' = add_mset (Answered q ?r) (st_conns s - {#Running q (Streaming ch) dl#})"
    using d'(2) by (intro exI [of _ ?s']) (simp add: cs)
qed

section \<open>Runs\<close>

theorem served_webhooks_are_queued_witness:
  "\<exists>s. ingestion_serves no_limit (Some (GetSourceSigningSecret, EnsureSource)) demo_handler (demo_ingest, []) 0 s
    \<and> st_main s = Exited 0 False \<and> image_mset webhook_status (st_written s) = {#Some 202#}
    \<and> arrivals (st_data s) = [marshal_event (build_event demo_request ''hi'' ''e'' 7)]"
proof -
  let ?sv = "ingestion_service no_limit (Some (GetSourceSigningSecret, EnsureSource)) demo_handler"
  let ?q = "Webhook_at demo_request"
  obtain resp x where run: "handleWebhook no_limit (Some (GetSourceSigningSecret, EnsureSource)) demo_handler ''e'' 7
      demo_request demo_ingest = (resp, x)" "re_Status resp = 202"
    using demo_run by (metis fst_conv surj_pair)
  let ?s0 = "site_start (demo_ingest, []) 0 ::
    (ingestion_request, unit, string \<times> int \<times> response, (unit, pg) ingestion_state) site"
  let ?s1 = "?s0\<lparr>st_listener := Accepting\<rparr>"
  let ?s2 = "?s1\<lparr>st_conns := add_mset (Fresh (st_clock ?s1)) (st_conns ?s1)\<rparr>"
  let ?s3 = "?s2\<lparr>st_conns := add_mset (Running ?q () (0 + hs_readTimeout ?sv)) {#}, st_data := (demo_ingest, []), st_read := add_mset ?q (st_read ?s2)\<rparr>"
  let ?s4 = "?s3\<lparr>st_conns := add_mset (Answered ?q (''e'', 7, resp)) {#}, st_data := (x, []),
    st_returned := add_mset (?q, (''e'', 7, resp)) (st_returned ?s3)\<rparr>"
  let ?s5 = "?s4\<lparr>st_conns := {#} + {#}, st_written := add_mset (?q, (''e'', 7, resp)) (st_written ?s4)\<rparr>"
  let ?s6 = "?s5\<lparr>st_cancelled := True\<rparr>"
  let ?s7 = "?s6\<lparr>st_main := Stopping (st_clock ?s6 + hs_grace ?sv),
    st_listener := (if st_listener ?s6 = Accepting then Closed else st_listener ?s6)\<rparr>"
  have "site_run ?sv ?s0 ?s1" by (rule later [OF same listen]) (simp_all add: site_start_def)
  then have "site_run ?sv ?s0 ?s2" by (rule later [OF _ connect]) (simp_all add: site_start_def)
  then have "site_run ?sv ?s0 ?s3"
    by (rule later [OF _ read [where c = "Fresh 0"]]) (simp_all add: site_start_def ingestion_service_def second_def)
  then have "site_run ?sv ?s0 ?s4"
    by (rule later [OF _ return]) (simp_all add: site_start_def ingestion_service_def route_request_def run)
  then have "site_run ?sv ?s0 ?s5" by (rule later [OF _ answer]) (simp_all add: site_start_def)
  then have "site_run ?sv ?s0 ?s6" by (rule later [OF _ signal]) (simp add: site_start_def)
  then have "site_run ?sv ?s0 ?s7" by (rule later [OF _ shut_down]) (simp_all add: site_start_def)
  then have "site_run ?sv ?s0 (?s7\<lparr>st_main := Exited 0 False\<rparr>)"
    by (rule later [OF _ drained]) simp_all
  then have all: "ingestion_serves no_limit (Some (GetSourceSigningSecret, EnsureSource)) demo_handler (demo_ingest, []) 0
      (?s7\<lparr>st_main := Exited 0 False\<rparr>)"
    unfolding ingestion_serves_def .
  obtain xs late where xs: "arrivals (x, []) = arrivals (demo_ingest, []) @ map entry_of xs"
    "mset xs = filter_mset (\<lambda>x. webhook_status x = Some 202) {#(?q, ''e'', 7, resp)#} + late"
    "late \<subseteq># filter_mset (\<lambda>x. webhook_status x = Some 503) {#(?q, ''e'', 7, resp)#}"
    using served_webhooks_are_queued [OF all] by (auto simp: site_start_def)
  from xs(2,3) run(2) have "xs = [(?q, ''e'', 7, resp)]" by simp
  with xs(1) have "arrivals (x, []) = [marshal_event (build_event demo_request ''hi'' ''e'' 7)]"
    by (simp add: arrivals_def demo_ingest_def redis_of_def demo_request_def)
  with all run(2) show ?thesis by (intro exI [of _ "?s7\<lparr>st_main := Exited 0 False\<rparr>"]) (simp add: site_start_def)
qed

theorem stream_ends_at_read_deadline_witness:
  "\<exists>s s' s2. sse_serves 0 s \<and> site_run sse_service s s' \<and> site_run sse_service s s2
    \<and> st_main s = Serving \<and> st_clock s = 0 \<and> st_main s' = Exited 0 True \<and> 5 * second \<le> st_clock s'
    \<and> snd (st_data s2) = {} \<and> st_conns s2 = {#Answered (''/events'', []) (200, render Connected)#}"
proof -
  let ?q = "(''/events'', [])" and ?sv = sse_service
  let ?d = "(connected [] sse_start, {}) :: sse_state"
  let ?s0 = "site_start (sse_start, {}) 0 :: (string \<times> string, sse_handler, int \<times> string, sse_state) site"
  let ?s1 = "?s0\<lparr>st_listener := Accepting\<rparr>"
  let ?s2 = "?s1\<lparr>st_conns := add_mset (Fresh (st_clock ?s1)) (st_conns ?s1)\<rparr>"
  let ?s3 = "?s2\<lparr>st_conns := add_mset (Running ?q (Streaming 0) (0 + hs_readTimeout ?sv)) {#}, st_data := ?d, st_read := add_mset ?q (st_read ?s2)\<rparr>"
  let ?s4 = "?s3\<lparr>st_cancelled := True\<rparr>"
  let ?s5 = "?s4\<lparr>st_main := Stopping (st_clock ?s4 + hs_grace ?sv),
    st_listener := (if st_listener ?s4 = Accepting then Closed else st_listener ?s4)\<rparr>"
  let ?s6 = "?s5\<lparr>st_clock := st_clock ?s5 + 5 * second\<rparr>"
  let ?s7 = "?s6\<lparr>st_main := Exited (hs_failed ?sv) True\<rparr>"
  have "site_run ?sv ?s0 ?s1" by (rule later [OF same listen]) (simp_all add: site_start_def)
  then have "site_run ?sv ?s0 ?s2" by (rule later [OF _ connect]) (simp_all add: site_start_def)
  then have "site_run ?sv ?s0 ?s3"
    by (rule later [OF _ read [where c = "Fresh 0"]])
      (simp_all add: site_start_def sse_service_def sse_enter_def sse_mux_def ServeHTTP_def sse_start_def NewHub_def second_def)
  then have up: "sse_serves 0 ?s3" unfolding sse_serves_def .
  have "site_run ?sv ?s3 ?s4" by (rule later [OF same signal]) (simp add: site_start_def)
  then have "site_run ?sv ?s3 ?s5" by (rule later [OF _ shut_down]) (simp_all add: site_start_def)
  then have "site_run ?sv ?s3 ?s6" by (rule later [OF _ time_passes]) (simp_all add: second_def)
  then have down: "site_run ?sv ?s3 ?s7" by (rule later [OF _ deadline [where t = "5 * second"]]) (simp_all add: site_start_def)
  have "Running ?q (Streaming 0) (10 * second) \<in># st_conns ?s3" by simp
  from stream_ends_at_read_deadline [OF up this] down have five: "0 + 5 * second \<le> st_clock ?s7"
    by (simp add: site_start_def second_def)
  let ?t = "?s3\<lparr>st_clock := st_clock ?s3 + 10 * second\<rparr>"
  have t: "site_run sse_service ?s3 ?t" by (rule later [OF same time_passes]) (simp_all add: site_start_def second_def)
  have "site_run ?sv ?s0 ?t" by (rule later [OF up [unfolded sse_serves_def] time_passes]) (simp_all add: site_start_def second_def)
  then have "sse_serves 0 ?t" "Running ?q (Streaming 0) (10 * second) \<in># st_conns ?t" unfolding sse_serves_def by simp_all
  moreover have "sv_out (fst ?d) 0 = [Connected]" "sv_casting (fst ?d) = None"
    by (simp_all add: connected_def sse_start_def NewHub_def Register_def)
  ultimately obtain s2 where s2: "site_step sse_service ?t s2" "snd (st_data s2) = {}"
    "st_conns s2 = {#Answered ?q (200, render Connected)#}"
    using stream_ends_at_read_deadline [of 0 ?t ?q 0 "10 * second"] by (auto simp: site_start_def)
  have "site_run sse_service ?s3 s2" by (rule later [OF t s2(1)])
  with up down five s2(2,3) show ?thesis
    by (intro exI [of _ ?s3] exI [of _ ?s7] exI [of _ s2]) (simp add: site_start_def)
qed

end
