(* ===== verification/Measures.thy ===== *)
theory Measures
  imports Metrics Streams
begin

text \<open>
  What the services put into the metrics of Redis: the ingestion service counts the webhooks it accepts, and the
  delivery engine records how long an event took to reach it and how long its deliveries took. The
  commands of the metrics are taken to be carried out; the services ignore their errors.
\<close>

section \<open>What is recorded\<close>

text \<open>
  A request with its identifier, the clock of the handler, and the clock when the count is written; with
  \<open>pub\<close> the service has a publisher.
\<close>

type_synonym timed_request = "string \<times> int \<times> request \<times> int"

definition counted_webhook ::
    "'l allow \<Rightarrow> ((string \<Rightarrow> 's \<Rightarrow> ('e + string) \<times> 's) \<times> (string \<Rightarrow> 's \<Rightarrow> 'f \<times> 's)) option
     \<Rightarrow> Handler \<Rightarrow> bool \<Rightarrow> timed_request \<Rightarrow> ('l, 's) ingest \<times> zset \<Rightarrow> ('l, 's) ingest \<times> zset" where
  "counted_webhook allow secrets h pub q sz =
    (case q of (eventID, now, r, written_at) \<Rightarrow>
      case handleWebhook allow secrets h eventID now r (fst sz) of
        (resp, s) \<Rightarrow> (s, if re_Status resp = 202 \<and> pub then RecordThroughput written_at (snd sz) else snd sz))"

text \<open>\<open>time.Since(event.ReceivedAt).Milliseconds()\<close>, recorded when it is positive.\<close>

definition pipeline_latency :: "int \<Rightarrow> WebhookEvent \<Rightarrow> int option" where
  "pipeline_latency now event =
    (let pipelineMs = quot (time_sub now (ev_ReceivedAt event)) 1000000
     in if pipelineMs > 0 then Some pipelineMs else None)"

text \<open>An event in the engine: when it is measured, and the actions of its goroutines with their times.\<close>

type_synonym timed_event = "int \<times> WebhookEvent \<times> (int \<times> action) list"

definition measured_action :: "int \<times> action \<Rightarrow> zset \<Rightarrow> zset" where
  "measured_action ta z = (case snd ta of Delivery.RecordLatency ms \<Rightarrow> Metrics.RecordLatency (fst ta) ms z | _ \<Rightarrow> z)"

definition measured_event :: "timed_event \<Rightarrow> zset \<Rightarrow> zset" where
  "measured_event te z =
    (case te of (now, event, tas) \<Rightarrow> fold measured_action tas
      (case pipeline_latency now event of None \<Rightarrow> z | Some ms \<Rightarrow> Metrics.RecordLatency now ms z))"

section \<open>What the sets hold\<close>

text \<open>The times of the accepted webhooks, and the latencies with their times.\<close>

fun accepted_times ::
    "'l allow \<Rightarrow> ((string \<Rightarrow> 's \<Rightarrow> ('e + string) \<times> 's) \<times> (string \<Rightarrow> 's \<Rightarrow> 'f \<times> 's)) option
     \<Rightarrow> Handler \<Rightarrow> timed_request list \<Rightarrow> ('l, 's) ingest \<Rightarrow> int list" where
  "accepted_times allow secrets h [] s = []"
| "accepted_times allow secrets h ((eventID, now, r, written_at) # qs) s =
    (case handleWebhook allow secrets h eventID now r s of
       (resp, s') \<Rightarrow> (if re_Status resp = 202 then [written_at] else []) @ accepted_times allow secrets h qs s')"

definition action_latency :: "int \<times> action \<Rightarrow> (int \<times> int) option" where
  "action_latency ta = (case snd ta of Delivery.RecordLatency ms \<Rightarrow> Some (fst ta, ms) | _ \<Rightarrow> None)"

text \<open>The age of the event in whole milliseconds, if there is one, and the durations of its deliveries.\<close>

definition event_latencies :: "timed_event \<Rightarrow> (int \<times> int) list" where
  "event_latencies te =
    (case te of (now, event, tas) \<Rightarrow>
      (if now - ev_ReceivedAt event < 1000000 then [] else [(now, (now - ev_ReceivedAt event) div 1000000)])
      @ List.map_filter action_latency tas)"

text \<open>The clocks of an event fit into 64 bits, and so does its age.\<close>

definition clocked :: "timed_event \<Rightarrow> bool" where
  "clocked te =
    (case te of (now, event, tas) \<Rightarrow>
      now - ev_ReceivedAt event \<le> max64 \<and> list_all (\<lambda>t. min64 \<le> t \<and> t \<le> max64) (now # map fst tas))"

lemma pipeline_latency_age:
  assumes "now - ev_ReceivedAt event \<le> max64"
  shows "pipeline_latency now event =
    (if now - ev_ReceivedAt event < 1000000 then None else Some ((now - ev_ReceivedAt event) div 1000000))"
  using assms
  by (auto simp: pipeline_latency_def time_sub_def quot_def Let_def min64_def max64_def pos_imp_zdiv_pos_iff)

lemma counted_webhooks:
  "snd (fold (counted_webhook allow secrets h True) qs (s, z)) = fold RecordThroughput (accepted_times allow secrets h qs s) z"
proof (induction qs arbitrary: s z)
  case (Cons q qs)
  obtain i now r t where q: "q = (i, now, r, t)" by (cases q)
  obtain resp s' where run: "handleWebhook allow secrets h i now r s = (resp, s')" by fastforce
  then have "counted_webhook allow secrets h True q (s, z) = (s', if re_Status resp = 202 then RecordThroughput t z else z)"
    by (simp add: q counted_webhook_def)
  with run show ?case by (simp add: q Cons.IH)
qed simp

lemma measured_actions: "fold measured_action tas z = fold record_latency (List.map_filter action_latency tas) z"
  by (induction tas arbitrary: z)
    (auto simp: measured_action_def action_latency_def record_latency_def List.map_filter_def split: action.split)

lemma measured_events:
  "list_all clocked tes \<Longrightarrow> fold measured_event tes z = fold record_latency (concat (map event_latencies tes)) z"
proof (induction tes arbitrary: z)
  case (Cons te tes)
  then have "measured_event te z = fold record_latency (event_latencies te) z"
    by (auto simp: measured_event_def event_latencies_def clocked_def pipeline_latency_age measured_actions record_latency_def)
  with Cons show ?case by simp
qed simp

lemma clocked_range:
  assumes "list_all clocked tes" "p \<in> set (concat (map event_latencies tes))"
  shows "min64 \<le> fst p \<and> fst p \<le> max64"
proof -
  obtain now event tas where te: "(now, event, tas) \<in> set tes" "p \<in> set (event_latencies (now, event, tas))"
    using assms(2) by auto
  then have "fst p \<in> set (now # map fst tas)"
    by (auto simp: event_latencies_def List.map_filter_def action_latency_def rev_image_eqI split: if_splits action.splits)
  moreover have "clocked (now, event, tas)" using assms(1) te(1) by (simp add: list_all_iff)
  ultimately show ?thesis by (auto simp: clocked_def list_all_iff)
qed

text \<open>The minutes of the sets, counted from 1970.\<close>

definition minute_of :: "int \<Rightarrow> int" where
  "minute_of t = t div (60 * second)"

lemma minute_ts_of: "minute_ts t = minute_of t * 60"
  by (simp add: minute_ts_def minute_of_def minute_def)

lemma clock_in_range: "min64 \<le> t \<Longrightarrow> t \<le> max64 \<Longrightarrow> in_range t"
  using zdiv_mono1 [of min64 t minute] zdiv_mono1 [of t max64 minute]
  by (simp add: in_range_def minute_ts_def minute_def second_def min64_def max64_def)

lemma since_minutes:
  assumes "\<bar>r\<bar> * (60 * second) \<le> max64"
  shows "metrics_since now r = (minute_of now - r) * 60"
proof -
  have r: "min64 \<le> - r" "- r \<le> max64" "min64 \<le> - r * minute" "- r * minute \<le> max64"
    using assms unfolding minute_def second_def min64_def max64_def by (cases "r < 0"; simp)+
  have "(now + - r * minute) div minute = now div minute - r"
    using div_mult_self1 [of minute now "- r"] by (simp add: minute_def second_def mult.commute)
  with r show ?thesis by (simp add: metrics_since_def minute_ts_def minute_of_def minute_def)
qed

text \<open>The points of a chart by the numbers of their minutes.\<close>

lemma minute_points:
  "(\<lambda>ts. g ts) ` {ts \<in> (\<lambda>x. minute_ts (h x)) ` S. k * 60 \<le> ts} = (\<lambda>m. g (m * 60)) ` {m \<in> (\<lambda>x. minute_of (h x)) ` S. k \<le> m}"
  by (auto simp: minute_ts_of image_iff)

text \<open>
  C33: what the charts show. After any requests to the ingestion service and any events in the delivery
  engine, a chart for a range of \<open>r\<close> minutes has one point for each minute with something to show that is not
  more than \<open>r\<close> minutes before the present one, and no other points. In the throughput chart its value is the
  number of webhooks that were answered 202 and counted in that minute; rejected and failed requests do not
  count. In the latency chart it is the greatest latency recorded in the minute (not an average, nor the
  latest), be it the age of an event in whole milliseconds when the engine takes it, if it is at least one,
  or the duration of a delivery. The points come in the order of their values and not of their times. The
  commands that write the metrics are taken to be carried out (the services ignore their errors), and
  clocks, ages and the range fit into 64 bits of nanoseconds.
\<close>

theorem charts_show_the_work:
  assumes "list_all (\<lambda>(_, _, _, t). min64 \<le> t \<and> t \<le> max64) qs" "list_all clocked tes" "\<bar>r\<bar> * (60 * second) \<le> max64"
  shows "(\<exists>ps. getMetrics now r (Some (snd (fold (counted_webhook allow secrets h True) qs (s, [])))) = Some ps
      \<and> set ps = (\<lambda>m. \<lparr>mp_Timestamp = m * 60 * second,
            mp_Value = int (length (filter (\<lambda>t. minute_of t = m) (accepted_times allow secrets h qs s)))\<rparr>) `
          {m \<in> minute_of ` set (accepted_times allow secrets h qs s). minute_of now - r \<le> m}
      \<and> distinct ps \<and> sorted (map mp_Value ps))
   \<and> (\<exists>ps. getMetrics now r (Some (fold measured_event tes [])) = Some ps
      \<and> set ps = (\<lambda>m. \<lparr>mp_Timestamp = m * 60 * second,
            mp_Value = Max {ms. \<exists>t. (t, ms) \<in> set (concat (map event_latencies tes)) \<and> minute_of t = m}\<rparr>) `
          {m \<in> (\<lambda>p. minute_of (fst p)) ` set (concat (map event_latencies tes)). minute_of now - r \<le> m}
      \<and> distinct ps \<and> sorted (map mp_Value ps))"
proof -
  let ?ts = "accepted_times allow secrets h qs s" and ?ls = "concat (map event_latencies tes)"
  have "list_all in_range (accepted_times allow secrets h qs s)" for s
    using assms(1) by (induction qs arbitrary: s) (auto simp: clock_in_range split: prod.split)
  moreover have "list_all (in_range \<circ> fst) ?ls"
    unfolding list_all_iff comp_def by (intro ballI) (use clocked_range [OF assms(2)] in \<open>blast intro: clock_in_range\<close>)
  ultimately have "(\<exists>ps. getMetrics now r (Some (fold RecordThroughput ?ts [])) = Some ps
      \<and> set ps = (\<lambda>ts. \<lparr>mp_Timestamp = ts * second, mp_Value = int (count_at ts ?ts)\<rparr>) `
          {ts \<in> (\<lambda>t. minute_ts t) ` set ?ts. (minute_of now - r) * 60 \<le> ts}
      \<and> distinct ps \<and> sorted (map mp_Value ps))
   \<and> (\<exists>ps. getMetrics now r (Some (fold record_latency ?ls [])) = Some ps
      \<and> set ps = (\<lambda>ts. \<lparr>mp_Timestamp = ts * second, mp_Value = Max (latencies_at ts ?ls)\<rparr>) `
          {ts \<in> (\<lambda>p. minute_ts (fst p)) ` set ?ls. (minute_of now - r) * 60 \<le> ts}
      \<and> distinct ps \<and> sorted (map mp_Value ps))"
    unfolding since_minutes [OF assms(3), of now, symmetric] by (intro metrics_reported)
  then show ?thesis
    unfolding counted_webhooks measured_events [OF assms(2)] minute_points
    by (simp only: count_at_def latencies_at_def minute_ts_of mult_cancel_right) simp
qed

theorem charts_show_the_work_witness:
  "(\<exists>ps. getMetrics second 60 (Some (snd (fold (counted_webhook no_limit
        (Some (GetSourceSigningSecret, EnsureSource)) demo_handler True) [(''e'', 7, demo_request, second)] (demo_ingest, [])))) = Some ps
      \<and> set ps = {\<lparr>mp_Timestamp = 0, mp_Value = 1\<rparr>})
   \<and> (\<exists>ps. getMetrics second 60 (Some (fold measured_event
        [(second, (plain ''e'' ''s'' [])\<lparr>ev_ReceivedAt := 0\<rparr>, [(second, Delivery.RecordLatency 30)])] [])) = Some ps
      \<and> set ps = {\<lparr>mp_Timestamp = 0, mp_Value = 1000\<rparr>})"
proof -
  let ?secrets = "Some (GetSourceSigningSecret, EnsureSource)" and ?qs = "[(''e'', 7, demo_request, second)]"
  let ?tes = "[(second, (plain ''e'' ''s'' [])\<lparr>ev_ReceivedAt := 0\<rparr>, [(second, Delivery.RecordLatency 30)])]"
  have l: "concat (map event_latencies ?tes) = [(second, 1000), (second, 30)]"
    by (simp add: event_latencies_def action_latency_def List.map_filter_def second_def)
  have a: "accepted_times no_limit ?secrets demo_handler ?qs demo_ingest = [second]"
    using demo_run by (simp add: case_prod_unfold)
  have m: "minute_of second = 0" by (simp add: minute_of_def second_def)
  have tes: "list_all clocked ?tes" by (simp add: clocked_def second_def min64_def max64_def)
  have qs: "list_all (\<lambda>(_, _, _, t). min64 \<le> t \<and> t \<le> max64) ?qs" by (simp add: second_def min64_def max64_def)
  have r: "\<bar>60\<bar> * (60 * second) \<le> max64" by (simp add: second_def max64_def)
  have max: "Max {ms :: int. \<exists>t. (t, ms) \<in> set [(second, 1000), (second, 30)] \<and> minute_of t = 0} = 1000"
  proof -
    have "{ms :: int. \<exists>t. (t, ms) \<in> set [(second, 1000), (second, 30)] \<and> minute_of t = 0} = {1000, 30}" using m by auto
    then show ?thesis by simp
  qed
  have minutes: "{n \<in> minute_of ` set [second]. minute_of second - 60 \<le> n} = {0}"
    "{n \<in> (\<lambda>p. minute_of (fst p)) ` set [(second, 1000 :: int), (second, 30)]. minute_of second - 60 \<le> n} = {0}"
    using m by auto
  have count: "length (filter (\<lambda>t. minute_of t = 0) [second]) = 1" using m by simp
  from charts_show_the_work [OF qs tes r, of second no_limit ?secrets demo_handler demo_ingest]
  show ?thesis unfolding a l minutes image_insert image_empty max count by (elim conjE exE) (simp add: exI)
qed

end
