(* ===== verification/Spec2Isabelle.thy ===== *)
theory Spec2Isabelle
  imports Signature Flatten Schema Store Queue Routing Delivery Fanout Diffs RateLimit Ingestion Orchestrator
    Extract JsonText Cloud Documents Config Bridge Dashboard Replay Metrics Api Hub Pubsub Streams Filestore Workers
    Invariants Recovery Races Shutdown Pipeline Router Startup
    Servers Measures
begin

text \<open>
  A verification development of WebhookMind, a webhook pipeline of six Go services that share Redis
  (queues, rate limits, metrics, publications), Postgres (configuration and results) and ScyllaDB (the
  archive of events).

  \<^bold>\<open>The program.\<close> \<open>cmd/ingestion\<close> accepts webhooks, checks rate limits and HMAC signatures and puts
  events into the incoming queue. \<open>cmd/orchestrator\<close> moves each of them to the extraction queue, when its
  body names a file, or to the delivery queue. \<open>cmd/extractor-bridge\<close> downloads the file, has a language
  model or the local engine extract data from it, merges the data into the body and puts the event into the
  delivery queue. \<open>cmd/delivery\<close> archives the event, infers the schema of its source, reports drifts,
  chooses destinations by routing rules, posts the event to them with retries, and keeps dead letters and
  differences to the previous event. \<open>cmd/api\<close> is the management interface of the dashboard, with
  replays and the retry of dead letters, and \<open>cmd/sse\<close> streams what the services publish.

  \<^bold>\<open>Theories and sources\<close> (paths under \<open>src/\<close>).
  \<^item> Prelude, GoStrings, Json: Go's maps (association lists with distinct keys), \<open>int64\<close> with its
    wrap-around, the routines of \<open>strings\<close>, \<open>strconv\<close>, \<open>hex\<close> and \<open>net\<close> that the code calls, decoded JSON.
  \<^item> Sha256, Signature: \<open>internal/ingestion/signature.go\<close>, with SHA-256 and HMAC written out.
  \<^item> Models: \<open>internal/models\<close>; \<open>wire\<close> is what writing an event as JSON and reading it back makes of it.
  \<^item> Queue: \<open>internal/queue/redis.go\<close>. A command is answered, refused, or carried out with its reply lost.
  \<^item> Store, Dashboard: \<open>internal/store\<close>, one definition for each query, over tables as lists.
  \<^item> Flatten, Schema: \<open>internal/schema\<close>. Routing: \<open>internal/routing\<close>. RateLimit: \<open>internal/ratelimit\<close>.
  \<^item> Ingestion: \<open>internal/ingestion/handler.go\<close>. Orchestrator: \<open>cmd/orchestrator\<close>.
  \<^item> Delivery, Fanout: \<open>internal/delivery/engine.go\<close>; a goroutine is a trace of actions, the goroutines of
    an event are interleaved in any order, and Fanout shows what they leave in the stores. Diffs: the
    comparison with the previous event, a goroutine whose reads fall anywhere beside and after the delivery.
  \<^item> Extract, Cloud: \<open>internal/extraction\<close>. JsonText: the bytes that \<open>json.Marshal\<close> writes for the
    requests of Cloud, and a reader of JSON; Documents reads these requests with it as a provider does.
    Bridge: \<open>cmd/extractor-bridge\<close>.
  \<^item> Replay: \<open>internal/replay\<close>. Metrics: \<open>internal/pubsub/metrics.go\<close>, and Measures what
    the services record there. Hub: \<open>internal/sse\<close> as a step
    relation of the subscriber and the handlers of the streams.
  \<^item> Api, Router: \<open>internal/api\<close>. Config: \<open>internal/config\<close>. Startup: the start of the commands under
    \<open>cmd\<close> and the connection loop of \<open>internal/store/scylla.go\<close>. Servers: the HTTP servers of ingestion, API
    and streams from the listener to the exit, with connections and handlers that overlap, the read deadlines of
    the connections and \<open>Shutdown\<close>.
  \<^item> Pubsub: the publisher and the subscriber of \<open>internal/pubsub\<close>; Streams: what the services publish, and
    its way to the streams of the hub. Filestore: \<open>internal/filestore/minio.go\<close>, and the bridge on it.
  \<^item> Workers: the pool of goroutines of the orchestrator as a step relation, with deaths of the process.
    Invariants: what every delivery keeps of the tables. Recovery: a delivery cut off by a crash, and
    what \<open>RecoverIncomplete\<close> makes of it. Races: schema updates of workers that overlap.
    Shutdown: the goroutines of the services with workers, from the launch to the return of \<open>main\<close>.
  \<^item> Pipeline: the composition of ingestion, orchestrator, bridge and delivery.

  \<^bold>\<open>Interfaces.\<close> The locales \<open>work_queue\<close> (Queue), \<open>secret_store\<close> (Ingestion), \<open>schema_store\<close> and
  \<open>drift_store\<close> (Schema), \<open>extractor\<close> and \<open>fallback_extractor\<close> (Extract), \<open>llm_provider\<close> (Cloud) with its
  extension \<open>document_provider\<close> (Documents), \<open>object_store\<close> (Filestore), \<open>dutiful\<close> (Shutdown), \<open>ledger_service\<close> and
  \<open>lasting_request\<close> (Servers) state what a
  component relies on; each is interpreted on the definitions of the component that provides it
  (\<open>rq\<close>, \<open>pgk\<close>, \<open>pgs\<close>, \<open>local\<close>, \<open>cloud\<close>, \<open>anthropic\<close>, \<open>openai\<close> and their fallbacks, \<open>minio\<close>, \<open>orch\<close>,
  \<open>dlv\<close>, \<open>ing\<close>, \<open>stream\<close>), and the
  properties of the clients follow from these interpretations.

  \<^bold>\<open>What is shown.\<close>
  \<^item> End to end: an accepted webhook is settled at every destination that routing chose for it, with a
    successful attempt or a dead letter and not both, with or without a file (Pipeline, Fanout); no stage
    loses, doubles or reorders events while the stores answer (Queue, Orchestrator, Bridge); what a service
    publishes reaches the streams of its source (Streams).
  \<^item> The servers: in every run of the ingestion server the incoming queue gains the events of the webhooks
    answered 202 and no others, save pushes whose reply was lost, and the status 0 means that no request was cut
    off; a stream lives until the read deadline of its connection, and one that is younger than five seconds at
    a shutdown of the streaming service makes it fail (Servers).
  \<^item> Crashes: the pool of workers loses at most what its workers hold when the process dies (Workers); which
    deliveries are taken up again after a crash, and how often (Recovery).
  \<^item> State: the tables stay well formed whatever fails (Invariants); a file is never overwritten by that of
    another event (Filestore).
  \<^item> Security: an accepted webhook is signed when its source has a secret or the deployment requires it
    (Ingestion, Startup); a signature is accepted exactly when its HMAC and its age are right, where the age
    is also taken for right when its negation leaves 64 bits (Signature); the
    key that a visitor brings leaves the headers and reaches its own provider only (Ingestion, Cloud); an
    event goes only to active destinations of its source (Routing); a GET request writes nothing (Router).
  \<^item> Reference semantics: the retry loop against a short specification (Delivery), rule evaluation
    (Routing), inference against the list of the samples (Schema, Store), flattening against the relation of
    all map orders (Flatten), the bytes of the requests to the language models against a reader of them (Documents), the
    DOCX text against the tree of the document (Extract), the drifts of an event against the departures of its
    fields (Schema, Store), the charts against the webhooks answered 202 and the latencies in the range
    (Measures), a stored difference against the two payloads that it turns into each other (Diffs).
  \<^item> Concurrency: the comparison beside a delivery leaves it alone and writes at most one row, between this
    event and a delivered one (Diffs); the hub never panics, its streams are in order and filtered, and a slow client does not
    hold it up (Hub); a replay sends a prefix of the archive whatever the operator does meanwhile (Replay).
  \<^item> Bounds and termination: attempts and waits of the cloud backend and of the Scylla connection, the
    number of workers, the end of the orchestrator after a signal, whatever happens outside (Shutdown).
  \<^item> Errors: what happens when a read fails, a push fails, a process restarts, workers overlap or a configured
    value is out of range. Several of these properties are defects of the code, stated as it behaves.

  \<^bold>\<open>Faults.\<close> \<open>pg_faults\<close>, \<open>sc_faults\<close> and \<open>rd_fates\<close> script what the stores answer; a property without a
  hypothesis on them holds for every script, and \<open>pg_up\<close>, \<open>queue_up\<close> and \<open>all_up\<close> say that they answer.

  \<^bold>\<open>Parameters.\<close> Code that is not in the repository is an argument: the JSON text syntax of bodies and answers (\<open>parse\<close>,
  \<open>print\<close>; the requests to the language models are written out in JsonText), the decimal form of floats, UUIDs, time and URL parsing, zip and XML tokens, HTTP answers, gRPC,
  the errors and signed links of MinIO, \<open>redis_rate\<close>, chi's path matching and the collation of the databases (rows are listed in an order
  that SQL leaves open).

  \<^bold>\<open>Fuel and bounds.\<close> \<open>replay_loop\<close> waits for a paused session as long as the code does; its argument
  \<open>looks\<close> bounds the looks of one pause, and a run that uses them up ends in \<open>Waiting\<close>. The other loops are
  recursive over their data or, as \<open>scylla_connect\<close>, have a measure. Worker counts are 32-bit words.

  \<^bold>\<open>Not modelled.\<close> Logging; HTTP below a request and its answer (framing, headers of the replies); opening and
  closing connections to the stores; generated code (\<open>internal/extraction/pb\<close>); the dashboard (TypeScript) and the local extraction
  engine (C++).
\<close>

end
